(* ===== verification/Base.thy ===== *)
theory Base
  imports Main "HOL-Library.Sublist" "HOL-Library.Char_ord" "HOL-Library.List_Lexorder"
    "HOL-Library.Product_Lexorder" "HOL-Library.AList" "HOL-Library.Multiset"
begin

text \<open>
  The prelude of the development: the vocabulary the component theories share.

  \<^item> A Rust \<open>String\<close> is its sequence of UTF-8 bytes, an Isabelle \<open>string\<close>; \<open>s.len()\<close> is
    \<open>length s\<close>, and the operations of \<open>str\<close> the code uses are defined here on bytes.
  \<^item> A fallible function returns \<open>'e + 'a\<close>: \<open>Inl\<close> is the error, \<open>Inr\<close> the value.
  \<^item> Unsigned machine integers whose wrap-around matters are naturals with the modulus written
    out (\<open>add_u64\<close>, \<open>mul_u64\<close>); \<open>saturating_sub\<close> is subtraction on \<open>nat\<close>.
  \<^item> A database table is the list of its rows in insertion (\<open>rowid\<close>) order.
  \<^item> The interfaces that several components implement are locales: codecs of persisted
    enumerations, machines with an invariant, and steps that can be undone.
\<close>

section \<open>Collections of facts\<close>

named_theorems table_simps \<open>rewriting of the table operations\<close>
named_theorems str_simps \<open>rewriting of the string operations\<close>
named_theorems inv_intros \<open>an operation keeps its component's invariant\<close>

section \<open>Orderings\<close>

text \<open>\<open>std::cmp::Ordering\<close>, with the order its \<open>Ord\<close> instance has and \<open>Ordering::then\<close>.\<close>

datatype ordering = Less | Equal | Greater

instantiation ordering :: linorder
begin

fun ordering_rank :: "ordering \<Rightarrow> nat" where
  "ordering_rank Less = 0"
| "ordering_rank Equal = 1"
| "ordering_rank Greater = 2"

definition less_eq_ordering :: "ordering \<Rightarrow> ordering \<Rightarrow> bool" where
  "less_eq_ordering a b \<longleftrightarrow> ordering_rank a \<le> ordering_rank b"

definition less_ordering :: "ordering \<Rightarrow> ordering \<Rightarrow> bool" where
  "less_ordering a b \<longleftrightarrow> ordering_rank a < ordering_rank b"

instance
proof
  fix a b c :: ordering
  show "(a < b) = (a \<le> b \<and> \<not> b \<le> a)"
    by (auto simp: less_eq_ordering_def less_ordering_def)
  show "a \<le> a" by (simp add: less_eq_ordering_def)
  show "a \<le> c" if "a \<le> b" "b \<le> c"
    using that by (simp add: less_eq_ordering_def)
  show "a = b" if "a \<le> b" "b \<le> a"
    using that by (cases a; cases b) (simp_all add: less_eq_ordering_def)
  show "a \<le> b \<or> b \<le> a" by (auto simp: less_eq_ordering_def)
qed

end

definition cmp :: "'a::linorder \<Rightarrow> 'a \<Rightarrow> ordering" where
  "cmp a b = (if a < b then Less else if a = b then Equal else Greater)"

fun then_ord :: "ordering \<Rightarrow> ordering \<Rightarrow> ordering" where
  "then_ord Equal o2 = o2"
| "then_ord o1 _ = o1"

fun rev_ord :: "ordering \<Rightarrow> ordering" where
  "rev_ord Less = Greater"
| "rev_ord Equal = Equal"
| "rev_ord Greater = Less"

lemma rev_ord_rev_ord [simp]: "rev_ord (rev_ord x) = x"
  by (cases x) simp_all

lemma rev_ord_eq_iff [simp]:
  "rev_ord x = Equal \<longleftrightarrow> x = Equal" "rev_ord x = Less \<longleftrightarrow> x = Greater"
  "rev_ord x = Greater \<longleftrightarrow> x = Less"
  by (cases x; simp)+

lemma rev_ord_then [simp]: "rev_ord (then_ord a b) = then_ord (rev_ord a) (rev_ord b)"
  by (cases a) simp_all

lemma then_ord_assoc: "then_ord (then_ord a b) c = then_ord a (then_ord b c)"
  by (cases a) simp_all

lemma then_ord_eq_Equal [simp]: "then_ord a b = Equal \<longleftrightarrow> a = Equal \<and> b = Equal"
  by (cases a) simp_all

lemma cmp_refl [simp]: "cmp a a = Equal"
  by (simp add: cmp_def)

lemma cmp_eq_iff [simp]:
  "cmp a b = Equal \<longleftrightarrow> a = b" "cmp a b = Less \<longleftrightarrow> a < b" "cmp a b = Greater \<longleftrightarrow> b < a"
  by (auto simp: cmp_def not_less_iff_gr_or_eq)

lemma cmp_rev: "cmp b a = rev_ord (cmp a b)"
  by (cases a b rule: linorder_cases) (auto simp: cmp_def)

section \<open>Fallible results\<close>

text \<open>The \<open>?\<close> operator: continue with the value, or return the error.\<close>

fun try_bind :: "'e + 'a \<Rightarrow> ('a \<Rightarrow> 'e + 'b) \<Rightarrow> 'e + 'b" where
  "try_bind (Inl e) f = Inl e"
| "try_bind (Inr a) f = f a"

lemma try_bind_Inr: "try_bind x f = Inr b \<longleftrightarrow> (\<exists>a. x = Inr a \<and> f a = Inr b)"
  by (cases x) simp_all

section \<open>Unsigned 64-bit arithmetic\<close>

definition u64_modulus :: nat where
  "u64_modulus = 2 ^ 64"

definition u64_max :: nat where
  "u64_max = 2 ^ 64 - 1"

definition add_u64 :: "nat \<Rightarrow> nat \<Rightarrow> nat" where
  "add_u64 a b = (a + b) mod u64_modulus"

definition mul_u64 :: "nat \<Rightarrow> nat \<Rightarrow> nat" where
  "mul_u64 a b = (a * b) mod u64_modulus"

definition saturating_mul_u64 :: "nat \<Rightarrow> nat \<Rightarrow> nat" where
  "saturating_mul_u64 a b = min (a * b) u64_max"

lemma u64_modulus_pos [simp]: "0 < u64_modulus"
  by (simp add: u64_modulus_def)

lemma add_u64_bound [simp]: "add_u64 a b < u64_modulus"
  by (simp add: add_u64_def)

lemma add_u64_exact: "a + b < u64_modulus \<Longrightarrow> add_u64 a b = a + b"
  by (simp add: add_u64_def)

lemma add_u64_0 [simp]: "a < u64_modulus \<Longrightarrow> add_u64 a 0 = a" "b < u64_modulus \<Longrightarrow> add_u64 0 b = b"
  by (simp_all add: add_u64_def)

lemma mul_u64_exact: "a * b < u64_modulus \<Longrightarrow> mul_u64 a b = a * b"
  by (simp add: mul_u64_def)

section \<open>Strings as UTF-8 bytes\<close>

definition byte :: "char \<Rightarrow> nat" where
  "byte c = of_char c"

text \<open>A continuation byte \<open>10xxxxxx\<close>; \<open>str::is_char_boundary\<close>.\<close>

definition is_cont :: "char \<Rightarrow> bool" where
  "is_cont c \<longleftrightarrow> 128 \<le> byte c \<and> byte c < 192"

definition is_char_boundary :: "string \<Rightarrow> nat \<Rightarrow> bool" where
  "is_char_boundary s i \<longleftrightarrow> i = 0 \<or> i = length s \<or> (i < length s \<and> \<not> is_cont (s ! i))"

text \<open>The \<open>char\<close>s of a string: each is a lead byte with the continuation bytes after it.\<close>

function chars :: "string \<Rightarrow> string list" where
  "chars [] = []"
| "chars (c # cs) = (c # takeWhile is_cont cs) # chars (dropWhile is_cont cs)"
  by pat_completeness auto
termination
  by (relation "measure length") (simp_all add: length_dropWhile_le le_imp_less_Suc)

definition char_count :: "string \<Rightarrow> nat" where
  "char_count s = length (chars s)"

definition take_chars :: "nat \<Rightarrow> string \<Rightarrow> string" where
  "take_chars n s = concat (take n (chars s))"

definition drop_chars :: "nat \<Rightarrow> string \<Rightarrow> string" where
  "drop_chars n s = concat (drop n (chars s))"

lemma concat_chars [simp]: "concat (chars s) = s"
  by (induction s rule: chars.induct) (simp_all add: takeWhile_dropWhile_id)

lemma take_drop_chars [simp]: "take_chars n s @ drop_chars n s = s"
  by (metis append_take_drop_id concat_append concat_chars drop_chars_def take_chars_def)

lemma length_chars_Cons: "length (chars s) \<le> length (chars (c # s))"
proof (cases s)
  case (Cons d ds)
  then show ?thesis by (cases "is_cont d") simp_all
qed simp

lemma length_chars_suffix: "length (chars t) \<le> length (chars (s @ t))"
  by (induction s) (auto intro: order_trans length_chars_Cons simp del: chars.simps)

lemma length_chars_snoc: "length (chars s) \<le> length (chars (s @ [c]))"
proof (induction s rule: chars.induct)
  case (2 d ds)
  show ?case
  proof (cases "\<forall>x \<in> set ds. is_cont x")
    case True
    then have none: "dropWhile is_cont ds = []" by (simp add: dropWhile_eq_Nil_conv)
    show ?thesis unfolding chars.simps by (simp add: none)
  next
    case False
    then show ?thesis using 2 by (auto simp: dropWhile_append)
  qed
qed simp

lemma length_chars_prefix: "length (chars s) \<le> length (chars (s @ t))"
proof (induction t rule: rev_induct)
  case (snoc c t)
  then show ?case using length_chars_snoc [of "s @ t" c] by simp
qed simp

lemma chars_nonempty: "x \<in> set (chars s) \<Longrightarrow> x \<noteq> []"
  by (induction s rule: chars.induct) auto

text \<open>\<open>str::starts_with\<close>, \<open>strip_prefix\<close>, \<open>ends_with\<close>, \<open>strip_suffix\<close>, \<open>contains\<close>.\<close>

definition starts_with :: "string \<Rightarrow> string \<Rightarrow> bool" where
  "starts_with s p \<longleftrightarrow> take (length p) s = p"

definition strip_prefix :: "string \<Rightarrow> string \<Rightarrow> string option" where
  "strip_prefix s p = (if starts_with s p then Some (drop (length p) s) else None)"

definition ends_with :: "string \<Rightarrow> string \<Rightarrow> bool" where
  "ends_with s p \<longleftrightarrow> length p \<le> length s \<and> drop (length s - length p) s = p"

definition strip_suffix :: "string \<Rightarrow> string \<Rightarrow> string option" where
  "strip_suffix s p = (if ends_with s p then Some (take (length s - length p) s) else None)"

fun contains :: "string \<Rightarrow> string \<Rightarrow> bool" where
  "contains [] p \<longleftrightarrow> p = []"
| "contains (c # cs) p \<longleftrightarrow> starts_with (c # cs) p \<or> contains cs p"

text \<open>\<open>str::split(c)\<close> and \<open>str::split_once(c)\<close> for an ASCII separator.\<close>

fun split_char :: "char \<Rightarrow> string \<Rightarrow> string list" where
  "split_char d [] = [[]]"
| "split_char d (c # cs) =
     (if c = d then [] # split_char d cs
      else (case split_char d cs of [] \<Rightarrow> [[c]] | w # ws \<Rightarrow> (c # w) # ws))"

fun split_once :: "char \<Rightarrow> string \<Rightarrow> (string \<times> string) option" where
  "split_once d [] = None"
| "split_once d (c # cs) =
     (if c = d then Some ([], cs)
      else (case split_once d cs of None \<Rightarrow> None | Some (a, b) \<Rightarrow> Some (c # a, b)))"

text \<open>\<open>str::split_once\<close> with a string separator.\<close>

fun split_once_str :: "string \<Rightarrow> string \<Rightarrow> (string \<times> string) option" where
  "split_once_str d [] = (if d = [] then Some ([], []) else None)"
| "split_once_str d (c # cs) =
     (if starts_with (c # cs) d then Some ([], drop (length d) (c # cs))
      else (case split_once_str d cs of None \<Rightarrow> None | Some (a, b) \<Rightarrow> Some (c # a, b)))"

text \<open>\<open>str::lines\<close>: a last empty line does not count, and a line loses its final \<open>\r\<close>.\<close>

definition str_lines :: "string \<Rightarrow> string list" where
  "str_lines s =
     (let ls = split_char (CHR 0x0A) s;
          ls = (if last ls = [] then butlast ls else ls)
      in map (\<lambda>l. case strip_suffix l [CHR 0x0D] of Some l' \<Rightarrow> l' | None \<Rightarrow> l) ls)"

text \<open>\<open>[&str]::join\<close>.\<close>

fun join :: "string \<Rightarrow> string list \<Rightarrow> string" where
  "join sep [] = []"
| "join sep [s] = s"
| "join sep (s # ss) = s @ sep @ join sep ss"

lemma starts_with_append [simp, str_simps]: "starts_with (p @ s) p"
  by (simp add: starts_with_def)

lemma starts_with_Nil [simp, str_simps]: "starts_with s []"
  by (simp add: starts_with_def)

lemma starts_with_iff: "starts_with s p \<longleftrightarrow> (\<exists>t. s = p @ t)"
  by (metis append_eq_conv_conj append_take_drop_id starts_with_def)

lemma strip_prefix_append [simp, str_simps]: "strip_prefix (p @ s) p = Some s"
  by (simp add: strip_prefix_def)

lemma strip_prefix_Some: "strip_prefix s p = Some t \<longleftrightarrow> s = p @ t"
  by (auto simp: strip_prefix_def starts_with_iff)

lemma strip_suffix_Some: "strip_suffix s p = Some t \<longleftrightarrow> s = t @ p"
proof
  assume "strip_suffix s p = Some t"
  then have "ends_with s p" and t: "t = take (length s - length p) s"
    by (auto simp: strip_suffix_def split: if_splits)
  then have "drop (length s - length p) s = p" by (simp add: ends_with_def)
  with t show "s = t @ p" by (metis append_take_drop_id)
next
  assume "s = t @ p"
  then show "strip_suffix s p = Some t" by (simp add: strip_suffix_def ends_with_def)
qed

lemma split_char_nonempty [simp]: "split_char d s \<noteq> []"
  by (induction s) (auto split: list.splits)

lemma split_once_Some: "split_once d s = Some (a, b) \<Longrightarrow> s = a @ d # b \<and> d \<notin> set a"
  by (induction s arbitrary: a) (auto split: if_splits option.splits prod.splits)

lemma split_once_None: "split_once d s = None \<longleftrightarrow> d \<notin> set s"
  by (induction s) (auto split: option.splits)

lemma split_once_append [simp]: "d \<notin> set a \<Longrightarrow> split_once d (a @ d # b) = Some (a, b)"
  by (induction a) auto

subsection \<open>Character classes, ASCII case, and trimming\<close>

definition is_ascii_digit :: "char \<Rightarrow> bool" where
  "is_ascii_digit c \<longleftrightarrow> 48 \<le> byte c \<and> byte c \<le> 57"

definition is_ascii_upper :: "char \<Rightarrow> bool" where
  "is_ascii_upper c \<longleftrightarrow> 65 \<le> byte c \<and> byte c \<le> 90"

definition is_ascii_alphanumeric :: "char \<Rightarrow> bool" where
  "is_ascii_alphanumeric c \<longleftrightarrow>
     is_ascii_digit c \<or> is_ascii_upper c \<or> (97 \<le> byte c \<and> byte c \<le> 122)"

definition to_ascii_lower :: "char \<Rightarrow> char" where
  "to_ascii_lower c = (if is_ascii_upper c then char_of (byte c + 32) else c)"

definition eq_ignore_ascii_case :: "string \<Rightarrow> string \<Rightarrow> bool" where
  "eq_ignore_ascii_case a b \<longleftrightarrow> map to_ascii_lower a = map to_ascii_lower b"

text \<open>
  \<open>str::trim\<close> removes the characters with the Unicode property \<open>White_Space\<close>; these are
  their UTF-8 encodings.
\<close>

definition whitespace :: "string list" where
  "whitespace =
     map (\<lambda>n. [char_of (n :: nat)]) [9, 10, 11, 12, 13, 32]
     @ map (\<lambda>n. map char_of [0xC2, n :: nat]) [0x85, 0xA0]
     @ [map char_of [0xE1, 0x9A, 0x80 :: nat]]
     @ map (\<lambda>n. map char_of [0xE2, 0x80, n :: nat])
         [0x80, 0x81, 0x82, 0x83, 0x84, 0x85, 0x86, 0x87, 0x88, 0x89, 0x8A, 0xA8, 0xA9, 0xAF]
     @ [map char_of [0xE2, 0x81, 0x9F :: nat], map char_of [0xE3, 0x80, 0x80 :: nat]]"

definition is_whitespace :: "string \<Rightarrow> bool" where
  "is_whitespace ch \<longleftrightarrow> List.member whitespace ch"

definition trim :: "string \<Rightarrow> string" where
  "trim s = concat (rev (dropWhile is_whitespace (rev (dropWhile is_whitespace (chars s)))))"

text \<open>The same by the numbers of the bytes, which the simplifier evaluates quickly.\<close>

definition whitespace_bytes :: "nat list list" where
  "whitespace_bytes =
     [[9], [10], [11], [12], [13], [32], [0xC2, 0x85], [0xC2, 0xA0], [0xE1, 0x9A, 0x80],
      [0xE2, 0x80, 0x80], [0xE2, 0x80, 0x81], [0xE2, 0x80, 0x82], [0xE2, 0x80, 0x83],
      [0xE2, 0x80, 0x84], [0xE2, 0x80, 0x85], [0xE2, 0x80, 0x86], [0xE2, 0x80, 0x87],
      [0xE2, 0x80, 0x88], [0xE2, 0x80, 0x89], [0xE2, 0x80, 0x8A], [0xE2, 0x80, 0xA8],
      [0xE2, 0x80, 0xA9], [0xE2, 0x80, 0xAF], [0xE2, 0x81, 0x9F], [0xE3, 0x80, 0x80]]"

lemma is_whitespace_bytes: "is_whitespace ch \<longleftrightarrow> map byte ch \<in> set whitespace_bytes"
proof -
  have list: "whitespace = map (map char_of) whitespace_bytes"
    by (simp only: whitespace_def whitespace_bytes_def list.map append.simps)
  have small: "\<forall>ns \<in> set whitespace_bytes. \<forall>n \<in> set ns. n < 256" by (simp add: whitespace_bytes_def)
  have there: "map byte (map char_of ns) = ns" if "ns \<in> set whitespace_bytes" for ns
  proof -
    have "map byte (map char_of ns) = map (\<lambda>n. n) ns"
      unfolding map_map by (rule map_cong) (use small that in \<open>auto simp: byte_def\<close>)
    then show ?thesis by simp
  qed
  have back_again: "map char_of (map byte ch) = ch" by (induction ch) (simp_all add: byte_def)
  have "is_whitespace ch \<longleftrightarrow> ch \<in> map char_of ` set whitespace_bytes"
    by (simp add: is_whitespace_def list)
  also have "\<dots> \<longleftrightarrow> map byte ch \<in> set whitespace_bytes"
  proof
    assume "ch \<in> map char_of ` set whitespace_bytes"
    then obtain ns where "ch = map char_of ns" "ns \<in> set whitespace_bytes" by (rule imageE)
    then show "map byte ch \<in> set whitespace_bytes" using there by simp
  next
    assume "map byte ch \<in> set whitespace_bytes"
    then show "ch \<in> map char_of ` set whitespace_bytes"
      by (rule image_eqI [rotated]) (rule back_again [symmetric])
  qed
  finally show ?thesis .
qed

lemmas whitespace_eval = is_whitespace_bytes whitespace_bytes_def byte_def

text \<open>Texts that begin and end with a visible ASCII character are their own trimming.\<close>

definition visible :: "char \<Rightarrow> bool" where
  "visible c \<longleftrightarrow> 33 \<le> byte c \<and> byte c < 128"

lemma whitespace_head: "is_whitespace (c # cs) \<Longrightarrow> \<not> visible c"
  by (auto simp: is_whitespace_def whitespace_def visible_def byte_def)

lemma chars_snoc: "\<not> is_cont c \<Longrightarrow> chars (s @ [c]) = chars s @ [[c]]"
proof (induction s rule: chars.induct)
  case (2 a s)
  have "takeWhile is_cont (s @ [c]) = takeWhile is_cont s" using "2.prems" by (induction s) auto
  moreover have "dropWhile is_cont (s @ [c]) = dropWhile is_cont s @ [c]" using "2.prems" by (induction s) auto
  ultimately show ?case using 2 by simp
qed simp

lemma trim_visible: "s \<noteq> [] \<Longrightarrow> visible (hd s) \<Longrightarrow> visible (last s) \<Longrightarrow> trim s = s"
proof -
  assume s: "s \<noteq> []" "visible (hd s)" "visible (last s)"
  then obtain t c where t: "s = t @ [c]" and c: "visible c" by (cases s rule: rev_cases) auto
  then have "\<not> is_cont c" by (simp add: visible_def is_cont_def)
  then have snoc: "chars s = chars t @ [[c]]" using t chars_snoc by simp
  obtain a u where "s = a # u" using s by (cases s) auto
  then have "dropWhile is_whitespace (chars s) = chars s" using s(2) whitespace_head by auto
  then show ?thesis
    unfolding trim_def using whitespace_head c by (auto simp: snoc [unfolded t] t)
qed

lemmas trim_eval = trim_visible visible_def byte_def

text \<open>Decimal printing of an unsigned integer (\<open>Display\<close>), and parsing (\<open>str::parse\<close>).\<close>

definition digit_char :: "nat \<Rightarrow> char" where
  "digit_char d = char_of (48 + d)"

function show_nat :: "nat \<Rightarrow> string" where
  "show_nat n = (if n < 10 then [digit_char n] else show_nat (n div 10) @ [digit_char (n mod 10)])"
  by pat_completeness auto
termination
  by (relation "measure id") auto

declare show_nat.simps [simp del]

definition digits_value :: "string \<Rightarrow> nat" where
  "digits_value s = foldl (\<lambda>v c. 10 * v + (byte c - 48)) 0 s"

text \<open>\<open>str::parse::<u64>\<close>: an optional \<open>+\<close>, then digits, none of it empty, no overflow.\<close>

definition parse_u64 :: "string \<Rightarrow> nat option" where
  "parse_u64 s =
     (let ds = (case s of c # cs \<Rightarrow> if c = CHR ''+'' then cs else s | [] \<Rightarrow> s)
      in if ds \<noteq> [] \<and> list_all is_ascii_digit ds \<and> digits_value ds \<le> u64_max
         then Some (digits_value ds) else None)"

lemma byte_char_of [simp]: "n < 256 \<Longrightarrow> byte (char_of n) = n"
  by (simp add: byte_def)

lemma byte_digit_char [simp]: "d < 10 \<Longrightarrow> byte (digit_char d) = 48 + d"
  by (simp add: digit_char_def)

lemma digits_value_snoc: "digits_value (s @ [c]) = 10 * digits_value s + (byte c - 48)"
  by (simp add: digits_value_def)

lemma is_ascii_digit_char [simp]: "d < 10 \<Longrightarrow> is_ascii_digit (digit_char d)"
  by (simp add: is_ascii_digit_def)

lemma show_nat_digits: "list_all is_ascii_digit (show_nat n)"
proof (induction n rule: show_nat.induct)
  case (1 n)
  then show ?case
    by (subst show_nat.simps) auto
qed

lemma show_nat_nonempty [simp]: "show_nat n \<noteq> []"
  by (subst show_nat.simps) simp

lemma digits_value_show_nat [simp]: "digits_value (show_nat n) = n"
proof (induction n rule: show_nat.induct)
  case (1 n)
  show ?case
  proof (cases "n < 10")
    case True
    then show ?thesis by (subst show_nat.simps) (simp add: digits_value_def)
  next
    case False
    with "1.IH" show ?thesis by (subst show_nat.simps) (simp add: digits_value_snoc)
  qed
qed

lemma parse_show_nat: "n \<le> u64_max \<Longrightarrow> parse_u64 (show_nat n) = Some n"
proof -
  assume n: "n \<le> u64_max"
  obtain c cs where s: "show_nat n = c # cs" by (cases "show_nat n") auto
  then have "is_ascii_digit c" using show_nat_digits [of n] by simp
  then have "c \<noteq> CHR ''+''" by (auto simp: is_ascii_digit_def byte_def)
  then show ?thesis
    using n show_nat_digits [of n] digits_value_show_nat [of n] s by (simp add: parse_u64_def)
qed

section \<open>Lists and tables\<close>

lemma sort_key_sorted [table_simps]: "sorted (map f xs) \<Longrightarrow> sort_key f xs = xs"
  by (induction xs) (auto simp: insort_is_Cons)

lemma those_map_Some [simp]: "those (map (\<lambda>x. Some (f x)) xs) = Some (map f xs)"
  by (induction xs) simp_all

lemma those_map:
  "(\<And>x. x \<in> set xs \<Longrightarrow> f x = Some (g x)) \<Longrightarrow> those (map f xs) = Some (map g xs)"
  by (induction xs) simp_all

lemma length_filter_mono:
  "(\<And>x. x \<in> set xs \<Longrightarrow> P x \<Longrightarrow> Q x) \<Longrightarrow> length (filter P xs) \<le> length (filter Q xs)"
  by (induction xs) (simp_all add: le_SucI)

end
