(* ===== verification/Interfaces.thy ===== *)
theory Interfaces
  imports Base
begin

text \<open>
  The contracts several components implement, as locales. The component that provides the
  operations interprets the locale on its own definitions; the facts proved here once are then
  available there.
\<close>

section \<open>Codecs of persisted enumerations\<close>

text \<open>
  \<open>as_str\<close>/\<open>as_db\<close> with a decoder that fails on unknown text (\<open>strict_codec\<close>), or that falls
  back to a fixed variant (\<open>lenient_codec\<close>): only the canonical spelling of a variant other than
  the fallback decodes to it.
\<close>

locale strict_codec =
  fixes enc :: "'a \<Rightarrow> string" and dec :: "string \<Rightarrow> 'a option"
  assumes dec_enc: "dec (enc x) = Some x"
    and dec_canonical: "dec s = Some x \<Longrightarrow> s = enc x"
begin

lemma enc_inject: "enc x = enc y \<longleftrightarrow> x = y"
  by (metis dec_enc option.inject)

lemma dec_iff: "dec s = Some x \<longleftrightarrow> s = enc x"
  using dec_enc dec_canonical by auto

lemma dec_None: "dec s = None \<longleftrightarrow> s \<notin> range enc"
  by (metis dec_iff not_None_eq rangeE rangeI)

end

locale lenient_codec =
  fixes enc :: "'a \<Rightarrow> string" and dec :: "string \<Rightarrow> 'a" and fallback :: 'a
  assumes dec_enc: "dec (enc x) = x"
    and dec_known: "dec s \<noteq> fallback \<Longrightarrow> s = enc (dec s)"
begin

lemma enc_inject: "enc x = enc y \<longleftrightarrow> x = y"
  by (metis dec_enc)

lemma dec_iff: "x \<noteq> fallback \<Longrightarrow> dec s = x \<longleftrightarrow> s = enc x"
  using dec_enc dec_known by blast

lemma dec_unknown: "s \<notin> range enc \<Longrightarrow> dec s = fallback"
  using dec_known by blast

end

section \<open>Cleaning functions\<close>

text \<open>
  Functions that bring a value into a bounded or closed form (\<open>normaliser\<close>), or refuse it
  (\<open>partial_normaliser\<close>). Their results are their fixed points, so cleaning twice, on the way out
  and again on the way in, is cleaning once.
\<close>

locale normaliser =
  fixes clean :: "'a \<Rightarrow> 'a"
  assumes clean_clean: "clean (clean x) = clean x"
begin

lemma clean_fixed: "x \<in> range clean \<longleftrightarrow> clean x = x"
  by (metis clean_clean rangeE rangeI)

end

locale partial_normaliser =
  fixes check :: "'a \<Rightarrow> 'a option"
  assumes check_again: "check x = Some y \<Longrightarrow> check y = Some y"
begin

lemma check_check: "Option.bind (check x) check = check x"
  by (cases "check x") (simp_all add: check_again)

end

section \<open>Machines with an invariant\<close>

text \<open>
  A component with state is a set of initial states and a step relation. \<open>reachable\<close> is what
  any sequence of steps can produce; an invariant established initially and kept by each step
  holds in every reachable state.
\<close>

inductive reachable :: "('s \<Rightarrow> bool) \<Rightarrow> ('s \<Rightarrow> 's \<Rightarrow> bool) \<Rightarrow> 's \<Rightarrow> bool"
  for init :: "'s \<Rightarrow> bool" and step :: "'s \<Rightarrow> 's \<Rightarrow> bool" where
  start: "init s \<Longrightarrow> reachable init step s"
| step: "reachable init step s \<Longrightarrow> step s t \<Longrightarrow> reachable init step t"

locale machine =
  fixes init :: "'s \<Rightarrow> bool" and step :: "'s \<Rightarrow> 's \<Rightarrow> bool" and inv :: "'s \<Rightarrow> bool"
  assumes init_inv: "init s \<Longrightarrow> inv s"
    and step_inv: "inv s \<Longrightarrow> step s t \<Longrightarrow> inv t"
begin

lemma reachable_inv: "reachable init step s \<Longrightarrow> inv s"
  by (induction rule: reachable.induct) (auto intro: init_inv step_inv)

lemma reachable_rtrancl: "reachable init step s \<Longrightarrow> step\<^sup>*\<^sup>* s t \<Longrightarrow> reachable init step t"
  by (rotate_tac, induction rule: rtranclp_induct) (auto intro: reachable.step)

lemma rtrancl_inv: "inv s \<Longrightarrow> step\<^sup>*\<^sup>* s t \<Longrightarrow> inv t"
  by (rotate_tac, induction rule: rtranclp_induct) (auto intro: step_inv)

end

text \<open>
  A machine with an observation that its steps never change once it is final: the observation
  is absorbing along every run, and so is decided at most once.
\<close>

locale absorbing = machine init step inv
  for init :: "'s \<Rightarrow> bool" and step :: "'s \<Rightarrow> 's \<Rightarrow> bool" and inv :: "'s \<Rightarrow> bool" +
  fixes observe :: "'s \<Rightarrow> 'o" and final :: "'o \<Rightarrow> bool"
  assumes step_final: "inv s \<Longrightarrow> step s t \<Longrightarrow> final (observe s) \<Longrightarrow> observe t = observe s"
begin

lemma run_final: "step\<^sup>*\<^sup>* s t \<Longrightarrow> inv s \<Longrightarrow> final (observe s) \<Longrightarrow> observe t = observe s"
proof (induction rule: rtranclp_induct)
  case (step t u)
  then have "inv t" by (blast intro: rtrancl_inv)
  with step show ?case by (metis step_final)
qed simp

lemma reachable_final:
  "reachable init step s \<Longrightarrow> final (observe s) \<Longrightarrow> step\<^sup>*\<^sup>* s t \<Longrightarrow> observe t = observe s"
  by (metis reachable_inv run_final)

end

end
