(* ===== verification/Domain.thy ===== *)
theory Domain
  imports Interfaces
begin

text \<open>
  The enumerations of \<open>crates/core/src/domain.rs\<close> that are persisted as text, with the
  conversions \<open>as_str\<close>/\<open>as_db\<close> and \<open>from_db\<close>, and the approval reply. Each pair of
  conversions interprets a codec of \<open>Interfaces\<close>.
\<close>

section \<open>Permission mode, session status and kind\<close>

datatype perm_mode = Default | AcceptEdits | BypassPermissions | Plan

fun perm_mode_as_str :: "perm_mode \<Rightarrow> string" where
  "perm_mode_as_str Default = ''default''"
| "perm_mode_as_str AcceptEdits = ''acceptEdits''"
| "perm_mode_as_str BypassPermissions = ''bypassPermissions''"
| "perm_mode_as_str Plan = ''plan''"

definition perm_mode_from_db :: "string \<Rightarrow> perm_mode" where
  "perm_mode_from_db s =
     (if s = ''acceptEdits'' then AcceptEdits
      else if s = ''bypassPermissions'' then BypassPermissions
      else if s = ''plan'' then Plan else Default)"

datatype session_status = Idle | Running | Interrupted | Ended

fun session_status_as_str :: "session_status \<Rightarrow> string" where
  "session_status_as_str Idle = ''idle''"
| "session_status_as_str Running = ''running''"
| "session_status_as_str Interrupted = ''interrupted''"
| "session_status_as_str Ended = ''ended''"

definition session_status_from_db :: "string \<Rightarrow> session_status" where
  "session_status_from_db s =
     (if s = ''running'' then Running
      else if s = ''interrupted'' then Interrupted
      else if s = ''ended'' then Ended else Idle)"

datatype session_kind = KProject | KChat | KWorker | KReview

fun session_kind_as_str :: "session_kind \<Rightarrow> string" where
  "session_kind_as_str KProject = ''project''"
| "session_kind_as_str KChat = ''chat''"
| "session_kind_as_str KWorker = ''worker''"
| "session_kind_as_str KReview = ''review''"

definition session_kind_from_db :: "string \<Rightarrow> session_kind" where
  "session_kind_from_db s =
     (if s = ''chat'' then KChat
      else if s = ''worker'' then KWorker
      else if s = ''review'' then KReview else KProject)"

datatype background_kind = BkDelegation | BkLearning | BkJob

fun background_kind_as_str :: "background_kind \<Rightarrow> string" where
  "background_kind_as_str BkDelegation = ''delegation''"
| "background_kind_as_str BkLearning = ''learning''"
| "background_kind_as_str BkJob = ''job''"

definition background_kind_from_db :: "string \<Rightarrow> background_kind" where
  "background_kind_from_db s =
     (if s = ''learning'' then BkLearning else if s = ''job'' then BkJob else BkDelegation)"

section \<open>Write origin\<close>

datatype write_origin = OUser | OAgent | OBackgroundReview

definition is_autonomous :: "write_origin \<Rightarrow> bool" where
  "is_autonomous w \<longleftrightarrow> w \<noteq> OUser"

definition is_user :: "write_origin \<Rightarrow> bool" where
  "is_user w \<longleftrightarrow> w = OUser"

fun write_origin_as_str :: "write_origin \<Rightarrow> string" where
  "write_origin_as_str OUser = ''user''"
| "write_origin_as_str OAgent = ''agent''"
| "write_origin_as_str OBackgroundReview = ''background_review''"

definition write_origin_from_db :: "string \<Rightarrow> write_origin" where
  "write_origin_from_db s =
     (if s = ''user'' then OUser
      else if s = ''background_review'' then OBackgroundReview else OAgent)"

section \<open>Agent runs\<close>

datatype agent_run_kind = Primary | MainDelegate | Subagent

fun agent_run_kind_as_db :: "agent_run_kind \<Rightarrow> string" where
  "agent_run_kind_as_db Primary = ''primary''"
| "agent_run_kind_as_db MainDelegate = ''main-delegate''"
| "agent_run_kind_as_db Subagent = ''subagent''"

definition agent_run_kind_from_db :: "string \<Rightarrow> agent_run_kind option" where
  "agent_run_kind_from_db s =
     (if s = ''primary'' then Some Primary
      else if s = ''main-delegate'' then Some MainDelegate
      else if s = ''subagent'' then Some Subagent else None)"

datatype agent_run_status = RQueued | RRunning | RCompleted | RFailed | RCancelled | RInterrupted

fun agent_run_status_as_db :: "agent_run_status \<Rightarrow> string" where
  "agent_run_status_as_db RQueued = ''queued''"
| "agent_run_status_as_db RRunning = ''running''"
| "agent_run_status_as_db RCompleted = ''completed''"
| "agent_run_status_as_db RFailed = ''failed''"
| "agent_run_status_as_db RCancelled = ''cancelled''"
| "agent_run_status_as_db RInterrupted = ''interrupted''"

definition agent_run_status_from_db :: "string \<Rightarrow> agent_run_status option" where
  "agent_run_status_from_db s =
     (if s = ''queued'' then Some RQueued
      else if s = ''running'' then Some RRunning
      else if s = ''completed'' then Some RCompleted
      else if s = ''failed'' then Some RFailed
      else if s = ''cancelled'' then Some RCancelled
      else if s = ''interrupted'' then Some RInterrupted else None)"

definition is_active :: "agent_run_status \<Rightarrow> bool" where
  "is_active st \<longleftrightarrow> st = RQueued \<or> st = RRunning"

definition is_terminal :: "agent_run_status \<Rightarrow> bool" where
  "is_terminal st \<longleftrightarrow> \<not> is_active st"

section \<open>Approvals\<close>

datatype approval_decision = AllowOnce | AllowAlways | RejectOnce | RejectAlways | Cancel

datatype approval_kind = AkTool | AkPlan | AkQuestion

datatype approval_scope = ScopeSession | ScopeProject

record 'p approval_response =
  decision :: approval_decision
  scope :: "approval_scope option"
  payload :: "'p option"

definition once :: "bool \<Rightarrow> 'p approval_response" where
  "once allow =
     \<lparr>decision = (if allow then AllowOnce else RejectOnce), scope = None, payload = None\<rparr>"

definition allowed :: "'p approval_response \<Rightarrow> bool" where
  "allowed r \<longleftrightarrow> decision r = AllowOnce \<or> decision r = AllowAlways"

text \<open>The kind of a pending approval, as \<open>approval.rs\<close> stores it.\<close>

fun kind_to_db :: "approval_kind \<Rightarrow> string" where
  "kind_to_db AkTool = ''tool''"
| "kind_to_db AkPlan = ''plan''"
| "kind_to_db AkQuestion = ''question''"

definition kind_from_db :: "string \<Rightarrow> approval_kind" where
  "kind_from_db s =
     (if s = ''plan'' then AkPlan else if s = ''question'' then AkQuestion else AkTool)"

lemma allowed_once [simp]: "allowed (once b) = b"
  by (simp add: allowed_def once_def)

section \<open>The codecs\<close>

interpretation perm_mode: lenient_codec perm_mode_as_str perm_mode_from_db Default
proof
  show "perm_mode_from_db (perm_mode_as_str x) = x" for x
    by (cases x) (simp_all add: perm_mode_from_db_def)
qed (simp add: perm_mode_from_db_def split: if_splits)

interpretation session_status: lenient_codec session_status_as_str session_status_from_db Idle
proof
  show "session_status_from_db (session_status_as_str x) = x" for x
    by (cases x) (simp_all add: session_status_from_db_def)
qed (simp add: session_status_from_db_def split: if_splits)

interpretation session_kind: lenient_codec session_kind_as_str session_kind_from_db KProject
proof
  show "session_kind_from_db (session_kind_as_str x) = x" for x
    by (cases x) (simp_all add: session_kind_from_db_def)
qed (simp add: session_kind_from_db_def split: if_splits)

interpretation background_kind:
  lenient_codec background_kind_as_str background_kind_from_db BkDelegation
proof
  show "background_kind_from_db (background_kind_as_str x) = x" for x
    by (cases x) (simp_all add: background_kind_from_db_def)
qed (simp add: background_kind_from_db_def split: if_splits)

interpretation write_origin: lenient_codec write_origin_as_str write_origin_from_db OAgent
proof
  show "write_origin_from_db (write_origin_as_str x) = x" for x
    by (cases x) (simp_all add: write_origin_from_db_def)
qed (simp add: write_origin_from_db_def split: if_splits)

interpretation approval_kind: lenient_codec kind_to_db kind_from_db AkTool
proof
  show "kind_from_db (kind_to_db x) = x" for x
    by (cases x) (simp_all add: kind_from_db_def)
qed (simp add: kind_from_db_def split: if_splits)

interpretation run_kind: strict_codec agent_run_kind_as_db agent_run_kind_from_db
proof
  show "agent_run_kind_from_db (agent_run_kind_as_db x) = Some x" for x
    by (cases x) (simp_all add: agent_run_kind_from_db_def)
qed (auto simp: agent_run_kind_from_db_def split: if_splits)

interpretation run_status: strict_codec agent_run_status_as_db agent_run_status_from_db
proof
  show "agent_run_status_from_db (agent_run_status_as_db x) = Some x" for x
    by (cases x) (simp_all add: agent_run_status_from_db_def)
qed (auto simp: agent_run_status_from_db_def split: if_splits)

section \<open>Properties\<close>

text \<open>Decoding a persisted write origin fails closed: whatever text the row holds, the decoded
  origin is privileged (\<open>is_user\<close>) exactly when the text is the canonical \<open>user\<close>; every
  text that names no origin decodes to the least privileged one.\<close>

theorem write_origin_fails_closed:
  "(is_user (write_origin_from_db s) \<longleftrightarrow> s = write_origin_as_str OUser)
   \<and> (s \<notin> range write_origin_as_str \<longrightarrow> write_origin_from_db s = OAgent)"
  using write_origin.dec_iff [of OUser s] write_origin.dec_unknown [of s]
  by (simp add: is_user_def)

theorem write_origin_fails_closed_witness:
  "''admin'' \<notin> range write_origin_as_str \<and> write_origin_from_db ''admin'' = OAgent"
proof -
  have h: "''admin'' \<notin> range write_origin_as_str"
  proof
    assume "''admin'' \<in> range write_origin_as_str"
    then obtain x where "''admin'' = write_origin_as_str x" by blast
    then show False by (cases x) simp_all
  qed
  show ?thesis using h write_origin_fails_closed [of "''admin''"] by blast
qed

end
