(* ===== verification/Json.thy ===== *)
theory Json
  imports Base
begin

text \<open>
  The values the code passes around as \<open>serde_json::Value\<close>. The constructors are those of the
  library's public enum; an object is the list of its entries in ascending key order, the
  order of the library's default map. A number is an integer or a float, a float being kept as
  its text. The accessors are the documented ones: indexing with a missing key or index gives
  \<open>Null\<close>, \<open>get\<close> gives \<open>None\<close>, and \<open>as_*\<close> give \<open>None\<close> on another constructor. Printing and
  parsing are not defined here: a definition that serialises takes the printer as an argument.
\<close>

datatype json =
    JNull
  | JBool bool
  | JInt int
  | JFloat string
  | JStr string
  | JArr "json list"
  | JObj "(string \<times> json) list"

fun jget :: "string \<Rightarrow> json \<Rightarrow> json option" where
  "jget k (JObj kvs) = map_of kvs k"
| "jget k _ = None"

definition jidx :: "json \<Rightarrow> string \<Rightarrow> json" where
  "jidx v k = (case jget k v of Some x \<Rightarrow> x | None \<Rightarrow> JNull)"

fun jnth :: "json \<Rightarrow> nat \<Rightarrow> json" where
  "jnth (JArr vs) i = (if i < length vs then vs ! i else JNull)"
| "jnth _ i = JNull"

fun as_str :: "json \<Rightarrow> string option" where
  "as_str (JStr s) = Some s"
| "as_str _ = None"

fun as_bool :: "json \<Rightarrow> bool option" where
  "as_bool (JBool b) = Some b"
| "as_bool _ = None"

fun as_u64 :: "json \<Rightarrow> nat option" where
  "as_u64 (JInt i) = (if 0 \<le> i \<and> nat i \<le> u64_max then Some (nat i) else None)"
| "as_u64 _ = None"

fun as_array :: "json \<Rightarrow> json list option" where
  "as_array (JArr vs) = Some vs"
| "as_array _ = None"

definition get_str :: "string \<Rightarrow> json \<Rightarrow> string option" where
  "get_str k v = Option.bind (jget k v) as_str"

text \<open>Inserting into the ordered map of an object (\<open>v[k] = x\<close> on an object).\<close>

fun insert_key :: "string \<Rightarrow> json \<Rightarrow> (string \<times> json) list \<Rightarrow> (string \<times> json) list" where
  "insert_key k x [] = [(k, x)]"
| "insert_key k x ((k', y) # kvs) =
     (if k < k' then (k, x) # (k', y) # kvs
      else if k = k' then (k, x) # kvs
      else (k', y) # insert_key k x kvs)"

fun jset :: "string \<Rightarrow> json \<Rightarrow> json \<Rightarrow> json" where
  "jset k x (JObj kvs) = JObj (insert_key k x kvs)"
| "jset k x v = v"

lemma map_of_insert_key [simp]: "map_of (insert_key k x kvs) = (map_of kvs)(k \<mapsto> x)"
  by (induction k x kvs rule: insert_key.induct) (auto simp: fun_eq_iff)

lemma jget_jset [simp]: "jget k (jset k x (JObj kvs)) = Some x"
  by simp

lemma jidx_jset [simp]:
  "jidx (jset k x (JObj kvs)) k' = (if k' = k then x else jidx (JObj kvs) k')"
  by (simp add: jidx_def)

lemma jidx_simps [simp]:
  "jidx JNull k = JNull" "jidx (JBool b) k = JNull" "jidx (JInt i) k = JNull"
  "jidx (JFloat f) k = JNull" "jidx (JStr s) k = JNull" "jidx (JArr vs) k = JNull"
  "jidx (JObj kvs) k = (case map_of kvs k of Some x \<Rightarrow> x | None \<Rightarrow> JNull)"
  by (simp_all add: jidx_def)

lemma jset_keeps_object: "jset k x (JObj kvs) = JObj (insert_key k x kvs)"
  by simp

lemma as_array_Some [simp]: "as_array v = Some vs \<longleftrightarrow> v = JArr vs"
  by (cases v) auto

lemma as_str_Some [simp]: "as_str v = Some s \<longleftrightarrow> v = JStr s"
  by (cases v) auto

lemma insert_key_sorted:
  "sorted_wrt (<) (map fst kvs) \<Longrightarrow> sorted_wrt (<) (map fst (insert_key k x kvs))"
proof (induction k x kvs rule: insert_key.induct)
  case (2 k x k' y kvs)
  have keys: "set (map fst (insert_key k x kvs)) = insert k (set (map fst kvs))"
    by (induction k x kvs rule: insert_key.induct) auto
  with 2 show ?case by (auto simp: not_less_iff_gr_or_eq dest: less_trans)
qed simp

end
