(* ===== verification/Policy.thy ===== *)
theory Policy
  imports Domain Json
begin

text \<open>
  \<open>crates/core/src/policy.rs\<close>: the decision whether a tool call is auto-allowed, denied or
  prompted for, from the permission mode and the project's stored rule; the role checks of
  approvals and administration; and the summary line of a tool call.
\<close>

section \<open>Tool policy\<close>

definition SAFE_TOOLS :: "string list" where
  "SAFE_TOOLS =
     [''Read'', ''Grep'', ''Glob'', ''LS'', ''NotebookRead'', ''TodoWrite'', ''ExitPlanMode'',
      ''AskUserQuestion'', ''jobs.read'', ''projects.read'']"

definition EDIT_TOOLS :: "string list" where
  "EDIT_TOOLS = [''Edit'', ''Write'', ''MultiEdit'', ''NotebookEdit'']"

definition is_safe_tool :: "string \<Rightarrow> bool" where
  "is_safe_tool tool \<longleftrightarrow> List.member SAFE_TOOLS tool"

definition resolve_tool_policy :: "perm_mode \<Rightarrow> string \<Rightarrow> bool" where
  "resolve_tool_policy perm tool =
     (if perm = BypassPermissions then True
      else if List.member SAFE_TOOLS tool then True
      else if perm = AcceptEdits \<and> List.member EDIT_TOOLS tool then True
      else False)"

datatype policy_outcome = AutoAllow | Prompt | DenyOutcome

definition decide_tool_permission :: "perm_mode \<Rightarrow> string option \<Rightarrow> string \<Rightarrow> policy_outcome" where
  "decide_tool_permission perm_mode project_policy tool =
     (if perm_mode = Plan \<and> \<not> List.member SAFE_TOOLS tool then DenyOutcome
      else if project_policy = Some ''rejectAlways'' then DenyOutcome
      else if project_policy = Some ''allowAlways'' then AutoAllow
      else if resolve_tool_policy perm_mode tool then AutoAllow
      else Prompt)"

section \<open>Summaries and roles\<close>

definition tool_summary :: "string \<Rightarrow> json \<Rightarrow> string" where
  "tool_summary name input =
     (case (if name = ''Bash'' then get_str ''command'' input else None) of
        Some cmd \<Rightarrow> ''Bash: '' @ take_chars 80 cmd
      | None \<Rightarrow>
          (case find (\<lambda>key. get_str key input \<noteq> None) [''file_path'', ''path'', ''pattern''] of
             Some key \<Rightarrow>
               (case get_str key input of Some t \<Rightarrow> name @ '': '' @ t | None \<Rightarrow> name)
           | None \<Rightarrow> name))"

definition summarize_tool :: "string \<Rightarrow> json \<Rightarrow> string" where
  "summarize_tool tool_name input = tool_summary tool_name input"

definition can_approve :: "string list \<Rightarrow> string list \<Rightarrow> bool \<Rightarrow> bool" where
  "can_approve clicker_role_ids approver_role_ids is_starter =
     (if is_starter then True
      else if approver_role_ids = [] then False
      else list_ex (\<lambda>r. List.member approver_role_ids r) clicker_role_ids)"

definition is_admin :: "string list \<Rightarrow> string list \<Rightarrow> bool" where
  "is_admin user_role_ids admin_role_ids =
     (if admin_role_ids = [] then True
      else list_ex (\<lambda>r. List.member admin_role_ids r) user_role_ids)"

definition gate_perm_mode :: "perm_mode \<Rightarrow> bool \<Rightarrow> perm_mode \<times> bool" where
  "gate_perm_mode requested is_admin_user =
     (if \<not> is_admin_user \<and> requested = BypassPermissions then (Default, True)
      else (requested, False))"

text \<open>\<open>settings::csv\<close>, which \<open>parse_role_ids\<close> delegates to.\<close>

definition csv :: "string option \<Rightarrow> string list" where
  "csv s = filter (\<lambda>x. x \<noteq> []) (map trim (split_char CHR '','' (case s of Some x \<Rightarrow> x | None \<Rightarrow> [])))"

definition parse_role_ids :: "string option \<Rightarrow> string list" where
  "parse_role_ids raw = csv raw"

section \<open>Lemmas\<close>

lemma decide_plan [simp]:
  "\<not> is_safe_tool tool \<Longrightarrow> decide_tool_permission Plan p tool = DenyOutcome"
  by (simp add: decide_tool_permission_def is_safe_tool_def)

lemma resolve_safe: "is_safe_tool tool \<Longrightarrow> resolve_tool_policy m tool"
  by (simp add: resolve_tool_policy_def is_safe_tool_def)

lemma csv_None [simp]: "csv None = []"
  by (simp add: csv_def trim_def)

lemma csv_nonempty: "x \<in> set (csv s) \<Longrightarrow> x \<noteq> []"
  by (simp add: csv_def)

lemma can_approve_iff:
  "can_approve roles approvers starter \<longleftrightarrow> starter \<or> set roles \<inter> set approvers \<noteq> {}"
  by (auto simp: can_approve_def list_ex_iff)

lemma is_admin_iff: "is_admin roles admins \<longleftrightarrow> admins = [] \<or> set roles \<inter> set admins \<noteq> {}"
  by (auto simp: is_admin_def list_ex_iff)

section \<open>Properties\<close>

text \<open>The policy decision is exactly the documented precedence: Plan mode denies every tool that
  is not read-only, whatever the project has stored; otherwise a stored \<open>rejectAlways\<close>
  denies, even a safe tool and even under BypassPermissions; a stored \<open>allowAlways\<close> allows;
  with any other stored value, bypass mode, safe tools and (under AcceptEdits) edit tools are
  allowed, and nothing else is decided without a prompt.\<close>

theorem decide_tool_permission_spec:
  "(decide_tool_permission m p tool = DenyOutcome \<longleftrightarrow>
      (m = Plan \<and> tool \<notin> set SAFE_TOOLS) \<or> p = Some ''rejectAlways'')
   \<and> (decide_tool_permission m p tool = AutoAllow \<longleftrightarrow>
      \<not> (m = Plan \<and> tool \<notin> set SAFE_TOOLS) \<and> p \<noteq> Some ''rejectAlways''
      \<and> (p = Some ''allowAlways'' \<or> m = BypassPermissions \<or> tool \<in> set SAFE_TOOLS
         \<or> m = AcceptEdits \<and> tool \<in> set EDIT_TOOLS))"
  by (simp add: decide_tool_permission_def resolve_tool_policy_def)

text \<open>Connecting with the bypass mode needs an administrator role: the mode that
  \<open>gate_perm_mode\<close> grants on the roles parsed from the settings is \<open>bypassPermissions\<close> only
  if it was requested and no admin role is configured or the user holds one; every other mode
  is granted unchanged, and the downgrade flag is set exactly when the mode was changed.\<close>

theorem gate_perm_mode_admin:
  "(fst (gate_perm_mode m (is_admin roles (parse_role_ids raw))) = BypassPermissions \<longleftrightarrow>
      m = BypassPermissions
      \<and> (parse_role_ids raw = [] \<or> (\<exists>r. r \<in> set roles \<and> r \<in> set (parse_role_ids raw))))
   \<and> (snd (gate_perm_mode m (is_admin roles (parse_role_ids raw))) \<longleftrightarrow>
      fst (gate_perm_mode m (is_admin roles (parse_role_ids raw))) \<noteq> m)"
  by (auto simp: gate_perm_mode_def is_admin_iff)

end
