(* ===== verification/Approval.thy ===== *)
theory Approval
  imports Domain Json
begin

text \<open>
  \<open>crates/core/src/approval.rs\<close>: the registry of parked approvals and the table that makes
  them survive a reconnect.

  The hub's hash map is the list of its entries, with distinct keys, in the (arbitrary) order
  iteration would give. Each registration opens a one-shot channel; a channel is \<open>Waiting\<close>
  until its sender sends (\<open>Got\<close>) or is dropped (\<open>Dropped\<close>, the receiver's \<open>Err\<close>).
\<close>

section \<open>The approval hub\<close>

record approval_key =
  ak_run_id :: string
  ak_request_id :: string

record pending =
  p_session_pk :: "string option"
  p_tx :: nat

datatype 'p channel = Waiting | Got "'p approval_response" | Dropped

record 'p hub =
  hub_pending :: "(approval_key \<times> pending) list"
  hub_channels :: "'p channel list"

definition hub_new :: "'p hub" where
  "hub_new = \<lparr>hub_pending = [], hub_channels = []\<rparr>"

text \<open>\<open>HashMap::insert\<close> replaces an entry and drops the old value, with its sender.\<close>

definition drop_sender :: "pending option \<Rightarrow> 'p channel list \<Rightarrow> 'p channel list" where
  "drop_sender old chs = (case old of None \<Rightarrow> chs | Some p \<Rightarrow> chs[p_tx p := Dropped])"

definition register_inner :: "string option \<Rightarrow> approval_key \<Rightarrow> 'p hub \<Rightarrow> 'p hub \<times> nat" where
  "register_inner session_pk key h =
     (let tx = length (hub_channels h);
          chs = drop_sender (map_of (hub_pending h) key) (hub_channels h) @ [Waiting]
      in (\<lparr>hub_pending = AList.update key \<lparr>p_session_pk = session_pk, p_tx = tx\<rparr> (hub_pending h),
           hub_channels = chs\<rparr>, tx))"

definition register :: "approval_key \<Rightarrow> 'p hub \<Rightarrow> 'p hub \<times> nat" where
  "register key h = register_inner None key h"

definition register_for_session :: "string \<Rightarrow> approval_key \<Rightarrow> 'p hub \<Rightarrow> 'p hub \<times> nat" where
  "register_for_session session_pk key h = register_inner (Some session_pk) key h"

definition send :: "nat \<Rightarrow> 'p approval_response \<Rightarrow> 'p channel list \<Rightarrow> 'p channel list" where
  "send tx r chs = chs[tx := Got r]"

definition resolve :: "approval_key \<Rightarrow> 'p approval_response \<Rightarrow> 'p hub \<Rightarrow> 'p hub \<times> bool" where
  "resolve key response h =
     (case map_of (hub_pending h) key of
        Some p \<Rightarrow>
          (\<lparr>hub_pending = AList.delete key (hub_pending h),
            hub_channels = send (p_tx p) response (hub_channels h)\<rparr>, True)
      | None \<Rightarrow> (h, False))"

definition resolve_bool :: "approval_key \<Rightarrow> bool \<Rightarrow> 'p hub \<Rightarrow> 'p hub \<times> bool" where
  "resolve_bool key allow h = resolve key (once allow) h"

fun resolve_keys :: "bool \<Rightarrow> approval_key list \<Rightarrow> 'p hub \<Rightarrow> 'p hub" where
  "resolve_keys allow [] h = h"
| "resolve_keys allow (k # ks) h = resolve_keys allow ks (fst (resolve k (once allow) h))"

definition session_keys :: "string \<Rightarrow> 'p hub \<Rightarrow> approval_key list" where
  "session_keys session_pk h =
     map fst (filter (\<lambda>(_, p). p_session_pk p = Some session_pk) (hub_pending h))"

definition resolve_session :: "string \<Rightarrow> bool \<Rightarrow> 'p hub \<Rightarrow> 'p hub \<times> nat" where
  "resolve_session session_pk allow h =
     (let keys = session_keys session_pk h in (resolve_keys allow keys h, length keys))"

definition has_pending :: "'p hub \<Rightarrow> bool" where
  "has_pending h \<longleftrightarrow> hub_pending h \<noteq> []"

section \<open>The pending table\<close>

record principal =
  plugin_id :: string
  plugin_name :: string

record pending_approval_row =
  pa_session_pk :: string
  pa_run_id :: string
  pa_request_id :: string
  pa_requesting_agent_id :: string
  pa_requesting_agent_name :: string
  pa_tool :: string
  pa_summary :: string
  pa_approval_kind :: approval_kind
  pa_input :: json
  pa_principal :: "principal option"
  pa_created_at :: int

text \<open>A stored row: the kind, the input and the principal are text.\<close>

record stored_approval =
  sa_session_pk :: string
  sa_run_id :: string
  sa_request_id :: string
  sa_requesting_agent_id :: string
  sa_requesting_agent_name :: string
  sa_tool :: string
  sa_summary :: string
  sa_kind :: string
  sa_input_json :: string
  sa_principal_json :: "string option"
  sa_created_at :: int

text \<open>
  The JSON printer and parser, and those of the principal, are arguments (\<open>codec\<close>).
\<close>

record json_codec =
  print_json :: "json \<Rightarrow> string"
  parse_json :: "string \<Rightarrow> json option"
  print_principal :: "principal \<Rightarrow> string"
  parse_principal :: "string \<Rightarrow> principal option"

definition row_key :: "stored_approval \<Rightarrow> string \<times> string" where
  "row_key r = (sa_run_id r, sa_request_id r)"

definition store_row :: "json_codec \<Rightarrow> pending_approval_row \<Rightarrow> stored_approval" where
  "store_row cd row =
     \<lparr>sa_session_pk = pa_session_pk row, sa_run_id = pa_run_id row,
      sa_request_id = pa_request_id row,
      sa_requesting_agent_id = pa_requesting_agent_id row,
      sa_requesting_agent_name = pa_requesting_agent_name row,
      sa_tool = pa_tool row, sa_summary = pa_summary row,
      sa_kind = kind_to_db (pa_approval_kind row),
      sa_input_json = print_json cd (pa_input row),
      sa_principal_json = map_option (print_principal cd) (pa_principal row),
      sa_created_at = pa_created_at row\<rparr>"

text \<open>\<open>INSERT ... ON CONFLICT(run_id,request_id) DO NOTHING\<close>.\<close>

definition persist_pending ::
    "json_codec \<Rightarrow> pending_approval_row \<Rightarrow> stored_approval list \<Rightarrow> stored_approval list" where
  "persist_pending cd row t =
     (let r = store_row cd row
      in if row_key r \<in> set (map row_key t) then t else t @ [r])"

definition delete_pending :: "string \<Rightarrow> string \<Rightarrow> stored_approval list \<Rightarrow> stored_approval list" where
  "delete_pending run_id request_id t = filter (\<lambda>r. row_key r \<noteq> (run_id, request_id)) t"

definition load_row :: "json_codec \<Rightarrow> stored_approval \<Rightarrow> pending_approval_row" where
  "load_row cd r =
     \<lparr>pa_session_pk = sa_session_pk r, pa_run_id = sa_run_id r, pa_request_id = sa_request_id r,
      pa_requesting_agent_id = sa_requesting_agent_id r,
      pa_requesting_agent_name = sa_requesting_agent_name r,
      pa_tool = sa_tool r, pa_summary = sa_summary r,
      pa_approval_kind = kind_from_db (sa_kind r),
      pa_input = (case parse_json cd (sa_input_json r) of Some v \<Rightarrow> v | None \<Rightarrow> JNull),
      pa_principal = Option.bind (sa_principal_json r) (parse_principal cd),
      pa_created_at = sa_created_at r\<rparr>"

definition list_pending :: "json_codec \<Rightarrow> stored_approval list \<Rightarrow> pending_approval_row list" where
  "list_pending cd t =
     sort_key (\<lambda>r. (pa_created_at r, pa_run_id r, pa_request_id r)) (map (load_row cd) t)"

definition clear_all_pending :: "stored_approval list \<Rightarrow> stored_approval list \<times> nat" where
  "clear_all_pending t = ([], length t)"

section \<open>Invariant of the hub\<close>

text \<open>
  Every parked approval owns a channel of its own that nobody has completed: the sender of an
  entry is in range, still waiting, and shared with no other entry.
\<close>

definition hub_ok :: "'p hub \<Rightarrow> bool" where
  "hub_ok h \<longleftrightarrow>
     distinct (map fst (hub_pending h))
     \<and> distinct (map (p_tx \<circ> snd) (hub_pending h))
     \<and> (\<forall>(k, p) \<in> set (hub_pending h).
          p_tx p < length (hub_channels h) \<and> hub_channels h ! p_tx p = Waiting)"

lemma hub_ok_new [simp]: "hub_ok hub_new"
  by (simp add: hub_ok_def hub_new_def)

lemma delete_distinct_snd:
  "distinct (map (f \<circ> snd) al) \<Longrightarrow> distinct (map (f \<circ> snd) (AList.delete k al))"
  by (simp add: AList.delete_eq distinct_map_filter)

lemma set_delete: "x \<in> set (AList.delete k al) \<longleftrightarrow> x \<in> set al \<and> fst x \<noteq> k"
  by (cases x) (auto simp: AList.delete_eq)

lemma set_update:
  "distinct (map fst al) \<Longrightarrow>
   x \<in> set (AList.update k v al) \<longleftrightarrow> x = (k, v) \<or> x \<in> set al \<and> fst x \<noteq> k"
  by (induction al) (auto simp: image_iff)

lemma tx_inject:
  assumes "distinct (map (p_tx \<circ> snd) al)" and "(k, p) \<in> set al" and "(k', p') \<in> set al"
    and "p_tx p = p_tx p'"
  shows "k = k' \<and> p = p'"
  using assms by (induction al) (auto simp: image_iff)

lemma hub_ok_resolve [inv_intros]:
  assumes "hub_ok h" shows "hub_ok (fst (resolve key r h))"
proof (cases "map_of (hub_pending h) key")
  case None
  with assms show ?thesis by (simp add: resolve_def)
next
  case (Some p)
  then have p: "(key, p) \<in> set (hub_pending h)" by (rule map_of_SomeD)
  have other: "(hub_channels h)[p_tx p := Got r] ! p_tx p' = Waiting"
    if "(k, p') \<in> set (hub_pending h)" "k \<noteq> key" for k p'
  proof -
    have "p_tx p \<noteq> p_tx p'"
      using tx_inject [OF _ p that(1)] assms that by (auto simp: hub_ok_def)
    moreover have "hub_channels h ! p_tx p' = Waiting" using assms that by (auto simp: hub_ok_def)
    ultimately show ?thesis by simp
  qed
  from assms Some show ?thesis
    by (auto simp: hub_ok_def resolve_def send_def set_delete delete_distinct_snd other
        AList.distinct_delete split: prod.splits)
qed

lemma distinct_txs_update:
  "distinct (map (f \<circ> snd) al) \<Longrightarrow> f v \<notin> (f \<circ> snd) ` set al \<Longrightarrow>
   distinct (map (f \<circ> snd) (AList.update k v al))"
proof (induction al)
  case (Cons a al)
  have "(f \<circ> snd) ` set (AList.update k v al) \<subseteq> insert (f v) ((f \<circ> snd) ` set al)"
    by (induction al) auto
  with Cons show ?case by (cases a) auto
qed simp

lemma hub_ok_register_inner [inv_intros]:
  assumes "hub_ok h" shows "hub_ok (fst (register_inner s key h))"
proof -
  let ?tx = "length (hub_channels h)"
  let ?new = "\<lparr>p_session_pk = s, p_tx = ?tx\<rparr>"
  have fresh: "p_tx ?new \<notin> (p_tx \<circ> snd) ` set (hub_pending h)"
    using assms by (auto simp: hub_ok_def)
  have dist: "distinct (map fst (hub_pending h))" using assms by (simp add: hub_ok_def)
  have other: "(hub_channels h)[p_tx p := Dropped] ! p_tx p' = Waiting"
    if "(key, p) \<in> set (hub_pending h)" "(k, p') \<in> set (hub_pending h)" "k \<noteq> key" for k p p'
  proof -
    have "p_tx p \<noteq> p_tx p'"
      using tx_inject [OF _ that(1,2)] assms that by (auto simp: hub_ok_def)
    moreover have "hub_channels h ! p_tx p' = Waiting" using assms that by (auto simp: hub_ok_def)
    ultimately show ?thesis by simp
  qed
  have "distinct (map (p_tx \<circ> snd) (AList.update key ?new (hub_pending h)))"
    using assms fresh by (intro distinct_txs_update) (simp_all add: hub_ok_def)
  then show ?thesis
    using assms
    by (auto simp: other hub_ok_def register_inner_def drop_sender_def Let_def nth_append
        set_update [OF dist] AList.distinct_update split: option.splits)
qed

lemma hub_ok_resolve_keys [inv_intros]: "hub_ok h \<Longrightarrow> hub_ok (resolve_keys b ks h)"
  by (induction ks arbitrary: h) (simp_all add: hub_ok_resolve)

lemma map_of_resolve:
  "map_of (hub_pending (fst (resolve k r h))) = (map_of (hub_pending h))(k := None)"
  by (auto simp: resolve_def AList.delete_conv' fun_eq_iff split: option.splits)

lemma map_of_resolve_keys:
  "map_of (hub_pending (resolve_keys b ks h)) k =
     (if k \<in> set ks then None else map_of (hub_pending h) k)"
  by (induction ks arbitrary: h) (auto simp: map_of_resolve)

lemma length_channels [simp]:
  "length (hub_channels h) \<le> length (hub_channels (fst (register_inner s k h)))"
  "length (hub_channels (fst (resolve k r h))) = length (hub_channels h)"
  by (auto simp: register_inner_def drop_sender_def resolve_def send_def Let_def
      split: option.splits)

section \<open>The hub as a machine\<close>

text \<open>
  What the permission gates and the surfaces can do to the hub, in any order. The channel
  number \<open>tx\<close> is what the parked task awaits: it is observed \<open>None\<close> until it exists.
\<close>

inductive hub_step :: "'p hub \<Rightarrow> 'p hub \<Rightarrow> bool" where
  do_register: "hub_step h (fst (register k h))"
| do_register_for_session: "hub_step h (fst (register_for_session s k h))"
| do_resolve: "hub_step h (fst (resolve k r h))"
| do_resolve_bool: "hub_step h (fst (resolve_bool k b h))"
| do_resolve_session: "hub_step h (fst (resolve_session s b h))"

inductive_cases hub_stepE: "hub_step h h'"

definition channel_at :: "nat \<Rightarrow> 'p hub \<Rightarrow> 'p channel option" where
  "channel_at tx h = (if tx < length (hub_channels h) then Some (hub_channels h ! tx) else None)"

definition completed :: "'p channel option \<Rightarrow> bool" where
  "completed c \<longleftrightarrow> c \<noteq> None \<and> c \<noteq> Some Waiting"

lemma channel_at_resolve:
  assumes "hub_ok h" "completed (channel_at tx h)"
  shows "channel_at tx (fst (resolve k r h)) = channel_at tx h"
  using assms
  by (auto simp: resolve_def send_def channel_at_def completed_def hub_ok_def nth_list_update
      split: option.splits if_splits dest!: map_of_SomeD)

lemma channel_at_resolve_keys:
  assumes "hub_ok h" "completed (channel_at tx h)"
  shows "channel_at tx (resolve_keys b ks h) = channel_at tx h"
  using assms
  by (induction ks arbitrary: h) (simp_all add: channel_at_resolve hub_ok_resolve)

lemma channel_at_register_inner:
  assumes "hub_ok h" "completed (channel_at tx h)"
  shows "channel_at tx (fst (register_inner s k h)) = channel_at tx h"
  using assms
  by (auto simp: register_inner_def drop_sender_def Let_def channel_at_def completed_def
      hub_ok_def nth_list_update nth_append split: option.splits if_splits dest!: map_of_SomeD)

interpretation approval_hub: absorbing "\<lambda>h. h = hub_new" hub_step hub_ok "channel_at tx" completed
  for tx :: nat
proof
  fix h h' :: "'p hub"
  show "hub_ok h" if "h = hub_new" using that by simp
  show "hub_ok h'" if "hub_ok h" "hub_step h h'"
    using that(2,1)
    by (cases rule: hub_stepE)
      (auto simp: register_def register_for_session_def resolve_bool_def resolve_session_def
        Let_def intro: inv_intros)
  show "channel_at tx h' = channel_at tx h"
    if "hub_ok h" "hub_step h h'" "completed (channel_at tx h)"
    using that(2,1,3)
    by (cases rule: hub_stepE)
      (auto simp: register_def register_for_session_def resolve_bool_def resolve_session_def
        Let_def channel_at_resolve channel_at_resolve_keys channel_at_register_inner)
qed

lemma set_session_keys:
  "distinct (map fst (hub_pending h)) \<Longrightarrow>
   k \<in> set (session_keys s h) \<longleftrightarrow>
   (\<exists>p. map_of (hub_pending h) k = Some p \<and> p_session_pk p = Some s)"
  by (force simp: session_keys_def image_iff)

lemma resolve_keys_answers:
  assumes "hub_ok h" "k \<in> set ks" "map_of (hub_pending h) k = Some p"
  shows "channel_at (p_tx p) (resolve_keys b ks h) = Some (Got (once b))"
  using assms
proof (induction ks arbitrary: h)
  case (Cons k' ks)
  have tx: "p_tx p < length (hub_channels h)"
    using Cons.prems by (auto simp: hub_ok_def dest!: map_of_SomeD)
  show ?case
  proof (cases "k' = k")
    case True
    then have "channel_at (p_tx p) (fst (resolve k' (once b) h)) = Some (Got (once b))"
      using Cons.prems tx by (simp add: resolve_def send_def channel_at_def)
    then show ?thesis
      using Cons.prems
      by (simp add: channel_at_resolve_keys completed_def hub_ok_resolve)
  next
    case False
    then have "map_of (hub_pending (fst (resolve k' (once b) h))) k = Some p"
      using Cons.prems by (simp add: map_of_resolve)
    then show ?thesis using Cons False by (auto intro: hub_ok_resolve)
  qed
qed simp

lemma sorted_list_pending:
  "sorted (map (\<lambda>r. (pa_created_at r, pa_run_id r, pa_request_id r)) (list_pending cd t))"
  by (simp add: list_pending_def)

lemma sorted_map_fst: "sorted (map (\<lambda>r. (f r, g r)) xs) \<Longrightarrow> sorted (map f xs)"
  by (induction xs) (auto simp: less_eq_prod_def)

section \<open>Properties\<close>

text \<open>C37: In every state the hub can reach through registrations and answers in any order, each
  parked approval waits on a channel of its own that nobody has answered yet; and a parked
  task receives at most one reply: once its channel holds an answer (or was abandoned), no
  later sequence of operations changes it.\<close>

theorem approval_answered_once:
  assumes "reachable (\<lambda>h. h = hub_new) hub_step h"
  shows "hub_ok h
    \<and> (completed (channel_at tx h) \<and> hub_step\<^sup>*\<^sup>* h h' \<longrightarrow> channel_at tx h' = channel_at tx h)"
  using assms approval_hub.reachable_inv approval_hub.reachable_final by blast

text \<open>Stopping a session answers exactly the approvals parked for that session: each of them
  receives the given verdict and leaves the registry, every other entry (those of other sessions
  and the unscoped ones) stays, and the returned count is the number of entries answered.\<close>

theorem resolve_session_exact:
  assumes "hub_ok h" "resolve_session s b h = (h', n)"
  shows "map_of (hub_pending h') k =
      (case map_of (hub_pending h) k of
         Some p \<Rightarrow> if p_session_pk p = Some s then None else Some p
       | None \<Rightarrow> None)
    \<and> (\<forall>p. map_of (hub_pending h) k = Some p \<and> p_session_pk p = Some s \<longrightarrow>
         channel_at (p_tx p) h' = Some (Got (once b)))
    \<and> n = card {k. \<exists>p. map_of (hub_pending h) k = Some p \<and> p_session_pk p = Some s}"
proof -
  have d: "distinct (map fst (hub_pending h))" using assms by (simp add: hub_ok_def)
  note keys = set_session_keys [OF d]
  have "distinct (session_keys s h)" using d by (simp add: session_keys_def distinct_map_filter)
  moreover have "set (session_keys s h) =
      {k. \<exists>p. map_of (hub_pending h) k = Some p \<and> p_session_pk p = Some s}"
    using keys by auto
  ultimately have "n = card {k. \<exists>p. map_of (hub_pending h) k = Some p \<and> p_session_pk p = Some s}"
    using assms(2) by (auto simp: resolve_session_def Let_def distinct_card [symmetric])
  moreover have "h' = resolve_keys b (session_keys s h) h"
    using assms(2) by (simp add: resolve_session_def Let_def)
  ultimately show ?thesis
    using assms(1)
    by (auto simp: map_of_resolve_keys keys resolve_keys_answers split: option.splits)
qed

theorem approval_answered_once_witness:
  "let k = \<lparr>ak_run_id = ''r'', ak_request_id = ''q''\<rparr>;
       h = fst (resolve k (once True) (fst (register k (hub_new :: unit hub))))
   in channel_at 0 (fst (resolve_session ''s'' False h)) = Some (Got (once True))"
proof -
  let ?k = "\<lparr>ak_run_id = ''r'', ak_request_id = ''q''\<rparr>"
  let ?h = "fst (resolve ?k (once True) (fst (register ?k (hub_new :: unit hub))))"
  have "reachable (\<lambda>h. h = hub_new) hub_step (fst (register ?k (hub_new :: unit hub)))"
    by (rule reachable.step [where s = hub_new]) (rule reachable.start do_register refl)+
  then have "reachable (\<lambda>h. h = hub_new) hub_step ?h"
    by (rule reachable.step) (rule do_resolve)
  moreover have c: "channel_at 0 ?h = Some (Got (once True))"
    by (simp add: resolve_def register_def register_inner_def hub_new_def drop_sender_def
        send_def channel_at_def)
  moreover have "hub_step\<^sup>*\<^sup>* ?h (fst (resolve_session ''s'' False ?h))"
    by (rule r_into_rtranclp) (rule do_resolve_session)
  ultimately have "channel_at 0 (fst (resolve_session ''s'' False ?h)) = channel_at 0 ?h"
    using approval_answered_once [of ?h 0] by (simp add: completed_def)
  with c show ?thesis by (simp add: Let_def)
qed

theorem resolve_session_exact_witness:
  "let k = \<lparr>ak_run_id = ''r'', ak_request_id = ''q''\<rparr>;
       h = fst (register_for_session ''s'' k (hub_new :: unit hub))
   in hub_ok h \<and> map_of (hub_pending (fst (resolve_session ''s'' False h))) k = None"
proof -
  let ?k = "\<lparr>ak_run_id = ''r'', ak_request_id = ''q''\<rparr>"
  let ?h = "fst (register_for_session ''s'' ?k (hub_new :: unit hub))"
  have ok: "hub_ok ?h"
    by (simp add: register_for_session_def hub_ok_register_inner)
  have m: "map_of (hub_pending ?h) ?k = Some \<lparr>p_session_pk = Some ''s'', p_tx = 0\<rparr>"
    by (simp add: register_for_session_def register_inner_def hub_new_def drop_sender_def)
  obtain h' n where r: "resolve_session ''s'' False ?h = (h', n)" by fastforce
  have "map_of (hub_pending h') ?k = None"
    using conjunct1 [OF resolve_session_exact [OF ok r, of ?k]] unfolding m by simp
  with ok r show ?thesis by (simp add: Let_def)
qed

text \<open>A parked approval that is written down is listed again exactly as it was, for every
  printer and parser under which its input and principal survive; the listing is ordered
  oldest first; and forgetting it when the park ends restores the previous listing, so no
  unanswerable card is left behind.\<close>

theorem pending_table_roundtrip:
  assumes "parse_json cd (print_json cd (pa_input row)) = Some (pa_input row)"
    and "\<And>p. pa_principal row = Some p \<Longrightarrow> parse_principal cd (print_principal cd p) = Some p"
    and "(pa_run_id row, pa_request_id row) \<notin> set (map row_key t)"
  shows "mset (list_pending cd (persist_pending cd row t)) = add_mset row (mset (list_pending cd t))
    \<and> sorted (map pa_created_at (list_pending cd (persist_pending cd row t)))
    \<and> list_pending cd (delete_pending (pa_run_id row) (pa_request_id row)
          (persist_pending cd row t)) = list_pending cd t"
proof -
  have "row_key (store_row cd row) = (pa_run_id row, pa_request_id row)"
    by (simp add: row_key_def store_row_def)
  moreover have "filter (\<lambda>r. row_key r \<noteq> (pa_run_id row, pa_request_id row)) t = t"
    using assms(3) by (intro filter_True) force
  moreover have "load_row cd (store_row cd row) = row"
    using assms(1,2)
    by (cases "pa_principal row") (simp_all add: load_row_def store_row_def approval_kind.dec_enc)
  ultimately have "mset (list_pending cd (persist_pending cd row t)) =
      add_mset row (mset (list_pending cd t))
    \<and> list_pending cd (delete_pending (pa_run_id row) (pa_request_id row)
          (persist_pending cd row t)) = list_pending cd t"
    using assms(3)
    by (simp add: persist_pending_def delete_pending_def list_pending_def Let_def)
  then show ?thesis using sorted_map_fst [OF sorted_list_pending] by blast
qed

theorem pending_table_roundtrip_witness:
  "let cd = \<lparr>print_json = (\<lambda>_. ''null''), parse_json = (\<lambda>_. Some JNull),
             print_principal = (\<lambda>_. ''p''), parse_principal = (\<lambda>_. None)\<rparr>;
       row = \<lparr>pa_session_pk = ''s'', pa_run_id = ''r'', pa_request_id = ''q'',
              pa_requesting_agent_id = ''a'', pa_requesting_agent_name = ''A'', pa_tool = ''Bash'',
              pa_summary = ''Bash: ls'', pa_approval_kind = AkTool, pa_input = JNull,
              pa_principal = None, pa_created_at = 7\<rparr>
   in mset (list_pending cd (persist_pending cd row [])) = {#row#}
      \<and> list_pending cd (delete_pending ''r'' ''q'' (persist_pending cd row [])) = []"
  unfolding Let_def
  using pending_table_roundtrip [of
    "\<lparr>print_json = (\<lambda>_. ''null''), parse_json = (\<lambda>_. Some JNull),
      print_principal = (\<lambda>_. ''p''), parse_principal = (\<lambda>_. None)\<rparr>"
    "\<lparr>pa_session_pk = ''s'', pa_run_id = ''r'', pa_request_id = ''q'',
      pa_requesting_agent_id = ''a'', pa_requesting_agent_name = ''A'', pa_tool = ''Bash'',
      pa_summary = ''Bash: ls'', pa_approval_kind = AkTool, pa_input = JNull,
      pa_principal = None, pa_created_at = 7\<rparr>" "[]"]
  by (simp add: list_pending_def)

end
