(* ===== verification/Permission.thy ===== *)
theory Permission
  imports Approval Policy
begin

text \<open>
  \<open>crates/core/src/harness/native/permission.rs\<close>: whether a native tool call may proceed; with
  the permission rules of \<open>agents/types.rs\<close>, the tool policies of \<open>store.rs\<close> and the stored
  permission of MCP tools (\<open>mcp.rs\<close>).

  \<open>evaluate\<close> reads and writes the \<open>world\<close>: the session's overrides, the two policy tables, the
  approval hub with its table of parked approvals, and the events sent. Store calls can fail:
  \<open>store_io\<close> says which do, and a failed call changes nothing. While the call is parked other
  tasks run: \<open>env\<close> is what they do until it wakes, and whether they cancelled the turn.
\<close>

section \<open>Rules and decisions\<close>

datatype permission_decision = PdAllow | PdDeny | PdAsk

datatype native_tool_decision = NtAllow | NtAsk | NtOff

definition enabled :: "native_tool_decision \<Rightarrow> bool" where
  "enabled d \<longleftrightarrow> d \<noteq> NtOff"

record permission_rule =
  rule_id :: string
  rule_tool :: string
  rule_decision :: permission_decision
  rule_command_prefix :: "string option"

record agent_permissions =
  ap_native :: "(string \<times> native_tool_decision) list"
  ap_rules :: "permission_rule list"

definition native_decision :: "agent_permissions \<Rightarrow> string \<Rightarrow> native_tool_decision" where
  "native_decision p tool =
     (case map_of (ap_native p) tool of Some d \<Rightarrow> d | None \<Rightarrow> NtAsk)"

datatype perm_decision = Allow | Deny

record permission_spec =
  ps_key :: string
  ps_summary :: string
  ps_principal :: "principal option"

definition permission_spec_new :: "string \<Rightarrow> string \<Rightarrow> permission_spec" where
  "permission_spec_new key summary = \<lparr>ps_key = key, ps_summary = summary, ps_principal = None\<rparr>"

definition with_principal :: "permission_spec \<Rightarrow> principal option \<Rightarrow> permission_spec" where
  "with_principal sp p = sp\<lparr>ps_principal := p\<rparr>"

section \<open>Session overrides\<close>

record session_perm_overrides =
  so_allow :: "string set"
  so_deny :: "string set"

definition set_override ::
    "string \<Rightarrow> bool \<Rightarrow> session_perm_overrides \<Rightarrow> session_perm_overrides" where
  "set_override tool allow o' =
     (if allow then \<lparr>so_allow = insert tool (so_allow o'), so_deny = so_deny o' - {tool}\<rparr>
      else \<lparr>so_allow = so_allow o' - {tool}, so_deny = insert tool (so_deny o')\<rparr>)"

definition decision_for :: "string \<Rightarrow> session_perm_overrides \<Rightarrow> bool option" where
  "decision_for tool o' =
     (if tool \<in> so_deny o' then Some False
      else if tool \<in> so_allow o' then Some True else None)"

section \<open>Stored policies\<close>

text \<open>\<open>store.rs\<close>: a write from an origin other than the user is refused.\<close>

datatype store_error = OriginRefused string write_origin

definition ensure_user_origin :: "write_origin \<Rightarrow> string \<Rightarrow> store_error + unit" where
  "ensure_user_origin origin what =
     (if \<not> is_user origin then Inl (OriginRefused what origin) else Inr ())"

type_synonym policies = "((string \<times> string) \<times> string) list"

definition get_tool_policy :: "string \<Rightarrow> string \<Rightarrow> policies \<Rightarrow> string option" where
  "get_tool_policy project_id tool t = map_of t (project_id, tool)"

definition set_tool_policy ::
    "write_origin \<Rightarrow> string \<Rightarrow> string \<Rightarrow> string \<Rightarrow> policies \<Rightarrow> store_error + policies" where
  "set_tool_policy origin project_id tool verdict t =
     (case ensure_user_origin origin ''tool_policies'' of
        Inl e \<Rightarrow> Inl e
      | Inr _ \<Rightarrow> Inr (AList.update (project_id, tool) verdict t))"

definition delete_tool_policy ::
    "write_origin \<Rightarrow> string \<Rightarrow> string \<Rightarrow> policies \<Rightarrow> store_error + policies" where
  "delete_tool_policy origin project_id tool t =
     (case ensure_user_origin origin ''tool_policies'' of
        Inl e \<Rightarrow> Inl e
      | Inr _ \<Rightarrow> Inr (AList.delete (project_id, tool) t))"

definition list_tool_policies :: "policies \<Rightarrow> (string \<times> string \<times> string) list" where
  "list_tool_policies t = map (\<lambda>((p, tool), d). (p, tool, d)) (sort_key fst t)"

text \<open>\<open>mcp.rs\<close>: the permission stored for a tool named \<open>mcp__<server>__<tool>\<close>.\<close>

definition mcp_tool_parts :: "string \<Rightarrow> (string \<times> string) option" where
  "mcp_tool_parts name =
     (case strip_prefix name ''mcp__'' of
        None \<Rightarrow> None
      | Some rest \<Rightarrow>
          (case split_once_str ''__'' rest of
             None \<Rightarrow> None
           | Some (server, tool) \<Rightarrow>
               if server = [] \<or> tool = [] then None else Some (server, tool)))"

definition stored_tool_perm :: "bool \<Rightarrow> policies \<Rightarrow> string \<Rightarrow> string option" where
  "stored_tool_perm read_ok mcp_tools full_name =
     (case mcp_tool_parts full_name of
        None \<Rightarrow> None
      | Some key \<Rightarrow> if read_ok then map_of mcp_tools key else None)"

section \<open>The gate\<close>

record perm_gate =
  g_permission_rules :: "permission_rule list"
  g_native_decisions :: "(string \<times> native_tool_decision) list"
  g_tool_id :: string
  g_perm_mode :: perm_mode
  g_project_id :: "string option"
  g_session_pk :: string
  g_run_id :: string
  g_requesting_agent_id :: string
  g_requesting_agent_name :: string
  g_tool_call_id :: string

datatype core_event = ApprovalRequested pending_approval_row

record world =
  w_overrides :: session_perm_overrides
  w_policies :: policies
  w_mcp_tools :: policies
  w_pending :: "stored_approval list"
  w_hub :: "json hub"
  w_events :: "core_event list"

text \<open>Which of the store calls of one evaluation succeed.\<close>

record store_io =
  io_mcp_read :: bool
  io_policy_read :: bool
  io_persist :: bool
  io_rule_write :: bool
  io_delete :: bool

definition is_namespaced_tool_key :: "string \<Rightarrow> bool" where
  "is_namespaced_tool_key key \<longleftrightarrow> starts_with key ''mcp__''"

definition key_to_policy_tool :: "string \<Rightarrow> string" where
  "key_to_policy_tool key =
     (if key = ''read'' \<or> key = ''todoread'' then ''Read''
      else if key = ''todowrite'' then ''TodoWrite''
      else if key = ''edit'' then ''Edit''
      else if key = ''bash'' then ''Bash''
      else if key = ''webfetch'' then ''WebFetch''
      else if key = ''exitplanmode'' then ''ExitPlanMode''
      else if key = ''askuserquestion'' then ''AskUserQuestion''
      else key)"

definition rule_matches :: "string \<Rightarrow> json \<Rightarrow> permission_rule \<Rightarrow> bool" where
  "rule_matches tool input rule \<longleftrightarrow>
     rule_tool rule = tool
     \<and> (case rule_command_prefix rule of
          None \<Rightarrow> True
        | Some pre \<Rightarrow>
            (case get_str ''command'' input of
               None \<Rightarrow> False | Some command \<Rightarrow> starts_with command pre))"

text \<open>The closure of \<open>find_map\<close>: an \<open>Ask\<close> rule is skipped before the match is even used.\<close>

fun profile_rule_decision ::
    "permission_rule list \<Rightarrow> string \<Rightarrow> json \<Rightarrow> perm_decision option" where
  "profile_rule_decision [] tool input = None"
| "profile_rule_decision (rule # rules) tool input =
     (case rule_decision rule of
        PdAsk \<Rightarrow> profile_rule_decision rules tool input
      | PdAllow \<Rightarrow>
          if rule_matches tool input rule then Some Allow
          else profile_rule_decision rules tool input
      | PdDeny \<Rightarrow>
          if rule_matches tool input rule then Some Deny
          else profile_rule_decision rules tool input)"

text \<open>The base decision: the stored MCP permission, or the profile's native decision.\<close>

definition base_decision ::
    "permission_spec \<Rightarrow> perm_gate \<Rightarrow> store_io \<Rightarrow> world \<Rightarrow> perm_decision option" where
  "base_decision spec gate io w =
     (if is_namespaced_tool_key (ps_key spec) then
        (let perm = stored_tool_perm (io_mcp_read io) (w_mcp_tools w) (ps_key spec)
         in if perm = Some ''deny'' then Some Deny
            else if perm = Some ''allow'' then Some Allow else None)
      else
        (case (case map_of (g_native_decisions gate) (g_tool_id gate) of
                 Some d \<Rightarrow> d | None \<Rightarrow> NtAsk) of
           NtAllow \<Rightarrow> Some Allow
         | NtOff \<Rightarrow> Some Deny
         | NtAsk \<Rightarrow> None))"

definition project_policy :: "perm_gate \<Rightarrow> store_io \<Rightarrow> world \<Rightarrow> string \<Rightarrow> string option" where
  "project_policy gate io w tool =
     (case g_project_id gate of
        Some pid \<Rightarrow> if io_policy_read io then get_tool_policy pid tool (w_policies w) else None
      | None \<Rightarrow> None)"

text \<open>Everything \<open>evaluate\<close> decides without a prompt (\<open>None\<close>: prompt).\<close>

definition decide_early ::
    "permission_spec \<Rightarrow> json \<Rightarrow> perm_gate \<Rightarrow> store_io \<Rightarrow> world \<Rightarrow> perm_decision option" where
  "decide_early spec input gate io w =
     (let tool = key_to_policy_tool (ps_key spec) in
      if g_perm_mode gate = Plan \<and> \<not> is_safe_tool tool then Some Deny
      else (case profile_rule_decision (g_permission_rules gate) (ps_key spec) input of
        Some d \<Rightarrow> Some d
      | None \<Rightarrow>
      (case base_decision spec gate io w of
        Some d \<Rightarrow> Some d
      | None \<Rightarrow>
      (case decision_for tool (w_overrides w) of
        Some True \<Rightarrow> Some Allow
      | Some False \<Rightarrow> Some Deny
      | None \<Rightarrow>
      (case decide_tool_permission (g_perm_mode gate) (project_policy gate io w tool) tool of
        AutoAllow \<Rightarrow> Some Allow
      | DenyOutcome \<Rightarrow> Some Deny
      | Prompt \<Rightarrow> None)))))"

definition persist_rule :: "perm_gate \<Rightarrow> store_io \<Rightarrow> string \<Rightarrow> string \<Rightarrow> world \<Rightarrow> world" where
  "persist_rule gate io tool verdict w =
     (case g_project_id gate of
        None \<Rightarrow> w
      | Some pid \<Rightarrow>
          if io_rule_write io
          then (case set_tool_policy OUser pid tool verdict (w_policies w) of
                  Inl _ \<Rightarrow> w | Inr t \<Rightarrow> w\<lparr>w_policies := t\<rparr>)
          else w)"

definition apply_response ::
    "perm_gate \<Rightarrow> store_io \<Rightarrow> string \<Rightarrow> json approval_response \<Rightarrow> world \<Rightarrow> perm_decision \<times> world" where
  "apply_response gate io tool resp w =
     (let w' =
        (case (decision resp, scope resp) of
           (AllowAlways, Some ScopeSession) \<Rightarrow>
             w\<lparr>w_overrides := set_override tool True (w_overrides w)\<rparr>
         | (RejectAlways, Some ScopeSession) \<Rightarrow>
             w\<lparr>w_overrides := set_override tool False (w_overrides w)\<rparr>
         | (AllowAlways, Some ScopeProject) \<Rightarrow> persist_rule gate io tool ''allowAlways'' w
         | (RejectAlways, Some ScopeProject) \<Rightarrow> persist_rule gate io tool ''rejectAlways'' w
         | _ \<Rightarrow> w)
      in (if allowed resp then Allow else Deny, w'))"

definition approval_row ::
    "permission_spec \<Rightarrow> json \<Rightarrow> perm_gate \<Rightarrow> int \<Rightarrow> pending_approval_row" where
  "approval_row spec input gate now =
     \<lparr>pa_session_pk = g_session_pk gate, pa_run_id = g_run_id gate,
      pa_request_id = g_tool_call_id gate,
      pa_requesting_agent_id = g_requesting_agent_id gate,
      pa_requesting_agent_name = g_requesting_agent_name gate,
      pa_tool = ps_key spec, pa_summary = ps_summary spec, pa_approval_kind = AkTool,
      pa_input = input, pa_principal = ps_principal spec, pa_created_at = now\<rparr>"

definition gate_key :: "perm_gate \<Rightarrow> approval_key" where
  "gate_key gate = \<lparr>ak_run_id = g_run_id gate, ak_request_id = g_tool_call_id gate\<rparr>"

text \<open>Parking: register, write the row down, announce it; the channel to await is returned.\<close>

definition park ::
    "json_codec \<Rightarrow> permission_spec \<Rightarrow> json \<Rightarrow> perm_gate \<Rightarrow> store_io \<Rightarrow> int \<Rightarrow> world \<Rightarrow> world \<times> nat" where
  "park cd spec input gate io now w =
     (let (h, tx) = register_for_session (g_session_pk gate) (gate_key gate) (w_hub w);
          row = approval_row spec input gate now;
          w1 = w\<lparr>w_hub := h\<rparr>;
          w2 = (if io_persist io then w1\<lparr>w_pending := persist_pending cd row (w_pending w1)\<rparr>
                else w1)
      in (w2\<lparr>w_events := w_events w2 @ [ApprovalRequested row]\<rparr>, tx))"

definition unpark :: "perm_gate \<Rightarrow> store_io \<Rightarrow> world \<Rightarrow> world" where
  "unpark gate io w =
     (if io_delete io
      then w\<lparr>w_pending := delete_pending (g_run_id gate) (g_tool_call_id gate) (w_pending w)\<rparr>
      else w)"

text \<open>
  The \<open>select!\<close>, biased to the cancellation: \<open>None\<close> when the turn is not cancelled and the
  channel has neither a reply nor lost its sender, that is, while the call stays parked.
\<close>

definition wake ::
    "perm_gate \<Rightarrow> store_io \<Rightarrow> string \<Rightarrow> nat \<Rightarrow> bool \<Rightarrow> world \<Rightarrow> (perm_decision \<times> world) option" where
  "wake gate io tool tx cancelled w =
     (if cancelled
      then Some (Deny, w\<lparr>w_hub := fst (resolve_bool (gate_key gate) False (w_hub w))\<rparr>)
      else (case channel_at tx (w_hub w) of
              Some (Got resp) \<Rightarrow> Some (apply_response gate io tool resp w)
            | Some Dropped \<Rightarrow> Some (Deny, w)
            | _ \<Rightarrow> None))"

definition evaluate ::
    "json_codec \<Rightarrow> permission_spec \<Rightarrow> json \<Rightarrow> perm_gate \<Rightarrow> store_io \<Rightarrow> int \<Rightarrow> (world \<Rightarrow> bool \<times> world)
     \<Rightarrow> world \<Rightarrow> (perm_decision \<times> world) option" where
  "evaluate cd spec input gate io now env w =
     (case decide_early spec input gate io w of
        Some d \<Rightarrow> Some (d, w)
      | None \<Rightarrow>
          (let (w1, tx) = park cd spec input gate io now w;
               (cancelled, w2) = env w1
           in case wake gate io (key_to_policy_tool (ps_key spec)) tx cancelled w2 of
                None \<Rightarrow> None
              | Some (d, w3) \<Rightarrow> Some (d, unpark gate io w3)))"

section \<open>Lemmas\<close>

lemma decision_for_set_override [simp]:
  "decision_for t (set_override tool b o') = (if t = tool then Some b else decision_for t o')"
  by (auto simp: decision_for_def set_override_def)

lemma decide_early_plan:
  "g_perm_mode gate = Plan \<Longrightarrow> \<not> is_safe_tool (key_to_policy_tool (ps_key spec)) \<Longrightarrow>
   decide_early spec input gate io w = Some Deny"
  by (simp add: decide_early_def)

lemma profile_rule_decision_ask:
  "\<forall>r \<in> set rules. rule_decision r = PdAsk \<or> \<not> rule_matches tool input r \<Longrightarrow>
   profile_rule_decision rules tool input = None"
  by (induction rules) (auto split: permission_decision.splits)

lemma profile_rule_decision_filter:
  "profile_rule_decision rules tool input =
     profile_rule_decision (filter (\<lambda>r. rule_decision r \<noteq> PdAsk) rules) tool input"
  by (induction rules) (auto split: permission_decision.splits)

lemma persist_rule_fields [simp]:
  "w_overrides (persist_rule gate io tool d w) = w_overrides w"
  "w_pending (persist_rule gate io tool d w) = w_pending w"
  "w_hub (persist_rule gate io tool d w) = w_hub w"
  "w_mcp_tools (persist_rule gate io tool d w) = w_mcp_tools w"
  by (simp_all add: persist_rule_def split: option.splits sum.splits)

lemma apply_response_fields [simp]:
  "w_pending (snd (apply_response gate io tool r w)) = w_pending w"
  "w_hub (snd (apply_response gate io tool r w)) = w_hub w"
  "fst (apply_response gate io tool r w) = (if allowed r then Allow else Deny)"
  by (auto simp: apply_response_def Let_def split: approval_decision.splits option.splits
      approval_scope.splits)

lemma park_hub [simp]:
  "w_hub (fst (park cd spec input gate io now w)) =
     fst (register_for_session (g_session_pk gate) (gate_key gate) (w_hub w))"
  "snd (park cd spec input gate io now w) = length (hub_channels (w_hub w))"
  by (simp_all add: park_def Let_def register_for_session_def register_inner_def
      split: prod.splits)

lemma wake_verdict:
  "w_hub w = w_hub w' \<Longrightarrow>
   map_option fst (wake gate io tool tx c w) = map_option fst (wake gate io' tool tx c w')"
  by (simp add: wake_def split: option.splits channel.splits)

lemma delete_pending_gone [simp]:
  "(run, req) \<notin> set (map row_key (delete_pending run req t))"
  by (auto simp: delete_pending_def)

text \<open>\<open>evaluate\<close> decides early, or parks and wakes.\<close>

lemma evaluate_early:
  "decide_early spec input gate io w = Some d \<Longrightarrow>
   evaluate cd spec input gate io now env w = Some (d, w)"
  by (simp add: evaluate_def)

lemma evaluate_park:
  assumes "decide_early spec input gate io w = None"
  shows "evaluate cd spec input gate io now env w =
     map_option (\<lambda>(d, w3). (d, unpark gate io w3))
       (let r = env (fst (park cd spec input gate io now w))
        in wake gate io (key_to_policy_tool (ps_key spec)) (length (hub_channels (w_hub w)))
             (fst r) (snd r))"
proof -
  obtain w1 tx where p: "park cd spec input gate io now w = (w1, tx)" by fastforce
  then have "tx = length (hub_channels (w_hub w))"
    using park_hub(2) [of cd spec input gate io now w] by simp
  with p assms show ?thesis
    by (cases "env w1") (simp add: evaluate_def Let_def case_prod_beta split: option.split)
qed

lemma decide_early_io:
  assumes "io_mcp_read io = io_mcp_read io'" "io_policy_read io = io_policy_read io'"
  shows "decide_early spec input gate io w = decide_early spec input gate io' w"
proof -
  have "base_decision spec gate io w = base_decision spec gate io' w"
    and "project_policy gate io w = project_policy gate io' w"
    using assms by (auto simp: base_decision_def project_policy_def fun_eq_iff split: option.splits)
  then show ?thesis by (simp only: decide_early_def)
qed

section \<open>Sample values for the witnesses\<close>

definition sample_gate :: perm_gate where
  "sample_gate =
     \<lparr>g_permission_rules = [], g_native_decisions = [], g_tool_id = ''bash'',
      g_perm_mode = Default, g_project_id = Some ''p1'', g_session_pk = ''s1'',
      g_run_id = ''r1'', g_requesting_agent_id = ''a1'', g_requesting_agent_name = ''A'',
      g_tool_call_id = ''c1''\<rparr>"

definition sample_io :: store_io where
  "sample_io = \<lparr>io_mcp_read = True, io_policy_read = True, io_persist = True,
                io_rule_write = True, io_delete = True\<rparr>"

definition sample_world :: world where
  "sample_world =
     \<lparr>w_overrides = \<lparr>so_allow = {}, so_deny = {}\<rparr>, w_policies = [], w_mcp_tools = [],
      w_pending = [], w_hub = hub_new, w_events = []\<rparr>"

definition sample_codec :: json_codec where
  "sample_codec = \<lparr>print_json = (\<lambda>_. ''null''), parse_json = (\<lambda>_. Some JNull),
                   print_principal = (\<lambda>_. ''p''), parse_principal = (\<lambda>_. None)\<rparr>"

definition answer_env :: "json approval_response \<Rightarrow> world \<Rightarrow> bool \<times> world" where
  "answer_env r w = (False, w\<lparr>w_hub := fst (resolve (gate_key sample_gate) r (w_hub w))\<rparr>)"

lemmas sample_defs =
  sample_gate_def sample_io_def sample_world_def sample_codec_def answer_env_def

lemmas evaluate_defs =
  evaluate_def decide_early_def base_decision_def is_namespaced_tool_key_def starts_with_def
  decision_for_def project_policy_def get_tool_policy_def key_to_policy_tool_def
  decide_tool_permission_def resolve_tool_policy_def SAFE_TOOLS_def EDIT_TOOLS_def park_def
  register_for_session_def register_inner_def drop_sender_def hub_new_def persist_pending_def
  wake_def channel_at_def apply_response_def unpark_def delete_pending_def row_key_def
  store_row_def approval_row_def gate_key_def resolve_def send_def once_def allowed_def

section \<open>Properties\<close>

text \<open>C7: Plan mode is read-only: in that mode a call of a tool that is not on the safe list is
  denied at once, before any rule, stored permission, session answer or prompt is consulted,
  and nothing changes; so a call that is allowed in Plan mode is one of a safe tool.\<close>

theorem plan_mode_read_only:
  assumes "g_perm_mode gate = Plan"
  shows "(\<not> is_safe_tool (key_to_policy_tool (ps_key spec)) \<longrightarrow>
            evaluate cd spec input gate io now env w = Some (Deny, w))
    \<and> (evaluate cd spec input gate io now env w = Some (Allow, w') \<longrightarrow>
         is_safe_tool (key_to_policy_tool (ps_key spec)))"
  using assms evaluate_early [OF decide_early_plan] by fastforce

theorem plan_mode_read_only_witness:
  "evaluate sample_codec (permission_spec_new ''bash'' ''ls'') (JObj [])
     (sample_gate\<lparr>g_perm_mode := Plan\<rparr>) sample_io 0 (answer_env (once True)) sample_world
   = Some (Deny, sample_world)"
proof -
  have "\<not> is_safe_tool (key_to_policy_tool (ps_key (permission_spec_new ''bash'' ''ls'')))"
    by (simp add: permission_spec_new_def key_to_policy_tool_def is_safe_tool_def SAFE_TOOLS_def)
  then show ?thesis
    using plan_mode_read_only [of "sample_gate\<lparr>g_perm_mode := Plan\<rparr>"] by simp
qed

text \<open>C22: The database can never change a verdict: two evaluations that differ only in which of
  their writes fail (the parked row, the remembered rule, the row's removal) give the same
  verdict, or both stay parked, whatever answer the parked task is given.\<close>

theorem store_failure_keeps_verdict:
  assumes "io_mcp_read io = io_mcp_read io'" "io_policy_read io = io_policy_read io'"
    and "\<And>w1 w2. w_hub w1 = w_hub w2 \<Longrightarrow>
      fst (env w1) = fst (env w2) \<and> w_hub (snd (env w1)) = w_hub (snd (env w2))"
  shows "map_option fst (evaluate cd spec input gate io now env w) =
         map_option fst (evaluate cd spec input gate io' now env w)"
proof (cases "decide_early spec input gate io w")
  case (Some d)
  with assms(1,2) decide_early_io have "decide_early spec input gate io' w = Some d" by metis
  with Some show ?thesis by (simp add: evaluate_early)
next
  case None
  let ?r = "env (fst (park cd spec input gate io now w))"
  let ?r' = "env (fst (park cd spec input gate io' now w))"
  have early: "decide_early spec input gate io' w = None"
    using None assms(1,2) decide_early_io by metis
  have "fst ?r = fst ?r'" and "w_hub (snd ?r) = w_hub (snd ?r')"
    using assms(3) [of "fst (park cd spec input gate io now w)"
        "fst (park cd spec input gate io' now w)"] by simp_all
  then have "map_option fst (wake gate io t tx (fst ?r) (snd ?r)) =
      map_option fst (wake gate io' t tx (fst ?r') (snd ?r'))" for t tx
    using wake_verdict [of "snd ?r" "snd ?r'"] by simp
  with None early show ?thesis
    by (simp add: evaluate_park Let_def option.map_comp comp_def case_prod_beta)
qed

theorem store_failure_keeps_verdict_witness:
  "map_option fst (evaluate sample_codec (permission_spec_new ''bash'' ''ls'') (JObj [])
      sample_gate (sample_io\<lparr>io_persist := False, io_delete := False\<rparr>) 0
      (answer_env (once True)) sample_world) = Some Allow"
proof -
  have "map_option fst (evaluate sample_codec (permission_spec_new ''bash'' ''ls'') (JObj [])
      sample_gate sample_io 0 (answer_env (once True)) sample_world) = Some Allow"
    by (simp add: evaluate_defs sample_defs permission_spec_new_def Let_def)
  moreover have "map_option fst (evaluate sample_codec (permission_spec_new ''bash'' ''ls'') (JObj [])
      sample_gate sample_io 0 (answer_env (once True)) sample_world) =
    map_option fst (evaluate sample_codec (permission_spec_new ''bash'' ''ls'') (JObj [])
      sample_gate (sample_io\<lparr>io_persist := False, io_delete := False\<rparr>) 0
      (answer_env (once True)) sample_world)"
    by (rule store_failure_keeps_verdict) (simp_all add: sample_io_def answer_env_def)
  ultimately show ?thesis by simp
qed



text \<open>An answer given for good is obeyed for good. After an \<open>Always\<close> answer at session
  scope, every later call of the session that maps to the same tool (outside Plan mode, with no
  matching rule and no base decision) is decided by that answer without a prompt, whatever the
  project has stored; after one at project scope that could be written, every later call in the
  same project, in any session without an override for the tool, is decided by it.\<close>

theorem always_answer_sticks:
  assumes "apply_response gate io tool r w = (d, w1)"
    and "decision r = AllowAlways \<or> decision r = RejectAlways"
    and "tool = key_to_policy_tool (ps_key spec')"
    and "g_perm_mode gate' \<noteq> Plan"
    and "profile_rule_decision (g_permission_rules gate') (ps_key spec') input' = None"
    and "base_decision spec' gate' io' w' = None"
    and "scope r = Some ScopeSession \<and> w_overrides w' = w_overrides w1
      \<or> scope r = Some ScopeProject \<and> decision_for tool (w_overrides w') = None
          \<and> io_rule_write io \<and> io_policy_read io' \<and> g_project_id gate = Some pid
          \<and> g_project_id gate' = Some pid \<and> w_policies w' = w_policies w1"
  shows "evaluate cd spec' input' gate' io' now env w' = Some (d, w')"
proof -
  have d: "d = (if decision r = AllowAlways then Allow else Deny)"
    using assms(1,2) by (auto simp: apply_response_def Let_def allowed_def)
  have "decide_early spec' input' gate' io' w' = Some d"
  proof (cases "scope r = Some ScopeSession")
    case True
    then have "decision_for tool (w_overrides w') = Some (decision r = AllowAlways)"
      using assms(1,2,7) by (auto simp: apply_response_def Let_def)
    with d show ?thesis
      using assms(2-6) by (auto simp: decide_early_def Let_def)
  next
    case False
    then have "get_tool_policy pid tool (w_policies w') =
        Some (if decision r = AllowAlways then ''allowAlways'' else ''rejectAlways'')"
      using assms(1,2,7)
      by (auto simp: apply_response_def Let_def persist_rule_def set_tool_policy_def
          ensure_user_origin_def is_user_def get_tool_policy_def update_conv')
    with d False show ?thesis
      using assms(2-7)
      by (auto simp: decide_early_def Let_def project_policy_def decide_tool_permission_def)
  qed
  then show ?thesis by (rule evaluate_early)
qed

theorem always_answer_sticks_witness:
  "let r = \<lparr>decision = RejectAlways, scope = Some ScopeSession, payload = None\<rparr>;
       w1 = snd (apply_response sample_gate sample_io ''Bash'' r sample_world)
   in evaluate sample_codec (permission_spec_new ''bash'' ''ls'') (JObj []) sample_gate
        sample_io 0 (answer_env (once True)) w1 = Some (Deny, w1)"
proof -
  let ?r = "\<lparr>decision = RejectAlways, scope = Some ScopeSession, payload = None\<rparr>"
  have "apply_response sample_gate sample_io ''Bash'' ?r sample_world =
      (Deny, snd (apply_response sample_gate sample_io ''Bash'' ?r sample_world))"
    by (simp add: prod_eq_iff allowed_def)
  then show ?thesis
    unfolding Let_def
    by (rule always_answer_sticks)
      (simp_all add: permission_spec_new_def key_to_policy_tool_def sample_gate_def
        base_decision_def is_namespaced_tool_key_def starts_with_def)
qed

text \<open>Only the user can change a stored tool policy: a write or a removal from an autonomous
  origin is refused; a user's write is what the next lookup returns and touches no other
  policy, and a removal makes the lookup return nothing.\<close>

theorem tool_policy_user_only:
  "(is_autonomous origin \<longleftrightarrow>
      set_tool_policy origin p t d tab = Inl (OriginRefused ''tool_policies'' origin))
   \<and> (is_autonomous origin \<longleftrightarrow>
      delete_tool_policy origin p t tab = Inl (OriginRefused ''tool_policies'' origin))
   \<and> (\<exists>tab'. set_tool_policy OUser p t d tab = Inr tab'
      \<and> get_tool_policy p' t' tab' =
          (if p' = p \<and> t' = t then Some d else get_tool_policy p' t' tab))
   \<and> (\<exists>tab'. delete_tool_policy OUser p t tab = Inr tab'
      \<and> get_tool_policy p' t' tab' =
          (if p' = p \<and> t' = t then None else get_tool_policy p' t' tab))"
  by (auto simp: set_tool_policy_def delete_tool_policy_def ensure_user_origin_def is_user_def
      is_autonomous_def get_tool_policy_def update_conv' AList.delete_conv')

text \<open>C24: Profile rules: the rule that decides is the first one, in the profile's order, that is
  an allow or a deny rule and matches the call (its tool, and its prefix against the
  \<open>command\<close> of the input); a matching \<open>ask\<close> rule decides nothing, even when it stands
  first, so a later rule or an allowing base decision still lets the call run unprompted.\<close>

theorem first_deciding_rule_wins:
  "profile_rule_decision rules tool input =
     (case find (\<lambda>r. rule_decision r \<noteq> PdAsk \<and> rule_matches tool input r) rules of
        None \<Rightarrow> None
      | Some r \<Rightarrow> Some (if rule_decision r = PdAllow then Allow else Deny))
   \<and> decide_early (permission_spec_new ''bash'' summary) (JObj [(''command'', JStr ''rm -rf /'')])
       (sample_gate\<lparr>g_native_decisions := [(''bash'', NtAllow)],
          g_permission_rules := [\<lparr>rule_id = ''x'', rule_tool = ''bash'', rule_decision = PdAsk,
                                  rule_command_prefix = Some ''rm ''\<rparr>]\<rparr>) io w = Some Allow"
  (is "?first \<and> ?base")
proof
  show ?first
    by (induction rules) (auto split: permission_decision.splits)
  show ?base
    by (simp add: decide_early_def base_decision_def sample_gate_def permission_spec_new_def
        is_namespaced_tool_key_def starts_with_def)
qed

end
