(* ===== verification/Budget.thy ===== *)
theory Budget
  imports Interfaces
begin

text \<open>
  The two shared counters of the native runtime.

  \<^item> \<open>harness/native/iteration_budget.rs\<close>: a lock-free counter of remaining iterations. Threads
    run its compare-and-exchange loop interleaved; a step of the machine is one atomic access.
  \<^item> \<open>harness/native/background.rs\<close>: the registry of background delegations, whose reserve
    holds a mutex and whose release first decrements a counter and then takes the mutex, as two
    steps that others can run between. Slot numbers are unbounded here (the code's counter
    wraps after \<open>2 ^ 64\<close> reservations).
\<close>

section \<open>The iteration budget\<close>

definition PARENT_MAX_ITERS :: nat where
  "PARENT_MAX_ITERS = 500"

definition SUBAGENT_MAX_ITERS :: nat where
  "SUBAGENT_MAX_ITERS = 500"

text \<open>Where a thread is: not in \<open>try_consume\<close>, or in its loop with the value it last saw.\<close>

datatype thread_pc = Outside | Looping nat

text \<open>
  \<open>remaining\<close> is the atomic; \<open>granted\<close>, \<open>refused\<close> and \<open>refunds\<close> count the returns of
  \<open>try_consume\<close> with \<open>true\<close>, with \<open>false\<close>, and the calls of \<open>refund\<close>.
\<close>

record iteration_budget =
  remaining :: nat
  pcs :: "nat \<Rightarrow> thread_pc"
  granted :: nat
  refused :: nat
  refunds :: nat

definition budget_new :: "nat \<Rightarrow> iteration_budget" where
  "budget_new n = \<lparr>remaining = n, pcs = (\<lambda>_. Outside), granted = 0, refused = 0, refunds = 0\<rparr>"

text \<open>The first load of the loop.\<close>

definition consume_load :: "nat \<Rightarrow> iteration_budget \<Rightarrow> iteration_budget" where
  "consume_load t b = b\<lparr>pcs := (pcs b)(t := Looping (remaining b))\<rparr>"

text \<open>
  One iteration. \<open>compare_exchange_weak\<close> may fail although the values agree (\<open>spurious\<close>); a
  failure continues the loop with the value it observed.
\<close>

definition consume_iter :: "nat \<Rightarrow> nat \<Rightarrow> bool \<Rightarrow> iteration_budget \<Rightarrow> iteration_budget" where
  "consume_iter t cur spurious b =
     (if cur = 0 then b\<lparr>pcs := (pcs b)(t := Outside), refused := refused b + 1\<rparr>
      else if remaining b = cur \<and> \<not> spurious
      then b\<lparr>remaining := cur - 1, pcs := (pcs b)(t := Outside), granted := granted b + 1\<rparr>
      else b\<lparr>pcs := (pcs b)(t := Looping (remaining b))\<rparr>)"

definition refund :: "iteration_budget \<Rightarrow> iteration_budget" where
  "refund b = b\<lparr>remaining := add_u64 (remaining b) 1, refunds := refunds b + 1\<rparr>"

inductive budget_step :: "iteration_budget \<Rightarrow> iteration_budget \<Rightarrow> bool" where
  load: "pcs b t = Outside \<Longrightarrow> budget_step b (consume_load t b)"
| iter: "pcs b t = Looping cur \<Longrightarrow> budget_step b (consume_iter t cur spurious b)"
| do_refund: "budget_step b (refund b)"

inductive_cases budget_stepE: "budget_step b b'"

text \<open>The abstract budget: consuming and refunding are atomic.\<close>

inductive abstract_step :: "nat \<times> nat \<times> nat \<Rightarrow> nat \<times> nat \<times> nat \<Rightarrow> bool" where
  grant: "0 < r \<Longrightarrow> abstract_step (r, g, f) (r - 1, g + 1, f)"
| give_back: "abstract_step (r, g, f) (add_u64 r 1, g, f + 1)"

definition abstract_budget :: "iteration_budget \<Rightarrow> nat \<times> nat \<times> nat" where
  "abstract_budget b = (remaining b, granted b, refunds b)"

lemma budget_refines:
  "budget_step b b' \<Longrightarrow>
   abstract_budget b' = abstract_budget b \<or> abstract_step (abstract_budget b) (abstract_budget b')"
  by (erule budget_stepE)
    (auto simp: abstract_budget_def consume_load_def consume_iter_def refund_def
      intro: abstract_step.intros [simplified])

text \<open>Nothing is lost or made up, as long as the counter cannot wrap.\<close>

definition budget_ok :: "nat \<Rightarrow> iteration_budget \<Rightarrow> bool" where
  "budget_ok n b \<longleftrightarrow>
     (n + refunds b < u64_modulus \<longrightarrow> remaining b + granted b = n + refunds b)"

interpretation budget: machine "\<lambda>b. b = budget_new n" budget_step "budget_ok n" for n :: nat
proof
  fix b b' :: iteration_budget
  show "budget_ok n b" if "b = budget_new n"
    using that by (simp add: budget_ok_def budget_new_def)
  show "budget_ok n b'" if "budget_ok n b" "budget_step b b'"
    using that(2,1)
    by (cases rule: budget_stepE)
      (auto simp: budget_ok_def consume_load_def consume_iter_def refund_def add_u64_exact)
qed

section \<open>The background registry\<close>

record reservation =
  r_parent :: string
  r_slot :: nat
  r_token :: nat

text \<open>Tokens are numbered as they are made; \<open>cancelled_tokens\<close> are the ones fired.\<close>

record registry =
  active :: nat
  tokens :: "(string \<times> (nat \<times> nat) list) list"
  next_id :: nat
  token_count :: nat
  cancelled_tokens :: "nat set"

definition registry_new :: registry where
  "registry_new = \<lparr>active = 0, tokens = [], next_id = 0, token_count = 0, cancelled_tokens = {}\<rparr>"

definition entries_of :: "string \<Rightarrow> registry \<Rightarrow> (nat \<times> nat) list" where
  "entries_of parent r = (case map_of (tokens r) parent of Some es \<Rightarrow> es | None \<Rightarrow> [])"

definition try_reserve :: "nat \<Rightarrow> string \<Rightarrow> registry \<Rightarrow> registry \<times> reservation option" where
  "try_reserve capacity parent r =
     (if active r \<ge> capacity then (r, None)
      else
        (let slot = next_id r; token = token_count r
         in (r\<lparr>active := active r + 1, next_id := next_id r + 1, token_count := token + 1,
               tokens := AList.update parent (entries_of parent r @ [(slot, token)]) (tokens r)\<rparr>,
             Some \<lparr>r_parent = parent, r_slot = slot, r_token = token\<rparr>)))"

definition interrupt_for_session :: "string \<Rightarrow> registry \<Rightarrow> registry" where
  "interrupt_for_session parent r =
     (case map_of (tokens r) parent of
        None \<Rightarrow> r
      | Some es \<Rightarrow> r\<lparr>cancelled_tokens := cancelled_tokens r \<union> snd ` set es\<rparr>)"

text \<open>\<open>release\<close>: the decrement, then (another lock acquisition) the token's removal.\<close>

definition release_slot :: "registry \<Rightarrow> registry" where
  "release_slot r = r\<lparr>active := active r - 1\<rparr>"

definition release_token :: "string \<Rightarrow> nat \<Rightarrow> registry \<Rightarrow> registry" where
  "release_token parent slot r =
     (case map_of (tokens r) parent of
        None \<Rightarrow> r
      | Some es \<Rightarrow>
          (let es' = filter (\<lambda>(s, _). s \<noteq> slot) es
           in if es' = [] then r\<lparr>tokens := AList.delete parent (tokens r)\<rparr>
              else r\<lparr>tokens := AList.update parent es' (tokens r)\<rparr>))"

text \<open>
  The registry together with the guards alive: those held, and those whose drop has run its
  first half.
\<close>

record registry_state =
  rs_reg :: registry
  rs_held :: "reservation list"
  rs_releasing :: "reservation list"

inductive registry_step :: "nat \<Rightarrow> registry_state \<Rightarrow> registry_state \<Rightarrow> bool" for capacity where
  reserve:
    "try_reserve capacity parent (rs_reg s) = (r', Some res) \<Longrightarrow>
     registry_step capacity s (s\<lparr>rs_reg := r', rs_held := res # rs_held s\<rparr>)"
| refuse:
    "try_reserve capacity parent (rs_reg s) = (r', None) \<Longrightarrow>
     registry_step capacity s (s\<lparr>rs_reg := r'\<rparr>)"
| interrupt:
    "registry_step capacity s (s\<lparr>rs_reg := interrupt_for_session parent (rs_reg s)\<rparr>)"
| drop_slot:
    "res \<in> set (rs_held s) \<Longrightarrow>
     registry_step capacity s
       (s\<lparr>rs_reg := release_slot (rs_reg s), rs_held := remove1 res (rs_held s),
          rs_releasing := res # rs_releasing s\<rparr>)"
| drop_token:
    "res \<in> set (rs_releasing s) \<Longrightarrow>
     registry_step capacity s
       (s\<lparr>rs_reg := release_token (r_parent res) (r_slot res) (rs_reg s),
          rs_releasing := remove1 res (rs_releasing s)\<rparr>)"

definition guards :: "registry_state \<Rightarrow> reservation list" where
  "guards s = rs_held s @ rs_releasing s"

text \<open>
  The counter is the number of guards held, within the capacity; the table lists, per parent,
  exactly the slots and tokens of the guards whose drop has not finished.
\<close>

definition registry_ok :: "nat \<Rightarrow> registry_state \<Rightarrow> bool" where
  "registry_ok capacity s \<longleftrightarrow>
     active (rs_reg s) = length (rs_held s)
     \<and> length (rs_held s) \<le> capacity
     \<and> distinct (map r_slot (guards s))
     \<and> (\<forall>g \<in> set (guards s). r_slot g < next_id (rs_reg s))
     \<and> (\<forall>parent slot token.
          (slot, token) \<in> set (entries_of parent (rs_reg s)) \<longleftrightarrow>
          (\<exists>g \<in> set (guards s). r_parent g = parent \<and> r_slot g = slot \<and> r_token g = token))"

lemma entries_of_reserve:
  "try_reserve c parent r = (r', Some g) \<Longrightarrow>
   entries_of p r' = (if p = parent then entries_of p r @ [(r_slot g, r_token g)]
                      else entries_of p r)"
  by (auto simp: try_reserve_def Let_def entries_of_def update_conv' split: if_splits)

lemma try_reserve_Some:
  "try_reserve c parent r = (r', Some g) \<longleftrightarrow>
   active r < c \<and> g = \<lparr>r_parent = parent, r_slot = next_id r, r_token = token_count r\<rparr>
   \<and> r' = r\<lparr>active := active r + 1, next_id := next_id r + 1, token_count := token_count r + 1,
           tokens := AList.update parent (entries_of parent r @ [(next_id r, token_count r)])
                       (tokens r)\<rparr>"
  by (auto simp: try_reserve_def Let_def)

lemma try_reserve_None: "try_reserve c parent r = (r', None) \<longleftrightarrow> c \<le> active r \<and> r' = r"
  by (auto simp: try_reserve_def Let_def)

lemma entries_of_release_token [simp]:
  "entries_of p (release_token parent slot r) =
     (if p = parent then filter (\<lambda>(s, _). s \<noteq> slot) (entries_of p r) else entries_of p r)"
  by (auto simp: release_token_def Let_def entries_of_def update_conv' AList.delete_conv'
      split: option.splits)

lemma entries_of_interrupt [simp]:
  "entries_of p (interrupt_for_session parent r) = entries_of p r"
  by (simp add: interrupt_for_session_def entries_of_def split: option.splits)

lemma release_token_fields [simp]:
  "active (release_token p k r) = active r" "next_id (release_token p k r) = next_id r"
  by (simp_all add: release_token_def Let_def split: option.splits)

lemma interrupt_fields [simp]:
  "active (interrupt_for_session p r) = active r"
  "next_id (interrupt_for_session p r) = next_id r"
  by (simp_all add: interrupt_for_session_def split: option.splits)

lemma release_slot_fields [simp]:
  "active (release_slot r) = active r - 1" "next_id (release_slot r) = next_id r"
  "entries_of p (release_slot r) = entries_of p r"
  by (simp_all add: release_slot_def entries_of_def)

lemma slot_inject:
  "distinct (map r_slot gs) \<Longrightarrow> g \<in> set gs \<Longrightarrow> g' \<in> set gs \<Longrightarrow> r_slot g = r_slot g' \<Longrightarrow> g = g'"
  by (simp add: distinct_map inj_on_def)

lemma registry_ok_reserve:
  assumes ok: "registry_ok c s" and r: "try_reserve c parent (rs_reg s) = (r', Some res)"
  shows "registry_ok c (s\<lparr>rs_reg := r', rs_held := res # rs_held s\<rparr>)"
proof -
  have fresh: "r_slot g \<noteq> next_id (rs_reg s)" if "g \<in> set (guards s)" for g
    using ok that by (auto simp: registry_ok_def)
  have "next_id (rs_reg s) \<notin> r_slot ` set (guards s)" using fresh by force
  moreover have "r_slot g < next_id (rs_reg s) + 1" if "g \<in> set (guards s)" for g
    using ok that by (auto simp: registry_ok_def)
  ultimately show ?thesis
    using ok r entries_of_reserve [OF r]
    unfolding registry_ok_def try_reserve_Some guards_def
    by (auto simp: image_iff)
qed

lemma mset_guards_drop:
  "res \<in> set (rs_held s) \<Longrightarrow>
   mset (remove1 res (rs_held s) @ res # rs_releasing s) = mset (guards s)"
  by (simp add: guards_def)

lemma registry_ok_drop_slot:
  assumes ok: "registry_ok c s" and res: "res \<in> set (rs_held s)"
  shows "registry_ok c (s\<lparr>rs_reg := release_slot (rs_reg s), rs_held := remove1 res (rs_held s),
          rs_releasing := res # rs_releasing s\<rparr>)"
proof -
  let ?s = "s\<lparr>rs_reg := release_slot (rs_reg s), rs_held := remove1 res (rs_held s),
          rs_releasing := res # rs_releasing s\<rparr>"
  have m: "mset (guards ?s) = mset (guards s)"
    using mset_guards_drop [OF res] by (simp add: guards_def)
  then have "set (guards ?s) = set (guards s)" by (rule mset_eq_setD)
  moreover have "distinct (map r_slot (guards ?s)) = distinct (map r_slot (guards s))"
    using m by (metis mset_eq_imp_distinct_iff mset_map)
  ultimately show ?thesis
    using ok res length_remove1 [of res "rs_held s"]
    by (simp add: registry_ok_def) linarith
qed

lemma registry_ok_drop_token:
  assumes ok: "registry_ok c s" and res: "res \<in> set (rs_releasing s)"
  shows "registry_ok c (s\<lparr>rs_reg := release_token (r_parent res) (r_slot res) (rs_reg s),
          rs_releasing := remove1 res (rs_releasing s)\<rparr>)"
proof -
  let ?s = "s\<lparr>rs_reg := release_token (r_parent res) (r_slot res) (rs_reg s),
          rs_releasing := remove1 res (rs_releasing s)\<rparr>"
  have d: "distinct (map r_slot (guards s))" using ok by (simp add: registry_ok_def)
  then have dg: "distinct (guards s)" by (simp add: distinct_map)
  have gs: "set (guards ?s) = set (guards s) - {res}"
    using dg res by (auto simp: guards_def)
  have same: "g = res" if "g \<in> set (guards s)" "r_slot g = r_slot res" for g
    using slot_inject [OF d that(1) _ that(2)] res by (simp add: guards_def)
  have "distinct (map r_slot (guards ?s))"
    using d by (auto simp: guards_def distinct_map intro: inj_on_subset dest: notin_set_remove1)
  moreover have "(slot, token) \<in> set (entries_of parent (rs_reg ?s)) \<longleftrightarrow>
      (\<exists>g \<in> set (guards ?s). r_parent g = parent \<and> r_slot g = slot \<and> r_token g = token)"
    for parent slot token
  proof -
    have "(slot, token) \<in> set (entries_of parent (rs_reg s)) \<longleftrightarrow>
      (\<exists>g \<in> set (guards s). r_parent g = parent \<and> r_slot g = slot \<and> r_token g = token)"
      using ok by (simp add: registry_ok_def)
    then show ?thesis using same unfolding gs by auto
  qed
  ultimately show ?thesis
    using ok gs by (simp add: registry_ok_def)
qed

interpretation registry:
  machine "\<lambda>s. s = \<lparr>rs_reg = registry_new, rs_held = [], rs_releasing = []\<rparr>"
    "registry_step c" "registry_ok c" for c :: nat
proof
  fix s s' :: registry_state
  show "registry_ok c s" if "s = \<lparr>rs_reg = registry_new, rs_held = [], rs_releasing = []\<rparr>"
    using that by (simp add: registry_ok_def registry_new_def guards_def entries_of_def)
  assume ok: "registry_ok c s" and "registry_step c s s'"
  from this(2) show "registry_ok c s'"
  proof (cases rule: registry_step.cases)
    case reserve
    then show ?thesis using registry_ok_reserve [OF ok] by simp
  next
    case refuse
    then show ?thesis using ok by (simp add: try_reserve_None registry_ok_def guards_def)
  next
    case interrupt
    then show ?thesis using ok by (simp add: registry_ok_def guards_def)
  next
    case drop_slot
    then show ?thesis using registry_ok_drop_slot [OF ok] by simp
  next
    case drop_token
    then show ?thesis using registry_ok_drop_token [OF ok] by simp
  qed
qed

section \<open>Properties\<close>

text \<open>C40: The lock-free budget is an atomic one: under any interleaving of threads, including
  spurious failures of the exchange, every step of the machine is invisible to the abstract
  budget or is exactly one atomic grant (of a positive budget) or refund; and in every
  reachable state the iterations still remaining and those granted add up to the initial
  allotment and the refunds, so no more than that is ever granted (as long as the counter,
  64 bits wide, has not been refunded past its range).\<close>

theorem budget_linearizable:
  "(budget_step b b' \<longrightarrow>
      abstract_budget b' = abstract_budget b
      \<or> abstract_step (abstract_budget b) (abstract_budget b'))
   \<and> (reachable (\<lambda>b. b = budget_new n) budget_step b \<and> n + refunds b < u64_modulus \<longrightarrow>
      remaining b + granted b = n + refunds b \<and> granted b \<le> n + refunds b)"
proof -
  have "remaining b + granted b = n + refunds b"
    if "reachable (\<lambda>b. b = budget_new n) budget_step b" "n + refunds b < u64_modulus"
    using budget.reachable_inv [OF that(1)] that(2) by (simp add: budget_ok_def)
  then show ?thesis using budget_refines by fastforce
qed

theorem budget_linearizable_witness:
  "let b = consume_iter 0 1 False (consume_load 0 (budget_new 1))
   in remaining b + granted b = 1 \<and> granted b = 1"
proof -
  let ?start = "budget_new 1" and ?loaded = "consume_load 0 (budget_new 1)"
  let ?b = "consume_iter 0 1 False (consume_load 0 (budget_new 1))"
  have "reachable (\<lambda>b. b = budget_new 1) budget_step ?start" by (rule reachable.start) simp
  moreover have "budget_step ?start ?loaded" by (rule load) (simp add: budget_new_def)
  moreover have "budget_step ?loaded ?b"
    by (rule iter) (simp add: budget_new_def consume_load_def)
  ultimately have "reachable (\<lambda>b. b = budget_new 1) budget_step ?b"
    by (metis reachable.step)
  moreover have rg: "refunds ?b = 0" "granted ?b = 1"
    by (simp_all add: budget_new_def consume_load_def consume_iter_def)
  moreover have "1 + refunds ?b < u64_modulus" using rg by (simp add: u64_modulus_def)
  ultimately have "remaining ?b + granted ?b = 1 + refunds ?b"
    using budget_linearizable [of ?b ?b 1] by blast
  with rg show ?thesis by (simp only: Let_def) simp
qed

text \<open>Under any interleaving of reservations, interrupts and drops (whose two halves others may
  run between), the counter is exactly the number of guards held and never exceeds the
  capacity, so a slot is never leaked nor given twice; a reservation is refused exactly when
  the capacity is used up; and interrupting a session cancels exactly the tokens of the guards
  that session dispatched and that have not finished their drop.\<close>

theorem registry_capacity:
  assumes "reachable (\<lambda>s. s = \<lparr>rs_reg = registry_new, rs_held = [], rs_releasing = []\<rparr>)
      (registry_step capacity) s"
  shows "active (rs_reg s) = length (rs_held s) \<and> length (rs_held s) \<le> capacity
    \<and> (snd (try_reserve capacity parent (rs_reg s)) = None \<longleftrightarrow> length (rs_held s) = capacity)
    \<and> cancelled_tokens (interrupt_for_session parent (rs_reg s)) =
        cancelled_tokens (rs_reg s)
        \<union> {r_token g | g. g \<in> set (rs_held s @ rs_releasing s) \<and> r_parent g = parent}"
proof -
  have ok: "registry_ok capacity s" using assms by (rule registry.reachable_inv)
  have "cancelled_tokens (interrupt_for_session parent (rs_reg s)) =
      cancelled_tokens (rs_reg s) \<union> snd ` set (entries_of parent (rs_reg s))"
    by (simp add: interrupt_for_session_def entries_of_def split: option.splits)
  moreover have "snd ` set (entries_of parent (rs_reg s)) =
      {r_token g | g. g \<in> set (guards s) \<and> r_parent g = parent}"
    using ok by (force simp: registry_ok_def image_iff)
  moreover have "snd (try_reserve capacity parent (rs_reg s)) = None \<longleftrightarrow>
      length (rs_held s) = capacity"
    using ok by (auto simp: registry_ok_def try_reserve_def Let_def)
  ultimately show ?thesis using ok by (simp add: registry_ok_def guards_def)
qed

theorem registry_capacity_witness:
  "let r = fst (try_reserve 1 ''s'' registry_new);
       g = \<lparr>r_parent = ''s'', r_slot = 0, r_token = 0\<rparr>
   in snd (try_reserve 1 ''s'' r) = None
      \<and> cancelled_tokens (interrupt_for_session ''s'' r) = {0}"
proof -
  let ?r = "fst (try_reserve 1 ''s'' registry_new)"
  let ?g = "\<lparr>r_parent = ''s'', r_slot = 0, r_token = 0\<rparr>"
  let ?start = "\<lparr>rs_reg = registry_new, rs_held = [], rs_releasing = []\<rparr>"
  let ?s = "?start\<lparr>rs_reg := ?r, rs_held := ?g # rs_held ?start\<rparr>"
  have "try_reserve 1 ''s'' (rs_reg ?start) = (?r, Some ?g)"
    by (simp add: try_reserve_def registry_new_def)
  then have "registry_step 1 ?start ?s" by (rule reserve)
  then have "reachable (\<lambda>s. s = ?start) (registry_step 1) ?s"
    by (rule reachable.step [OF reachable.start, rotated]) simp
  note h = registry_capacity [OF this, of "''s''"]
  have "snd (try_reserve 1 ''s'' ?r) = None" using h by simp
  moreover have "cancelled_tokens ?r = {}" by (simp add: try_reserve_def registry_new_def)
  then have "cancelled_tokens (interrupt_for_session ''s'' ?r) = {0}" using h by simp
  ultimately show ?thesis by (simp add: Let_def)
qed

end
