(* ===== verification/Ledger.thy ===== *)
theory Ledger
  imports Interfaces Json
begin

text \<open>
  \<open>harness/native/ledger.rs\<close>: the conversation history of a session, kept in memory and in two
  tables of \<open>store.rs\<close>: the appended turns (\<open>provider_turns\<close>) and the compaction checkpoints
  (\<open>context_checkpoints\<close>); and the repair of dangling tool calls before a request.

  Payloads are stored as text; the JSON printer and parser are the arguments \<open>pr\<close> and \<open>pa\<close>. The
  text of a repaired result under the V2 contract (the serialised envelope of
  \<open>tool_contract.rs\<close>, a function of the tool's name) is the argument \<open>v2_text\<close>.
\<close>

section \<open>The two tables\<close>

record turn_row =
  tr_session_pk :: string
  tr_seq :: int
  tr_role :: string
  tr_payload :: string

record checkpoint_row =
  ck_session_pk :: string
  ck_boundary_seq :: int
  ck_window_number :: int
  ck_payload :: string

record ledger_db =
  provider_turns :: "turn_row list"
  context_checkpoints :: "checkpoint_row list"

datatype ledger_error = StoreFailed | BadPayload

definition turns_of :: "string \<Rightarrow> ledger_db \<Rightarrow> turn_row list" where
  "turns_of pk db = filter (\<lambda>r. tr_session_pk r = pk) (provider_turns db)"

definition checkpoints_of :: "string \<Rightarrow> ledger_db \<Rightarrow> checkpoint_row list" where
  "checkpoints_of pk db = filter (\<lambda>r. ck_session_pk r = pk) (context_checkpoints db)"

text \<open>\<open>COALESCE(MAX(seq),0)+1\<close> over the session's rows.\<close>

definition max_seq :: "turn_row list \<Rightarrow> int" where
  "max_seq rows = (if rows = [] then 0 else Max (set (map tr_seq rows)))"

definition insert_provider_turn ::
    "(json \<Rightarrow> string) \<Rightarrow> string \<Rightarrow> string \<Rightarrow> json \<Rightarrow> ledger_db \<Rightarrow> int \<times> ledger_db" where
  "insert_provider_turn pr pk role payload db =
     (let seq = max_seq (turns_of pk db) + 1
      in (seq, db\<lparr>provider_turns := provider_turns db @
            [\<lparr>tr_session_pk = pk, tr_seq = seq, tr_role = role, tr_payload = pr payload\<rparr>]\<rparr>))"

definition insert_context_checkpoint ::
    "(json \<Rightarrow> string) \<Rightarrow> string \<Rightarrow> int \<Rightarrow> int \<Rightarrow> json \<Rightarrow> ledger_db \<Rightarrow> ledger_db" where
  "insert_context_checkpoint pr pk boundary window payload db =
     db\<lparr>context_checkpoints := context_checkpoints db @
          [\<lparr>ck_session_pk = pk, ck_boundary_seq = boundary, ck_window_number = window,
            ck_payload = pr payload\<rparr>]\<rparr>"

text \<open>\<open>ORDER BY boundary_seq DESC, id DESC LIMIT 1\<close>: the greatest boundary, the last inserted.\<close>

definition latest_row :: "checkpoint_row list \<Rightarrow> checkpoint_row option" where
  "latest_row rows =
     foldl (\<lambda>best r. case best of
              None \<Rightarrow> Some r
            | Some b \<Rightarrow> if ck_boundary_seq b \<le> ck_boundary_seq r then Some r else Some b)
       None rows"

definition latest_context_checkpoint ::
    "(string \<Rightarrow> json option) \<Rightarrow> string \<Rightarrow> ledger_db \<Rightarrow> (int \<times> int \<times> json) option" where
  "latest_context_checkpoint pa pk db =
     map_option (\<lambda>r. (ck_boundary_seq r, ck_window_number r,
                      case pa (ck_payload r) of Some v \<Rightarrow> v | None \<Rightarrow> JNull))
       (latest_row (checkpoints_of pk db))"

definition list_provider_turns_after ::
    "(string \<Rightarrow> json option) \<Rightarrow> string \<Rightarrow> int \<Rightarrow> ledger_db \<Rightarrow> (int \<times> string \<times> json) list option" where
  "list_provider_turns_after pa pk after_seq db =
     those (map (\<lambda>r. map_option (\<lambda>v. (tr_seq r, tr_role r, v)) (pa (tr_payload r)))
       (sort_key tr_seq (filter (\<lambda>r. after_seq < tr_seq r) (turns_of pk db))))"

section \<open>The ledger\<close>

record ledger =
  l_session_pk :: string
  l_store :: bool
  l_turns :: "(int \<times> json) list"
  l_window_number :: nat

definition u32 :: "int \<Rightarrow> nat" where
  "u32 i = nat (i mod 2 ^ 32)"

definition message :: "string \<Rightarrow> json \<Rightarrow> json" where
  "message role content = JObj [(''content'', content), (''role'', JStr role)]"

definition load :: "(string \<Rightarrow> json option) \<Rightarrow> string \<Rightarrow> ledger_db \<Rightarrow> ledger_error + ledger" where
  "load pa pk db =
     (let (turns, window_number, after_seq) =
        (case latest_context_checkpoint pa pk db of
           Some (boundary, window, payload) \<Rightarrow>
             (map (Pair boundary) (case as_array payload of Some vs \<Rightarrow> vs | None \<Rightarrow> []),
              u32 window, boundary)
         | None \<Rightarrow> ([], 0, 0))
      in case list_provider_turns_after pa pk after_seq db of
           None \<Rightarrow> Inl BadPayload
         | Some ts \<Rightarrow>
             Inr \<lparr>l_session_pk = pk, l_store = True,
                  l_turns = turns @ map (\<lambda>(seq, role, v). (seq, message role v)) ts,
                  l_window_number = window_number\<rparr>)"

definition ephemeral :: "string \<Rightarrow> ledger" where
  "ephemeral pk = \<lparr>l_session_pk = pk, l_store = False, l_turns = [], l_window_number = 0\<rparr>"

definition seed_projected :: "string \<Rightarrow> json list \<Rightarrow> ledger" where
  "seed_projected pk msgs =
     \<lparr>l_session_pk = pk, l_store = False,
      l_turns = map (\<lambda>(i, msg). (int i + 1, msg)) (enumerate 0 msgs), l_window_number = 0\<rparr>"

definition last_seq :: "ledger \<Rightarrow> int" where
  "last_seq l = (if l_turns l = [] then 0 else fst (last (l_turns l)))"

text \<open>Appending writes the row first; \<open>ok\<close> says whether the store call succeeds.\<close>

definition append_turn ::
    "(json \<Rightarrow> string) \<Rightarrow> bool \<Rightarrow> string \<Rightarrow> json \<Rightarrow> ledger \<times> ledger_db
     \<Rightarrow> ledger_error + ledger \<times> ledger_db" where
  "append_turn pr ok role content s =
     (let (l, db) = s in
      if l_store l then
        (if \<not> ok then Inl StoreFailed
         else (let (seq, db') = insert_provider_turn pr (l_session_pk l) role content db
               in Inr (l\<lparr>l_turns := l_turns l @ [(seq, message role content)]\<rparr>, db')))
      else Inr (l\<lparr>l_turns := l_turns l @ [(last_seq l + 1, message role content)]\<rparr>, db))"

definition append_user ::
    "(json \<Rightarrow> string) \<Rightarrow> bool \<Rightarrow> json \<Rightarrow> ledger \<times> ledger_db \<Rightarrow> ledger_error + ledger \<times> ledger_db" where
  "append_user pr ok content s = append_turn pr ok ''user'' content s"

definition append_assistant ::
    "(json \<Rightarrow> string) \<Rightarrow> bool \<Rightarrow> json \<Rightarrow> ledger \<times> ledger_db \<Rightarrow> ledger_error + ledger \<times> ledger_db" where
  "append_assistant pr ok content s = append_turn pr ok ''assistant'' content s"

definition messages :: "ledger \<Rightarrow> json list" where
  "messages l = map snd (l_turns l)"

definition replace_all ::
    "(json \<Rightarrow> string) \<Rightarrow> bool \<Rightarrow> json list \<Rightarrow> ledger \<times> ledger_db
     \<Rightarrow> ledger_error + (ledger \<times> ledger_db) \<times> nat" where
  "replace_all pr ok replacement s =
     (let (l, db) = s;
          next_window = u32 (int (l_window_number l) + 1);
          boundary = last_seq l;
          l' = l\<lparr>l_window_number := next_window, l_turns := map (Pair boundary) replacement\<rparr>
      in if l_store l then
           (if \<not> ok then Inl StoreFailed
            else Inr ((l', insert_context_checkpoint pr (l_session_pk l) boundary
                         (int next_window) (JArr replacement) db), next_window))
         else Inr ((l', db), next_window))"

section \<open>Repairing tool calls\<close>

datatype native_tools_version = V1 | V2

text \<open>The identifiers and names of the tool calls of \<open>msg\<close> without a result in \<open>nxt\<close>.\<close>

definition tool_uses :: "json list \<Rightarrow> (string \<times> string) list" where
  "tool_uses blocks =
     List.map_filter
       (\<lambda>b. map_option (\<lambda>i. (i, case as_str (jidx b ''name'') of Some n \<Rightarrow> n | None \<Rightarrow> ''unknown''))
              (as_str (jidx b ''id'')))
       (filter (\<lambda>b. jidx b ''type'' = JStr ''tool_use'') blocks)"

definition tool_results :: "json \<Rightarrow> string list" where
  "tool_results msg =
     (if jidx msg ''role'' \<noteq> JStr ''user'' then []
      else case as_array (jidx msg ''content'') of
             None \<Rightarrow> []
           | Some blocks \<Rightarrow>
               List.map_filter (\<lambda>b. as_str (jidx b ''tool_use_id''))
                 (filter (\<lambda>b. jidx b ''type'' = JStr ''tool_result'') blocks))"

definition missing_tool_results :: "json \<Rightarrow> json option \<Rightarrow> (string \<times> string) list" where
  "missing_tool_results msg nxt =
     (if jidx msg ''role'' \<noteq> JStr ''assistant'' then []
      else case as_array (jidx msg ''content'') of
             None \<Rightarrow> []
           | Some blocks \<Rightarrow>
               filter (\<lambda>(i, _). i \<notin> set (case nxt of None \<Rightarrow> [] | Some n \<Rightarrow> tool_results n))
                 (tool_uses blocks))"

definition repair_block :: "(string \<Rightarrow> string) \<Rightarrow> native_tools_version \<Rightarrow> string \<times> string \<Rightarrow> json" where
  "repair_block v2_text version call =
     JObj [(''content'', JStr (if version = V2 then v2_text (snd call) else ''interrupted'')),
           (''is_error'', JBool True),
           (''tool_use_id'', JStr (fst call)),
           (''type'', JStr ''tool_result'')]"

text \<open>The loop over the messages: a repaired neighbour is consumed with its predecessor.\<close>

fun sanitize_tool_pairing ::
    "(string \<Rightarrow> string) \<Rightarrow> native_tools_version \<Rightarrow> json list \<Rightarrow> json list" where
  "sanitize_tool_pairing v2 version [] = []"
| "sanitize_tool_pairing v2 version [m] =
     (let dangling = missing_tool_results m None
      in if dangling = [] then [m]
         else [m, message ''user'' (JArr (map (repair_block v2 version) dangling))])"
| "sanitize_tool_pairing v2 version (m # n # ms) =
     (let dangling = missing_tool_results m (Some n);
          synthesized = map (repair_block v2 version) dangling
      in if dangling = [] then m # sanitize_tool_pairing v2 version (n # ms)
         else if jidx n ''role'' = JStr ''user'' \<and> as_array (jidx n ''content'') \<noteq> None
         then m # jset ''content''
                    (JArr (synthesized @ the (as_array (jidx n ''content'')))) n
                # sanitize_tool_pairing v2 version ms
         else m # message ''user'' (JArr synthesized)
                # sanitize_tool_pairing v2 version (n # ms))"

definition messages_for_request ::
    "(string \<Rightarrow> string) \<Rightarrow> native_tools_version \<Rightarrow> ledger \<Rightarrow> json list" where
  "messages_for_request v2 version l = sanitize_tool_pairing v2 version (messages l)"

section \<open>Lemmas on the repair\<close>


definition is_assistant :: "json \<Rightarrow> bool" where
  "is_assistant m \<longleftrightarrow> jidx m ''role'' = JStr ''assistant''"

lemma missing_not_assistant [simp]: "\<not> is_assistant m \<Longrightarrow> missing_tool_results m nxt = []"
  by (simp add: missing_tool_results_def is_assistant_def)

lemma is_assistant_user [simp]:
  "jidx m ''role'' = JStr ''user'' \<Longrightarrow> \<not> is_assistant m"
  "\<not> is_assistant (message ''user'' c)"
  by (simp_all add: is_assistant_def message_def)


lemma results_of_repairs [simp]:
  "List.map_filter (\<lambda>b. as_str (jidx b ''tool_use_id''))
     (filter (\<lambda>b. jidx b ''type'' = JStr ''tool_result'') (map (repair_block v2 version) calls)) =
   map fst calls"
  by (induction calls) (simp_all add: repair_block_def List.map_filter_def)

lemma tool_results_standalone [simp]:
  "tool_results (message ''user'' (JArr (map (repair_block v2 version) calls))) = map fst calls"
  by (simp add: tool_results_def message_def)








section \<open>The history survives a restart\<close>

text \<open>
  The steps of a session's ledger: its own appends and compactions (whose replacement is not
  empty), for payloads the printer and parser agree on, and the rows of other sessions.
\<close>

inductive ledger_step ::
    "(json \<Rightarrow> string) \<Rightarrow> (string \<Rightarrow> json option) \<Rightarrow> ledger \<times> ledger_db \<Rightarrow> ledger \<times> ledger_db \<Rightarrow> bool"
  for pr pa where
  append:
    "append_turn pr ok role content s = Inr s' \<Longrightarrow> pa (pr content) = Some content \<Longrightarrow>
     ledger_step pr pa s s'"
| compact:
    "replace_all pr ok replacement s = Inr (s', w) \<Longrightarrow> replacement \<noteq> [] \<Longrightarrow>
     pa (pr (JArr replacement)) = Some (JArr replacement) \<Longrightarrow> ledger_step pr pa s s'"
| other_turn:
    "pk \<noteq> l_session_pk l \<Longrightarrow>
     ledger_step pr pa (l, db) (l, snd (insert_provider_turn pr pk role v db))"
| other_checkpoint:
    "pk \<noteq> l_session_pk l \<Longrightarrow>
     ledger_step pr pa (l, db) (l, insert_context_checkpoint pr pk b w v db)"

definition new_session :: "ledger \<times> ledger_db \<Rightarrow> bool" where
  "new_session s \<longleftrightarrow>
     (\<exists>pk db. s = (\<lparr>l_session_pk = pk, l_store = True, l_turns = [], l_window_number = 0\<rparr>, db)
        \<and> turns_of pk db = [] \<and> checkpoints_of pk db = [])"

definition stored_turns :: "(string \<Rightarrow> json option) \<Rightarrow> turn_row list \<Rightarrow> (int \<times> json) list" where
  "stored_turns pa rows = map (\<lambda>r. (tr_seq r, message (tr_role r) (the (pa (tr_payload r))))) rows"

text \<open>The rows of a session are numbered from 1 and its memory is what the tables hold.\<close>

definition rows_ok :: "(string \<Rightarrow> json option) \<Rightarrow> turn_row list \<Rightarrow> bool" where
  "rows_ok pa rows \<longleftrightarrow>
     map tr_seq rows = map int [1..<Suc (length rows)] \<and> (\<forall>r \<in> set rows. pa (tr_payload r) \<noteq> None)"

definition checkpoint_ok ::
    "(string \<Rightarrow> json option) \<Rightarrow> ledger \<Rightarrow> turn_row list \<Rightarrow> checkpoint_row list \<Rightarrow> bool" where
  "checkpoint_ok pa l rows cks \<longleftrightarrow>
     (\<exists>old ck b replacement. cks = old @ [ck] \<and> (\<forall>c \<in> set old. ck_boundary_seq c \<le> ck_boundary_seq ck)
        \<and> ck_boundary_seq ck = int b \<and> b \<le> length rows
        \<and> pa (ck_payload ck) = Some (JArr replacement) \<and> replacement \<noteq> []
        \<and> u32 (ck_window_number ck) = l_window_number l
        \<and> l_turns l = map (Pair (int b)) replacement @ stored_turns pa (drop b rows))"

definition ledger_synced :: "(string \<Rightarrow> json option) \<Rightarrow> ledger \<times> ledger_db \<Rightarrow> bool" where
  "ledger_synced pa s \<longleftrightarrow>
     (let (l, db) = s; rows = turns_of (l_session_pk l) db; cks = checkpoints_of (l_session_pk l) db
      in l_store l \<and> rows_ok pa rows
         \<and> (cks = [] \<and> l_window_number l = 0 \<and> l_turns l = stored_turns pa rows
            \<or> checkpoint_ok pa l rows cks))"

lemma rows_ok_nth: "rows_ok pa rows \<Longrightarrow> i < length rows \<Longrightarrow> tr_seq (rows ! i) = int i + 1"
proof -
  assume "rows_ok pa rows" "i < length rows"
  then have "map tr_seq rows ! i = map int [1..<Suc (length rows)] ! i" by (simp add: rows_ok_def)
  then show ?thesis using \<open>i < length rows\<close> by (simp del: upt_Suc)
qed

lemma u32_u32 [simp]: "u32 (int (u32 i)) = u32 i"
  by (simp add: u32_def)

lemma rows_ok_snoc:
  "rows_ok pa (rows @ [r]) \<longleftrightarrow>
   rows_ok pa rows \<and> tr_seq r = int (length rows) + 1 \<and> pa (tr_payload r) \<noteq> None"
  by (auto simp: rows_ok_def)

lemma max_seq_rows: "rows_ok pa rows \<Longrightarrow> max_seq rows = int (length rows)"
proof (induction rows rule: rev_induct)
  case (snoc r rows)
  then have "rows_ok pa rows" and r: "tr_seq r = int (length rows) + 1"
    by (simp_all add: rows_ok_snoc)
  with snoc have "\<forall>x \<in> set rows. tr_seq x \<le> int (length rows)"
    by (auto simp: rows_ok_nth in_set_conv_nth)
  with r show ?case
    by (auto simp: max_seq_def intro!: Max_eqI)
qed (simp add: max_seq_def)

lemma filter_after: "rows_ok pa rows \<Longrightarrow> filter (\<lambda>r. int b < tr_seq r) rows = drop b rows"
proof (induction rows rule: rev_induct)
  case (snoc r rows)
  then show ?case by (auto simp: rows_ok_snoc)
qed simp

lemma rows_sorted: "rows_ok pa rows \<Longrightarrow> sorted (map tr_seq (drop b rows))"
proof -
  assume "rows_ok pa rows"
  then have "drop b (map tr_seq rows) = drop b (map int [1..<Suc (length rows)])"
    by (simp only: rows_ok_def)
  then have "map tr_seq (drop b rows) = map int (drop b [1..<Suc (length rows)])"
    by (simp only: drop_map)
  then show ?thesis by (simp add: sorted_map drop_upt del: upt_Suc)
qed

lemma list_turns_rows:
  assumes "rows_ok pa (turns_of pk db)"
  shows "list_provider_turns_after pa pk (int b) db =
     Some (map (\<lambda>r. (tr_seq r, tr_role r, the (pa (tr_payload r)))) (drop b (turns_of pk db)))"
proof -
  have "pa (tr_payload r) = Some (the (pa (tr_payload r)))" if "r \<in> set (drop b (turns_of pk db))" for r
    using assms in_set_dropD [OF that] by (auto simp: rows_ok_def)
  then show ?thesis
    unfolding list_provider_turns_after_def filter_after [OF assms]
      sort_key_sorted [OF rows_sorted [OF assms]]
    by (intro those_map) (metis option.map(2))
qed

lemma latest_row_mem: "latest_row rows = Some r \<Longrightarrow> r \<in> set rows"
  by (induction rows arbitrary: r rule: rev_induct)
    (auto simp: latest_row_def split: option.splits if_splits)

lemma latest_row_snoc:
  "\<forall>c \<in> set old. ck_boundary_seq c \<le> ck_boundary_seq ck \<Longrightarrow> latest_row (old @ [ck]) = Some ck"
  using latest_row_mem [of old] by (auto simp: latest_row_def split: option.splits)

lemma stored_turns_append [simp]:
  "stored_turns pa (xs @ ys) = stored_turns pa xs @ stored_turns pa ys"
  "stored_turns pa [] = []" "stored_turns pa xs = [] \<longleftrightarrow> xs = []"
  by (simp_all add: stored_turns_def)

lemma last_stored:
  "rows_ok pa rows \<Longrightarrow> drop b rows \<noteq> [] \<Longrightarrow>
   fst (last (stored_turns pa (drop b rows))) = int (length rows)"
  by (cases rows rule: rev_cases) (auto simp: stored_turns_def rows_ok_snoc)

lemma last_seq_synced:
  "ledger_synced pa (l, db) \<Longrightarrow> last_seq l = int (length (turns_of (l_session_pk l) db))"
proof -
  assume s: "ledger_synced pa (l, db)"
  let ?rows = "turns_of (l_session_pk l) db"
  have ok: "rows_ok pa ?rows" using s by (simp add: ledger_synced_def Let_def)
  consider "l_turns l = stored_turns pa ?rows"
    | b replacement where "b \<le> length ?rows" "replacement \<noteq> []"
      "l_turns l = map (Pair (int b)) replacement @ stored_turns pa (drop b ?rows)"
    using s by (auto simp: ledger_synced_def Let_def checkpoint_ok_def)
  then show ?thesis
  proof cases
    case 1
    then show ?thesis using last_stored [OF ok, of 0] by (auto simp: last_seq_def)
  next
    case 2
    then show ?thesis
      using last_stored [OF ok, of b] by (auto simp: last_seq_def last_append last_map)
  qed
qed

lemma load_synced: "ledger_synced pa (l, db) \<Longrightarrow> load pa (l_session_pk l) db = Inr l"
proof -
  assume s: "ledger_synced pa (l, db)"
  let ?pk = "l_session_pk l"
  let ?rows = "turns_of ?pk db" and ?cks = "checkpoints_of ?pk db"
  have ok: "rows_ok pa ?rows" and st: "l_store l" using s by (simp_all add: ledger_synced_def Let_def)
  have proj: "map (\<lambda>(seq, role, v). (seq, message role v))
      (map (\<lambda>r. (tr_seq r, tr_role r, the (pa (tr_payload r)))) rs) = stored_turns pa rs" for rs
    by (simp add: stored_turns_def)
  consider (none) "?cks = []" "l_window_number l = 0" "l_turns l = stored_turns pa ?rows"
    | (ck) "checkpoint_ok pa l ?rows ?cks"
    using s by (auto simp: ledger_synced_def Let_def)
  then show ?thesis
  proof cases
    case none
    then show ?thesis
      using list_turns_rows [OF ok, of 0] st
      by (simp add: load_def latest_context_checkpoint_def latest_row_def proj del: map_map)
  next
    case ck
    then obtain old ck b replacement where "?cks = old @ [ck]"
      "\<forall>c \<in> set old. ck_boundary_seq c \<le> ck_boundary_seq ck" "ck_boundary_seq ck = int b"
      "pa (ck_payload ck) = Some (JArr replacement)" "u32 (ck_window_number ck) = l_window_number l"
      "l_turns l = map (Pair (int b)) replacement @ stored_turns pa (drop b ?rows)"
      by (auto simp: checkpoint_ok_def)
    then show ?thesis
      using list_turns_rows [OF ok, of b] st
      by (simp add: load_def latest_context_checkpoint_def latest_row_snoc proj del: map_map)
  qed
qed

lemma turns_of_insert:
  "turns_of pk (snd (insert_provider_turn pr pk' role v db)) =
     turns_of pk db
     @ (if pk' = pk
        then [\<lparr>tr_session_pk = pk, tr_seq = max_seq (turns_of pk db) + 1, tr_role = role,
               tr_payload = pr v\<rparr>] else [])"
  "checkpoints_of pk (snd (insert_provider_turn pr pk' role v db)) = checkpoints_of pk db"
  by (auto simp: turns_of_def checkpoints_of_def insert_provider_turn_def Let_def)

lemma checkpoints_of_insert:
  "checkpoints_of pk (insert_context_checkpoint pr pk' b w v db) =
     checkpoints_of pk db
     @ (if pk' = pk
        then [\<lparr>ck_session_pk = pk, ck_boundary_seq = b, ck_window_number = w, ck_payload = pr v\<rparr>]
        else [])"
  "turns_of pk (insert_context_checkpoint pr pk' b w v db) = turns_of pk db"
  by (simp_all add: turns_of_def checkpoints_of_def insert_context_checkpoint_def)

lemma synced_append:
  assumes s: "ledger_synced pa (l, db)" and v: "pa (pr v) = Some v"
    and step: "append_turn pr ok role v (l, db) = Inr (l', db')"
  shows "ledger_synced pa (l', db')"
proof -
  let ?pk = "l_session_pk l"
  let ?rows = "turns_of ?pk db" and ?cks = "checkpoints_of ?pk db"
  let ?new = "\<lparr>tr_session_pk = ?pk, tr_seq = max_seq ?rows + 1, tr_role = role, tr_payload = pr v\<rparr>"
  have rok: "rows_ok pa ?rows" and st: "l_store l"
    using s by (simp_all add: ledger_synced_def Let_def)
  note n = max_seq_rows [OF rok]
  have db': "db' = snd (insert_provider_turn pr ?pk role v db)"
    and l': "l' = l\<lparr>l_turns := l_turns l @ [(max_seq ?rows + 1, message role v)]\<rparr>"
    using step st by (auto simp: append_turn_def insert_provider_turn_def Let_def split: if_splits)
  have rows': "turns_of ?pk db' = ?rows @ [?new]" and cks': "checkpoints_of ?pk db' = ?cks"
    by (simp_all add: db' turns_of_insert)
  have rok': "rows_ok pa (?rows @ [?new])" using rok n v by (simp add: rows_ok_snoc)
  have new: "stored_turns pa [?new] = [(max_seq ?rows + 1, message role v)]"
    using v by (simp add: stored_turns_def)
  show ?thesis
  proof (cases "checkpoint_ok pa l ?rows ?cks")
    case True
    then have "checkpoint_ok pa l' (?rows @ [?new]) ?cks"
      using new by (auto simp: checkpoint_ok_def l')
    then show ?thesis using rok' st rows' cks' by (simp add: ledger_synced_def l')
  next
    case False
    then have "?cks = []" "l_window_number l = 0" "l_turns l = stored_turns pa ?rows"
      using s by (simp_all add: ledger_synced_def Let_def)
    then show ?thesis using rok' st rows' cks' new by (simp add: ledger_synced_def l')
  qed
qed

lemma synced_compact:
  assumes s: "ledger_synced pa (l, db)" and ne: "replacement \<noteq> []"
    and v: "pa (pr (JArr replacement)) = Some (JArr replacement)"
    and step: "replace_all pr ok replacement (l, db) = Inr ((l', db'), w)"
  shows "ledger_synced pa (l', db')"
proof -
  let ?pk = "l_session_pk l"
  let ?rows = "turns_of ?pk db" and ?cks = "checkpoints_of ?pk db"
  let ?w = "u32 (int (l_window_number l) + 1)"
  let ?new = "\<lparr>ck_session_pk = ?pk, ck_boundary_seq = int (length ?rows),
      ck_window_number = int ?w, ck_payload = pr (JArr replacement)\<rparr>"
  have rok: "rows_ok pa ?rows" and st: "l_store l"
    using s by (simp_all add: ledger_synced_def Let_def)
  note last = last_seq_synced [OF s]
  have db': "db' = insert_context_checkpoint pr ?pk (int (length ?rows)) (int ?w)
      (JArr replacement) db"
    and l': "l' = l\<lparr>l_window_number := ?w, l_turns := map (Pair (int (length ?rows))) replacement\<rparr>"
    using step st last by (auto simp: replace_all_def Let_def split: if_splits)
  have bounds: "ck_boundary_seq c \<le> int (length ?rows)" if "c \<in> set ?cks" for c
    using s that by (fastforce simp: ledger_synced_def Let_def checkpoint_ok_def)
  have "checkpoint_ok pa l' ?rows (?cks @ [?new])"
    unfolding checkpoint_ok_def
    by (rule exI [of _ ?cks], rule exI [of _ ?new], rule exI [of _ "length ?rows"],
        rule exI [of _ replacement])
      (use bounds ne v in \<open>simp add: l'\<close>)
  moreover have "turns_of ?pk db' = ?rows" "checkpoints_of ?pk db' = ?cks @ [?new]"
    by (simp_all add: db' checkpoints_of_insert)
  ultimately show ?thesis using rok st by (simp add: ledger_synced_def l')
qed

interpretation durable_ledger: machine new_session "ledger_step pr pa" "ledger_synced pa"
  for pr :: "json \<Rightarrow> string" and pa :: "string \<Rightarrow> json option"
proof
  fix s s' :: "ledger \<times> ledger_db"
  show "ledger_synced pa s" if "new_session s"
    using that by (auto simp: new_session_def ledger_synced_def rows_ok_def)
  show "ledger_synced pa s'" if "ledger_synced pa s" "ledger_step pr pa s s'"
    using that(2,1)
  proof (cases rule: ledger_step.cases)
    case (append ok role content)
    then show ?thesis using that(1) synced_append by (metis prod.exhaust)
  next
    case (compact ok replacement w)
    then show ?thesis using that(1) synced_compact by (metis prod.exhaust)
  next
    case (other_turn pk l db role v)
    then show ?thesis using that(1) by (simp add: ledger_synced_def turns_of_insert Let_def)
  next
    case (other_checkpoint pk l db b w v)
    then show ?thesis using that(1) by (simp add: ledger_synced_def checkpoints_of_insert Let_def)
  qed
qed

section \<open>Properties\<close>

text \<open>C8: The history of a session survives a restart: after any sequence of appends and compactions
  (interleaved with those of other sessions, and with store calls that fail), loading the
  session from the database gives exactly the ledger held in memory: the same messages in the
  same order, with the latest compaction in place of what it replaced, and the same window
  number.\<close>

theorem ledger_survives_restart:
  assumes "reachable new_session (ledger_step pr pa) (l, db)"
  shows "load pa (l_session_pk l) db = Inr l"
  using load_synced [OF durable_ledger.reachable_inv [OF assms]] .

theorem ledger_survives_restart_witness:
  "let pr = (\<lambda>_. ''x''); pa = (\<lambda>_. Some (JArr [JNull]));
       s = (\<lparr>l_session_pk = ''s'', l_store = True, l_turns = [], l_window_number = 0\<rparr>,
            \<lparr>provider_turns = [], context_checkpoints = []\<rparr>)
   in case append_user pr True (JArr [JNull]) s of
        Inl _ \<Rightarrow> False
      | Inr (l, db) \<Rightarrow> load pa ''s'' db = Inr l \<and> messages l = [message ''user'' (JArr [JNull])]"
proof -
  let ?pr = "\<lambda>_ :: json. ''x''" and ?pa = "\<lambda>_ :: string. Some (JArr [JNull])"
  let ?l = "\<lparr>l_session_pk = ''s'', l_store = True, l_turns = [], l_window_number = 0\<rparr>"
  let ?db = "\<lparr>provider_turns = [], context_checkpoints = []\<rparr>"
  obtain l db where step: "append_turn ?pr True ''user'' (JArr [JNull]) (?l, ?db) = Inr (l, db)"
    and l: "l_session_pk l = ''s''" "messages l = [message ''user'' (JArr [JNull])]"
    by (simp add: append_turn_def insert_provider_turn_def Let_def messages_def)
  have "new_session (?l, ?db)" by (simp add: new_session_def turns_of_def checkpoints_of_def)
  then have "reachable new_session (ledger_step ?pr ?pa) (?l, ?db)" by (rule reachable.start)
  then have "reachable new_session (ledger_step ?pr ?pa) (l, db)"
    by (rule reachable.step) (rule ledger_step.append [OF step], simp)
  from ledger_survives_restart [OF this] show ?thesis
    using step l by (simp add: append_user_def Let_def)
qed


end
