(* ===== verification/RunStore.thy ===== *)
theory RunStore
  imports Domain Json
begin

text \<open>
  The table of agent runs (\<open>store.rs\<close>, with the row types of \<open>domain.rs\<close>): validated
  insertion, lookups, the recursive query for descendants, and the guarded status update.

  The table is the list of its rows in \<open>rowid\<close> order. The token counters and the cost columns,
  which no operation here reads, are left out of the row. Whether a call is refused is a value
  of \<open>run_error\<close>.
\<close>

section \<open>Rows\<close>

record new_agent_run =
  nr_run_id :: string
  nr_session_pk :: string
  nr_parent_run_id :: "string option"
  nr_retry_of :: "string option"
  nr_source_tool_call_id :: "string option"
  nr_dispatch_index :: "int option"
  nr_primary_agent_id :: string
  nr_executing_agent_id :: "string option"
  nr_executing_agent_name :: string
  nr_agent_kind :: agent_run_kind
  nr_task :: string
  nr_status :: agent_run_status
  nr_resolved_model :: "string option"
  nr_resolved_effort :: "string option"

record agent_run =
  ar_run_id :: string
  ar_session_pk :: string
  ar_parent_run_id :: "string option"
  ar_retry_of :: "string option"
  ar_source_tool_call_id :: "string option"
  ar_dispatch_index :: "int option"
  ar_primary_agent_id :: string
  ar_executing_agent_id :: "string option"
  ar_executing_agent_name :: string
  ar_agent_kind :: agent_run_kind
  ar_task :: string
  ar_status :: agent_run_status
  ar_started_at :: "int option"
  ar_finished_at :: "int option"
  ar_tool_count :: nat
  ar_resolved_model :: "string option"
  ar_resolved_effort :: "string option"
  ar_result :: "string option"
  ar_error :: "string option"

datatype run_error =
    BadDispatchLinkage
  | PrimaryWithDispatch
  | PrimaryNotRoot
  | ParentlessChild
  | ParentNotFound
  | ParentOfAnotherRoot
  | RetryNotFound
  | RetryLinkage
  | RetryStatus
  | RetryBranch
  | DuplicateRunId
  | UnknownRun
  | NotActivatable
  | UnresolvedAgent
  | AncestryCycle
  | DepthExceeded
  | CapacityExceeded
  | NotACancellableChild
  | NotARetryableChild
  | NotARoot
  | AncestryIncomplete
  | WalkDiverges

section \<open>Insertion\<close>

definition find_run :: "string \<Rightarrow> agent_run list \<Rightarrow> agent_run option" where
  "find_run run_id db = find (\<lambda>r. ar_run_id r = run_id) db"

definition dispatch_ok :: "string option \<Rightarrow> int option \<Rightarrow> bool" where
  "dispatch_ok source index =
     (case (source, index) of
        (None, None) \<Rightarrow> True
      | (Some src, Some i) \<Rightarrow> trim src \<noteq> [] \<and> 0 \<le> i
      | _ \<Rightarrow> False)"

definition retryable :: "agent_run_status \<Rightarrow> bool" where
  "retryable st \<longleftrightarrow> st = RFailed \<or> st = RCancelled \<or> st = RInterrupted"

definition validate_retry :: "agent_run list \<Rightarrow> new_agent_run \<Rightarrow> run_error + unit" where
  "validate_retry db run =
     (case nr_retry_of run of
        None \<Rightarrow> Inr ()
      | Some retry_of \<Rightarrow>
          (case find_run retry_of db of
             None \<Rightarrow> Inl RetryNotFound
           | Some retry \<Rightarrow>
               if ar_session_pk retry \<noteq> nr_session_pk run
                  \<or> ar_parent_run_id retry \<noteq> nr_parent_run_id run
                  \<or> ar_primary_agent_id retry \<noteq> nr_primary_agent_id run
                  \<or> ar_source_tool_call_id retry \<noteq> nr_source_tool_call_id run
                  \<or> ar_dispatch_index retry \<noteq> nr_dispatch_index run
               then Inl RetryLinkage
               else if \<not> retryable (ar_status retry) then Inl RetryStatus
               else if list_ex (\<lambda>r. ar_retry_of r = Some retry_of) db then Inl RetryBranch
               else Inr ()))"

definition validate_agent_run ::
    "agent_run list \<Rightarrow> new_agent_run \<Rightarrow> bool \<Rightarrow> run_error + unit" where
  "validate_agent_run db run root =
     (if \<not> dispatch_ok (nr_source_tool_call_id run) (nr_dispatch_index run)
      then Inl BadDispatchLinkage
      else if root \<and> (nr_source_tool_call_id run \<noteq> None \<or> nr_dispatch_index run \<noteq> None)
      then Inl PrimaryWithDispatch
      else if root then
        (if nr_agent_kind run \<noteq> Primary \<or> nr_parent_run_id run \<noteq> None \<or> nr_retry_of run \<noteq> None
         then Inl PrimaryNotRoot else Inr ())
      else (case nr_parent_run_id run of
          None \<Rightarrow> Inl ParentlessChild
        | Some parent_id \<Rightarrow>
            if nr_agent_kind run = Primary then Inl ParentlessChild
            else (case find_run parent_id db of
                None \<Rightarrow> Inl ParentNotFound
              | Some parent \<Rightarrow>
                  if ar_session_pk parent \<noteq> nr_session_pk run
                     \<or> ar_primary_agent_id parent \<noteq> nr_primary_agent_id run
                  then Inl ParentOfAnotherRoot
                  else validate_retry db run)))"

definition stored_row :: "new_agent_run \<Rightarrow> agent_run" where
  "stored_row run =
     \<lparr>ar_run_id = nr_run_id run, ar_session_pk = nr_session_pk run,
      ar_parent_run_id = nr_parent_run_id run, ar_retry_of = nr_retry_of run,
      ar_source_tool_call_id = nr_source_tool_call_id run,
      ar_dispatch_index = nr_dispatch_index run, ar_primary_agent_id = nr_primary_agent_id run,
      ar_executing_agent_id = nr_executing_agent_id run,
      ar_executing_agent_name = nr_executing_agent_name run, ar_agent_kind = nr_agent_kind run,
      ar_task = nr_task run, ar_status = nr_status run, ar_started_at = None,
      ar_finished_at = None, ar_tool_count = 0, ar_resolved_model = nr_resolved_model run,
      ar_resolved_effort = nr_resolved_effort run, ar_result = None, ar_error = None\<rparr>"

text \<open>The primary key of the table refuses a second row with the same identifier.\<close>

definition insert_agent_run_row ::
    "agent_run list \<Rightarrow> new_agent_run \<Rightarrow> run_error + agent_run \<times> agent_run list" where
  "insert_agent_run_row db run =
     (if find_run (nr_run_id run) db \<noteq> None then Inl DuplicateRunId
      else Inr (stored_row run, db @ [stored_row run]))"

definition insert_run ::
    "bool \<Rightarrow> agent_run list \<Rightarrow> new_agent_run \<Rightarrow> run_error + agent_run \<times> agent_run list" where
  "insert_run root db run =
     (case validate_agent_run db run root of
        Inl e \<Rightarrow> Inl e
      | Inr _ \<Rightarrow> insert_agent_run_row db run)"

definition insert_primary_agent_run ::
    "agent_run list \<Rightarrow> new_agent_run \<Rightarrow> run_error + agent_run \<times> agent_run list" where
  "insert_primary_agent_run db run = insert_run True db run"

definition insert_agent_run ::
    "agent_run list \<Rightarrow> new_agent_run \<Rightarrow> run_error + agent_run \<times> agent_run list" where
  "insert_agent_run db run = insert_run False db run"

section \<open>Queries\<close>

definition get_agent_run :: "agent_run list \<Rightarrow> string \<Rightarrow> agent_run option" where
  "get_agent_run db run_id = find_run run_id db"

definition list_session_agent_runs :: "agent_run list \<Rightarrow> string \<Rightarrow> agent_run list" where
  "list_session_agent_runs db session_pk = filter (\<lambda>r. ar_session_pk r = session_pk) db"

definition children_of :: "agent_run list \<Rightarrow> string \<Rightarrow> agent_run list" where
  "children_of db run_id = filter (\<lambda>r. ar_parent_run_id r = Some run_id) db"

text \<open>
  The recursive query: the children of the root, then repeatedly the children of the rows
  found last. \<open>n\<close> bounds the number of rounds; the number of rows is enough, as the parents
  form no cycle (\<open>level_empty\<close> below).
\<close>

definition next_level :: "agent_run list \<Rightarrow> agent_run list \<Rightarrow> agent_run list" where
  "next_level db level = concat (map (\<lambda>p. children_of db (ar_run_id p)) level)"

fun descendant_levels :: "nat \<Rightarrow> agent_run list \<Rightarrow> agent_run list \<Rightarrow> agent_run list" where
  "descendant_levels 0 db level = []"
| "descendant_levels (Suc n) db level = level @ descendant_levels n db (next_level db level)"

text \<open>\<open>ORDER BY started_at, run_id\<close>, where no value sorts first.\<close>

definition started_key :: "agent_run \<Rightarrow> (nat \<times> int) \<times> string" where
  "started_key r =
     ((case ar_started_at r of None \<Rightarrow> (0, 0) | Some t \<Rightarrow> (1, t)), ar_run_id r)"

definition list_descendant_agent_runs :: "agent_run list \<Rightarrow> string \<Rightarrow> agent_run list" where
  "list_descendant_agent_runs db root_run_id =
     sort_key started_key (descendant_levels (length db) db (children_of db root_run_id))"

section \<open>Updates\<close>

definition transition_row ::
    "int \<Rightarrow> agent_run_status \<Rightarrow> string option \<Rightarrow> string option \<Rightarrow> agent_run \<Rightarrow> agent_run" where
  "transition_row now to result err r =
     r\<lparr>ar_status := to,
       ar_started_at := (if to = RRunning \<and> ar_started_at r = None then Some now
                         else ar_started_at r),
       ar_finished_at := (if is_terminal to \<and> ar_finished_at r = None then Some now
                          else ar_finished_at r),
       ar_result := result, ar_error := err\<rparr>"

text \<open>The update of the rows the condition selects, and whether it updated one row.\<close>

definition transition_agent_run ::
    "int \<Rightarrow> agent_run list \<Rightarrow> string \<Rightarrow> agent_run_status list \<Rightarrow> agent_run_status \<Rightarrow> string option
     \<Rightarrow> string option \<Rightarrow> agent_run list \<times> bool" where
  "transition_agent_run now db run_id allowed_from to result err =
     (let sel = (\<lambda>r. ar_run_id r = run_id \<and> List.member allowed_from (ar_status r)
                     \<and> \<not> is_terminal (ar_status r))
      in (map (\<lambda>r. if sel r then transition_row now to result err r else r) db,
          length (filter sel db) = 1))"

definition increment_agent_run_tool_count ::
    "agent_run list \<Rightarrow> string \<Rightarrow> run_error + agent_run list" where
  "increment_agent_run_tool_count db run_id =
     (if find_run run_id db = None then Inl UnknownRun
      else Inr (map (\<lambda>r. if ar_run_id r = run_id then r\<lparr>ar_tool_count := ar_tool_count r + 1\<rparr>
                         else r) db))"

definition interrupted_row :: "int \<Rightarrow> string \<Rightarrow> agent_run \<Rightarrow> agent_run" where
  "interrupted_row now reason r =
     r\<lparr>ar_status := RInterrupted, ar_finished_at := Some now, ar_error := Some reason\<rparr>"

definition interrupt_incomplete_agent_runs ::
    "int \<Rightarrow> agent_run list \<Rightarrow> string \<Rightarrow> agent_run list \<times> agent_run list" where
  "interrupt_incomplete_agent_runs now db reason =
     (map (\<lambda>r. if is_active (ar_status r) then interrupted_row now reason r else r) db,
      map (interrupted_row now reason) (filter (\<lambda>r. is_active (ar_status r)) db))"

section \<open>The forest of runs\<close>

text \<open>
  The runs from one up to its root. The recursion is on the table with the newest row first: a
  parent is an earlier row.
\<close>

fun lineage :: "agent_run list \<Rightarrow> string \<Rightarrow> agent_run list" where
  "lineage [] run_id = []"
| "lineage (r # rs) run_id =
     (if ar_run_id r = run_id
      then r # (case ar_parent_run_id r of None \<Rightarrow> [] | Some p \<Rightarrow> lineage rs p)
      else lineage rs run_id)"

definition row_ok :: "agent_run list \<Rightarrow> agent_run \<Rightarrow> bool" where
  "row_ok older r \<longleftrightarrow>
     ar_run_id r \<notin> ar_run_id ` set older
     \<and> (case ar_parent_run_id r of
          None \<Rightarrow> ar_agent_kind r = Primary
        | Some pid \<Rightarrow> ar_agent_kind r \<noteq> Primary
            \<and> (\<exists>p \<in> set older. ar_run_id p = pid \<and> ar_session_pk p = ar_session_pk r
                 \<and> ar_primary_agent_id p = ar_primary_agent_id r))"

fun wf_rows :: "agent_run list \<Rightarrow> bool" where
  "wf_rows [] \<longleftrightarrow> True"
| "wf_rows (r # rs) \<longleftrightarrow> wf_rows rs \<and> row_ok rs r"

lemma wf_rows_distinct: "wf_rows rs \<Longrightarrow> distinct (map ar_run_id rs)"
  by (induction rs) (auto simp: row_ok_def)

lemma wf_rows_parent:
  "wf_rows rs \<Longrightarrow> r \<in> set rs \<Longrightarrow> ar_parent_run_id r = Some pid \<Longrightarrow>
   \<exists>p \<in> set rs. ar_run_id p = pid \<and> ar_session_pk p = ar_session_pk r
     \<and> ar_primary_agent_id p = ar_primary_agent_id r"
  by (induction rs) (auto simp: row_ok_def)

lemma find_run_iff:
  "distinct (map ar_run_id db) \<Longrightarrow> find_run i db = Some r \<longleftrightarrow> r \<in> set db \<and> ar_run_id r = i"
  unfolding find_run_def by (induction db) (auto simp: image_iff)

lemma find_run_None: "find_run i db = None \<longleftrightarrow> i \<notin> ar_run_id ` set db"
  by (auto simp: find_run_def find_None_iff)

lemma find_run_SomeD: "find_run i db = Some r \<Longrightarrow> r \<in> set db \<and> ar_run_id r = i"
  by (auto simp: find_run_def find_Some_iff)

lemma lineage_unfold:
  "wf_rows rs \<Longrightarrow> r \<in> set rs \<Longrightarrow>
   lineage rs (ar_run_id r) =
     r # (case ar_parent_run_id r of None \<Rightarrow> [] | Some p \<Rightarrow> lineage rs p)"
proof (induction rs)
  case (Cons x rs)
  have old: "lineage (x # rs) p = lineage rs p" if "r' \<in> set rs" "ar_parent_run_id r' = Some p" for r' p
    using Cons.prems that wf_rows_parent [of rs r' p] by (auto simp: row_ok_def)
  have new: "lineage (x # rs) p = lineage rs p" if "ar_parent_run_id x = Some p" for p
    using Cons.prems that by (auto simp: row_ok_def)
  show ?case
  proof (cases "r = x")
    case True
    then show ?thesis using new by (auto split: option.split)
  next
    case False
    then have "r \<in> set rs" using Cons.prems by simp
    moreover from this have "ar_run_id x \<noteq> ar_run_id r"
      using Cons.prems by (auto simp: row_ok_def)
    ultimately show ?thesis using Cons old by (auto split: option.split)
  qed
qed simp

lemma lineage_Nil_iff: "lineage rs i = [] \<longleftrightarrow> i \<notin> ar_run_id ` set rs"
  by (induction rs) auto

lemma set_lineage: "set (lineage rs i) \<subseteq> set rs"
proof (induction rs i rule: lineage.induct)
  case (2 r rs i)
  then show ?case by (cases "ar_parent_run_id r") auto
qed simp

lemma distinct_lineage: "wf_rows rs \<Longrightarrow> distinct (map ar_run_id (lineage rs i))"
proof (induction rs i rule: lineage.induct)
  case (2 r rs i)
  have "ar_run_id r \<notin> ar_run_id ` set (lineage rs p)" for p
    using 2(3) set_lineage [of rs p] by (auto simp: row_ok_def)
  then show ?case using 2 by (auto split: option.splits)
qed simp

lemma length_lineage: "length (lineage rs i) \<le> length rs"
  by (induction rs i rule: lineage.induct) (auto split: option.splits simp: le_SucI)

lemma hd_lineage: "i \<in> ar_run_id ` set rs \<Longrightarrow> lineage rs i \<noteq> [] \<and> ar_run_id (hd (lineage rs i)) = i"
  by (induction rs) auto

lemma lineage_same_tree:
  "wf_rows rs \<Longrightarrow> x \<in> set (lineage rs i) \<Longrightarrow> r \<in> set rs \<Longrightarrow> ar_run_id r = i \<Longrightarrow>
   ar_session_pk x = ar_session_pk r \<and> ar_primary_agent_id x = ar_primary_agent_id r"
proof (induction rs i arbitrary: r rule: lineage.induct)
  case (2 y rs i)
  show ?case
  proof (cases "ar_run_id y = i")
    case True
    have "ar_run_id y \<notin> ar_run_id ` set rs" using 2(3) by (simp add: row_ok_def)
    then have "r \<notin> set rs" using 2(6) True by (metis imageI)
    with 2(5) have r: "r = y" by simp
    show ?thesis
    proof (cases "x = y")
      case False
      then obtain p where p: "ar_parent_run_id y = Some p" "x \<in> set (lineage rs p)"
        using 2(4) True by (cases "ar_parent_run_id y") auto
      then obtain q where "q \<in> set rs" "ar_run_id q = p" "ar_session_pk q = ar_session_pk y"
          "ar_primary_agent_id q = ar_primary_agent_id y"
        using 2(3) by (auto simp: row_ok_def)
      then show ?thesis using 2(1) [OF True p(1) _ p(2)] 2(3) r by auto
    qed (simp add: r)
  next
    case False
    then show ?thesis using 2(2-) by auto
  qed
qed simp

subsection \<open>Descendants\<close>

definition is_descendant :: "agent_run list \<Rightarrow> string \<Rightarrow> agent_run \<Rightarrow> bool" where
  "is_descendant db root r \<longleftrightarrow> root \<in> ar_run_id ` set (tl (lineage (rev db) (ar_run_id r)))"

definition at_depth :: "agent_run list \<Rightarrow> string \<Rightarrow> nat \<Rightarrow> agent_run \<Rightarrow> bool" where
  "at_depth db root k r \<longleftrightarrow>
     r \<in> set db \<and> Suc k < length (lineage (rev db) (ar_run_id r))
     \<and> ar_run_id (lineage (rev db) (ar_run_id r) ! Suc k) = root"

lemma at_depth_0:
  assumes "wf_rows (rev db)"
  shows "at_depth db root 0 r \<longleftrightarrow> r \<in> set (children_of db root)"
proof (cases "r \<in> set db")
  case True
  then have u: "lineage (rev db) (ar_run_id r) =
      r # (case ar_parent_run_id r of None \<Rightarrow> [] | Some p \<Rightarrow> lineage (rev db) p)"
    using lineage_unfold [OF assms] by simp
  show ?thesis
  proof (cases "ar_parent_run_id r")
    case None
    then show ?thesis using u by (simp add: at_depth_def children_of_def)
  next
    case (Some p)
    then have "p \<in> ar_run_id ` set (rev db)" using wf_rows_parent [OF assms] True by fastforce
    then show ?thesis
      using u Some True hd_lineage [of p "rev db"] hd_conv_nth [of "lineage (rev db) p"]
      by (simp add: at_depth_def children_of_def)
  qed
qed (simp add: at_depth_def children_of_def)

lemma at_depth_Suc:
  assumes "wf_rows (rev db)"
  shows "at_depth db root (Suc k) r \<longleftrightarrow>
    r \<in> set db \<and> (\<exists>p. at_depth db root k p \<and> ar_parent_run_id r = Some (ar_run_id p))"
proof (cases "r \<in> set db")
  case True
  then have u: "lineage (rev db) (ar_run_id r) =
      r # (case ar_parent_run_id r of None \<Rightarrow> [] | Some p \<Rightarrow> lineage (rev db) p)"
    using lineage_unfold [OF assms] by simp
  show ?thesis
  proof (cases "ar_parent_run_id r")
    case None
    then show ?thesis using u by (simp add: at_depth_def)
  next
    case (Some pid)
    then obtain q where q: "q \<in> set db" "ar_run_id q = pid"
      using wf_rows_parent [OF assms, of r pid] True Some by auto
    have "at_depth db root (Suc k) r \<longleftrightarrow> at_depth db root k q"
      using u Some True q by (simp add: at_depth_def)
    moreover have "at_depth db root k q" if "at_depth db root k p" "ar_run_id p = pid" for p
      using that q by (simp add: at_depth_def)
    ultimately show ?thesis using Some True q by (metis option.inject)
  qed
qed (simp add: at_depth_def)

lemma set_level:
  assumes "wf_rows (rev db)"
  shows "set ((next_level db ^^ k) (children_of db root)) = {r. at_depth db root k r}"
proof (induction k)
  case 0
  then show ?case using at_depth_0 [OF assms] by auto
next
  case (Suc k)
  then show ?case
    by (auto simp: next_level_def at_depth_Suc [OF assms] children_of_def)
qed

lemma distinct_next_level:
  assumes "distinct (map ar_run_id db)" "distinct (map ar_run_id level)"
  shows "distinct (next_level db level)"
  using assms(2)
proof (induction level)
  case (Cons p level)
  moreover have "distinct (children_of db (ar_run_id p))"
    using assms(1) by (simp add: children_of_def distinct_map)
  ultimately show ?case by (auto simp: next_level_def children_of_def image_iff)
qed (simp add: next_level_def)

lemma distinct_level:
  assumes "wf_rows (rev db)"
  shows "distinct ((next_level db ^^ k) (children_of db root))"
proof -
  have d: "distinct (map ar_run_id db)"
    using wf_rows_distinct [OF assms] by (simp add: rev_map [symmetric])
  have ids: "distinct (map ar_run_id xs)" if "distinct xs" "set xs \<subseteq> set db" for xs
    using that d by (auto simp: distinct_map intro: inj_on_subset)
  show ?thesis
  proof (induction k)
    case 0
    then show ?case using d by (simp add: children_of_def distinct_map)
  next
    case (Suc k)
    have "set ((next_level db ^^ k) (children_of db root)) \<subseteq> set db"
      by (auto simp: set_level [OF assms] at_depth_def)
    then show ?case using distinct_next_level [OF d] ids [OF Suc] by simp
  qed
qed

lemma at_depth_bound: "at_depth db root k r \<Longrightarrow> Suc k < length db"
  using length_lineage [of "rev db" "ar_run_id r"] by (simp add: at_depth_def)

lemma at_depth_unique:
  assumes "wf_rows (rev db)" "at_depth db root j r" "at_depth db root k r"
  shows "j = k"
proof -
  let ?l = "map ar_run_id (lineage (rev db) (ar_run_id r))"
  have "?l ! Suc j = ?l ! Suc k" "Suc j < length ?l" "Suc k < length ?l"
    using assms(2,3) by (simp_all add: at_depth_def)
  then show ?thesis
    using nth_eq_iff_index_eq [OF distinct_lineage [OF assms(1)], of "Suc j" _ "Suc k"] by simp
qed

lemma descendant_levels_concat:
  "descendant_levels n db level = concat (map (\<lambda>k. (next_level db ^^ k) level) [0..<n])"
proof (induction n arbitrary: level)
  case (Suc n)
  have "[0..<Suc n] = 0 # map Suc [0..<n]" by (simp add: map_Suc_upt upt_conv_Cons)
  then show ?case by (simp add: Suc comp_def funpow_swap1 del: upt_Suc)
qed simp

lemma is_descendant_iff:
  "r \<in> set db \<Longrightarrow> is_descendant db root r \<longleftrightarrow> (\<exists>k < length db. at_depth db root k r)"
proof -
  assume r: "r \<in> set db"
  have "is_descendant db root r \<longleftrightarrow> (\<exists>k. at_depth db root k r)"
  proof
    assume "is_descendant db root r"
    then obtain x where "x \<in> set (tl (lineage (rev db) (ar_run_id r)))" "ar_run_id x = root"
      by (auto simp: is_descendant_def)
    then obtain k where "k < length (tl (lineage (rev db) (ar_run_id r)))"
        "ar_run_id (tl (lineage (rev db) (ar_run_id r)) ! k) = root"
      by (metis in_set_conv_nth)
    then have "at_depth db root k r" using r by (simp add: at_depth_def nth_tl)
    then show "\<exists>k. at_depth db root k r" ..
  next
    assume "\<exists>k. at_depth db root k r"
    then obtain k where k: "Suc k < length (lineage (rev db) (ar_run_id r))"
        "ar_run_id (lineage (rev db) (ar_run_id r) ! Suc k) = root"
      by (auto simp: at_depth_def)
    then have "tl (lineage (rev db) (ar_run_id r)) ! k \<in> set (tl (lineage (rev db) (ar_run_id r)))"
      by (intro nth_mem) simp
    with k show "is_descendant db root r" by (auto simp: is_descendant_def nth_tl)
  qed
  then show ?thesis using at_depth_bound by (metis Suc_lessD)
qed

text \<open>The query returns exactly the descendants, each once.\<close>

lemma mset_descendants:
  assumes "wf_rows (rev db)"
  shows "mset (list_descendant_agent_runs db root) = mset (filter (is_descendant db root) db)"
proof -
  let ?lv = "\<lambda>k. (next_level db ^^ k) (children_of db root)"
  have "distinct (concat (map ?lv [0..<n]))" for n
  proof (induction n)
    case (Suc n)
    have "x \<notin> set (?lv n)" if "k < n" "x \<in> set (?lv k)" for k x
    proof
      assume "x \<in> set (?lv n)"
      with that(2) have "at_depth db root n x" "at_depth db root k x"
        by (simp_all add: set_level [OF assms])
      with at_depth_unique [OF assms] that(1) show False by blast
    qed
    then have "set (concat (map ?lv [0..<n])) \<inter> set (?lv n) = {}" by auto
    then show ?case using Suc distinct_level [OF assms, of n root] by simp
  qed simp
  moreover have "distinct db" using wf_rows_distinct [OF assms] by (simp add: rev_map [symmetric] distinct_map)
  moreover have "set (concat (map ?lv [0..<length db])) = {r \<in> set db. is_descendant db root r}"
  proof -
    have mem: "r \<in> set db" if "at_depth db root k r" for k r
      using that by (simp add: at_depth_def)
    have "set (concat (map ?lv [0..<length db])) = {r. \<exists>k < length db. at_depth db root k r}"
      by (auto simp: set_level [OF assms])
    also have "\<dots> = {r \<in> set db. is_descendant db root r}"
      using is_descendant_iff [of _ db root] mem by blast
    finally show ?thesis .
  qed
  ultimately have "mset (concat (map ?lv [0..<length db])) = mset (filter (is_descendant db root) db)"
    by (subst set_eq_iff_mset_eq_distinct [symmetric]) simp_all
  then show ?thesis by (simp add: list_descendant_agent_runs_def descendant_levels_concat)
qed

lemma level_empty:
  assumes "wf_rows (rev db)"
  shows "(next_level db ^^ length db) (children_of db root) = []"
  using set_level [OF assms, of "length db" root] at_depth_bound [of db root "length db"]
  by fastforce

subsection \<open>What keeps the forest\<close>

text \<open>The part of a row that no update changes.\<close>

definition skeleton ::
    "agent_run \<Rightarrow> string \<times> string option \<times> string \<times> string \<times> agent_run_kind \<times> string option
      \<times> string option" where
  "skeleton r = (ar_run_id r, ar_parent_run_id r, ar_session_pk r, ar_primary_agent_id r,
                 ar_agent_kind r, ar_executing_agent_id r, ar_retry_of r)"

definition keeps_skeleton :: "(agent_run \<Rightarrow> agent_run) \<Rightarrow> bool" where
  "keeps_skeleton f \<longleftrightarrow> (\<forall>r. skeleton (f r) = skeleton r)"

lemma keeps_skeletonD:
  assumes "keeps_skeleton f"
  shows "ar_run_id (f r) = ar_run_id r" "ar_parent_run_id (f r) = ar_parent_run_id r"
    "ar_session_pk (f r) = ar_session_pk r" "ar_primary_agent_id (f r) = ar_primary_agent_id r"
    "ar_agent_kind (f r) = ar_agent_kind r"
    "ar_executing_agent_id (f r) = ar_executing_agent_id r" "ar_retry_of (f r) = ar_retry_of r"
  using assms by (simp_all add: keeps_skeleton_def skeleton_def)

lemma lineage_map: "keeps_skeleton f \<Longrightarrow> lineage (map f rs) i = map f (lineage rs i)"
  by (induction rs i rule: lineage.induct) (auto simp: keeps_skeletonD split: option.split)

lemma wf_rows_map: "keeps_skeleton f \<Longrightarrow> wf_rows (map f rs) = wf_rows rs"
  by (induction rs)
    (simp_all add: row_ok_def keeps_skeletonD image_image split: option.split)

lemma is_descendant_map:
  "keeps_skeleton f \<Longrightarrow> is_descendant (map f db) root (f r) = is_descendant db root r"
  by (simp add: is_descendant_def rev_map lineage_map keeps_skeletonD image_image
      map_tl [symmetric])

text \<open>The limits on the forest.\<close>

definition main_depth :: "agent_run list \<Rightarrow> string \<Rightarrow> nat" where
  "main_depth db i = length (filter (\<lambda>r. ar_agent_kind r = MainDelegate) (lineage (rev db) i))"

definition agents_on_path :: "agent_run list \<Rightarrow> string \<Rightarrow> string list" where
  "agents_on_path db i = List.map_filter ar_executing_agent_id (lineage (rev db) i)"

definition active_below :: "agent_run list \<Rightarrow> string \<Rightarrow> nat" where
  "active_below db root = length (filter (\<lambda>r. is_descendant db root r \<and> is_active (ar_status r)) db)"

definition retried :: "agent_run list \<Rightarrow> string list" where
  "retried db = List.map_filter ar_retry_of db"

definition forest_ok :: "nat \<Rightarrow> nat \<Rightarrow> agent_run list \<Rightarrow> bool" where
  "forest_ok depth capacity db \<longleftrightarrow>
     wf_rows (rev db) \<and> distinct (retried db)
     \<and> (\<forall>r \<in> set db. main_depth db (ar_run_id r) \<le> depth
          \<and> distinct (agents_on_path db (ar_run_id r)))
     \<and> (\<forall>r \<in> set db. ar_parent_run_id r = None \<longrightarrow> active_below db (ar_run_id r) \<le> capacity)"

lemma map_filter_map: "List.map_filter g (map f xs) = List.map_filter (g \<circ> f) xs"
  by (simp add: List.map_filter_def filter_map comp_def)

lemma forest_ok_map:
  assumes "keeps_skeleton f" and "\<And>r. is_active (ar_status (f r)) \<Longrightarrow> is_active (ar_status r)"
    and "forest_ok d c db"
  shows "forest_ok d c (map f db)"
proof -
  note sk = keeps_skeletonD [OF assms(1)]
  have "main_depth (map f db) i = main_depth db i" for i
    by (simp add: main_depth_def rev_map lineage_map [OF assms(1)] filter_map comp_def sk)
  moreover have "agents_on_path (map f db) i = agents_on_path db i" for i
    by (simp add: agents_on_path_def rev_map lineage_map [OF assms(1)] map_filter_map comp_def sk)
  moreover have "retried (map f db) = retried db"
    by (simp add: retried_def map_filter_map comp_def sk)
  moreover have "active_below (map f db) root \<le> active_below db root" for root
  proof -
    have "active_below (map f db) root =
        length (filter (\<lambda>r. is_descendant db root r \<and> is_active (ar_status (f r))) db)"
      by (simp add: active_below_def filter_map comp_def is_descendant_map [OF assms(1)])
    also have "\<dots> \<le> active_below db root"
      unfolding active_below_def using assms(2) by (intro length_filter_mono) blast
    finally show ?thesis .
  qed
  ultimately show ?thesis
    using assms(3)
    by (simp add: forest_ok_def rev_map wf_rows_map [OF assms(1)] sk) (meson le_trans)
qed

subsection \<open>Inserting a run\<close>

lemma lineage_new_other [simp]: "ar_run_id x \<noteq> i \<Longrightarrow> lineage (rev (db @ [x])) i = lineage (rev db) i"
  by simp

lemma lineage_new:
  "lineage (rev (db @ [x])) (ar_run_id x) =
     x # (case ar_parent_run_id x of None \<Rightarrow> [] | Some p \<Rightarrow> lineage (rev db) p)"
  by simp

lemma lineage_root:
  "wf_rows rs \<Longrightarrow> y \<in> set (lineage rs i) \<Longrightarrow> ar_parent_run_id y = None \<Longrightarrow> y = last (lineage rs i)"
proof (induction rs i rule: lineage.induct)
  case (2 r rs i)
  show ?case
  proof (cases "ar_run_id r = i")
    case True
    then show ?thesis
      using 2(1) [OF True] 2(3-) by (cases "ar_parent_run_id r") (auto split: if_splits)
  next
    case False
    then show ?thesis using 2(2-) by auto
  qed
qed simp

lemma main_depth_new:
  "main_depth (db @ [x]) (ar_run_id x) =
     (if ar_agent_kind x = MainDelegate then 1 else 0)
     + (case ar_parent_run_id x of None \<Rightarrow> 0 | Some p \<Rightarrow> main_depth db p)"
  by (cases "ar_parent_run_id x") (simp_all add: main_depth_def)

lemma agents_on_path_new:
  "agents_on_path (db @ [x]) (ar_run_id x) =
     (case ar_executing_agent_id x of None \<Rightarrow> [] | Some a \<Rightarrow> [a])
     @ (case ar_parent_run_id x of None \<Rightarrow> [] | Some p \<Rightarrow> agents_on_path db p)"
  by (cases "ar_parent_run_id x"; cases "ar_executing_agent_id x")
    (simp_all add: agents_on_path_def List.map_filter_def)

lemma path_new_other:
  "ar_run_id x \<noteq> i \<Longrightarrow> main_depth (db @ [x]) i = main_depth db i"
  "ar_run_id x \<noteq> i \<Longrightarrow> agents_on_path (db @ [x]) i = agents_on_path db i"
  by (simp_all add: main_depth_def agents_on_path_def)

lemma active_below_new:
  assumes "row_ok (rev db) x" "wf_rows (rev db)"
  shows "active_below (db @ [x]) root =
     active_below db root
     + (if is_active (ar_status x)
           \<and> (\<exists>p. ar_parent_run_id x = Some p \<and> root \<in> ar_run_id ` set (lineage (rev db) p))
        then 1 else 0)"
proof -
  have "is_descendant (db @ [x]) root r = is_descendant db root r" if "r \<in> set db" for r
  proof -
    have "ar_run_id x \<noteq> ar_run_id r" using assms(1) that by (auto simp: row_ok_def)
    then show ?thesis by (simp add: is_descendant_def)
  qed
  then have "filter (\<lambda>r. is_descendant (db @ [x]) root r \<and> is_active (ar_status r)) db =
      filter (\<lambda>r. is_descendant db root r \<and> is_active (ar_status r)) db"
    by (simp cong: filter_cong)
  moreover have "is_descendant (db @ [x]) root x \<longleftrightarrow>
      (\<exists>p. ar_parent_run_id x = Some p \<and> root \<in> ar_run_id ` set (lineage (rev db) p))"
    by (cases "ar_parent_run_id x") (simp_all add: is_descendant_def)
  ultimately show ?thesis by (auto simp: active_below_def)
qed

lemma no_new_root_descendants:
  assumes "row_ok (rev db) x" shows "active_below db (ar_run_id x) = 0"
proof -
  have "\<not> is_descendant db (ar_run_id x) r" for r
  proof -
    have "set (tl (lineage (rev db) (ar_run_id r))) \<subseteq> set db"
      using set_lineage [of "rev db" "ar_run_id r"]
      by (cases "lineage (rev db) (ar_run_id r)") auto
    moreover have "ar_run_id x \<notin> ar_run_id ` set db" using assms by (simp add: row_ok_def)
    ultimately show ?thesis unfolding is_descendant_def by blast
  qed
  then show ?thesis by (simp add: active_below_def)
qed

lemma retried_new:
  "retried (db @ [x]) = retried db @ (case ar_retry_of x of None \<Rightarrow> [] | Some i \<Rightarrow> [i])"
  by (simp add: retried_def List.map_filter_def split: option.split)

text \<open>A new row keeps the limits if its own path does and its root has capacity.\<close>

lemma forest_ok_new:
  assumes ok: "forest_ok d c db" and row: "row_ok (rev db) x"
    and retry: "\<And>i. ar_retry_of x = Some i \<Longrightarrow> i \<notin> set (retried db)"
    and depth: "main_depth (db @ [x]) (ar_run_id x) \<le> d"
    and agents: "distinct (agents_on_path (db @ [x]) (ar_run_id x))"
    and cap: "\<And>p. ar_parent_run_id x = Some p \<Longrightarrow>
       active_below db (ar_run_id (last (lineage (rev db) p))) < c"
  shows "forest_ok d c (db @ [x])"
proof -
  have wf: "wf_rows (rev db)" using ok by (simp add: forest_ok_def)
  have other: "ar_run_id x \<noteq> ar_run_id r" if "r \<in> set db" for r
    using row that by (auto simp: row_ok_def)
  have "distinct (retried (db @ [x]))"
    using ok retry by (auto simp: forest_ok_def retried_new split: option.splits)
  moreover have "\<forall>r \<in> set (db @ [x]). main_depth (db @ [x]) (ar_run_id r) \<le> d
      \<and> distinct (agents_on_path (db @ [x]) (ar_run_id r))"
    using ok depth agents other by (auto simp: forest_ok_def path_new_other)
  moreover have "active_below (db @ [x]) (ar_run_id r) \<le> c"
    if r: "r \<in> set (db @ [x])" "ar_parent_run_id r = None" for r
  proof (cases "r = x")
    case True
    then show ?thesis
      using r active_below_new [OF row wf] no_new_root_descendants [OF row] by simp
  next
    case False
    then have "r \<in> set db" using r by simp
    then have le: "active_below db (ar_run_id r) \<le> c" using ok r by (simp add: forest_ok_def)
    show ?thesis
    proof (cases "\<exists>p. ar_parent_run_id x = Some p \<and> ar_run_id r \<in> ar_run_id ` set (lineage (rev db) p)")
      case True
      then obtain p y where p: "ar_parent_run_id x = Some p" "y \<in> set (lineage (rev db) p)"
          "ar_run_id y = ar_run_id r"
        by auto
      moreover from p have "y \<in> set db" using set_lineage by fastforce
      then have "y = r"
        using wf_rows_distinct [OF wf] \<open>r \<in> set db\<close> p(3) by (auto simp: rev_map [symmetric] distinct_map dest: inj_onD)
      ultimately have "r = last (lineage (rev db) p)"
        using lineage_root [OF wf] r by blast
      then show ?thesis using cap [OF p(1)] active_below_new [OF row wf] by simp
    qed (use le active_below_new [OF row wf] in auto)
  qed
  ultimately show ?thesis using wf row by (auto simp: forest_ok_def)
qed

end
