(* ===== verification/Delegation.thy ===== *)
theory Delegation
  imports RunStore
begin

text \<open>
  \<open>crates/core/src/delegation.rs\<close>: the runtime that admits, tracks, cancels and retries the
  runs agents delegate to each other, over the table of \<open>RunStore\<close>; and the text block of
  \<open>harness/native/delegation.rs\<close> that reports a finished background delegation.

  Each operation is one step: the admission mutex is held across its reads and its insertion.
  The agent registry is the argument \<open>reg\<close> (it belongs to \<open>agents/registry.rs\<close>); the fresh UUID
  of a new run and the clock are arguments too. Cancellation tokens are numbered.
\<close>

section \<open>The runtime\<close>

definition MAX_MAIN_DELEGATION_DEPTH :: nat where
  "MAX_MAIN_DELEGATION_DEPTH = 4"

definition MAX_ACTIVE_CHILD_RUNS :: nat where
  "MAX_ACTIVE_CHILD_RUNS = 8"

definition RESTART_INTERRUPTION_REASON :: string where
  "RESTART_INTERRUPTION_REASON = ''Ryuzi restarted before this run completed.''"

datatype agent_model = Concrete string "string option" | Route string

record agent_profile =
  ag_id :: string
  ag_name :: string
  ag_model :: agent_model

record agent_registry =
  resolved_snapshot :: "string \<Rightarrow> agent_profile option"
  subagent_model :: agent_model

record dispatch_link =
  dl_source_tool_call_id :: string
  dl_dispatch_index :: int

record main_delegation_request =
  md_parent_run_id :: string
  md_target_agent_id :: string
  md_task :: string
  md_dispatch :: "dispatch_link option"

record subagent_run_request =
  sr_parent_run_id :: string
  sr_subagent_type :: string
  sr_task :: string
  sr_dispatch :: "dispatch_link option"

text \<open>\<open>CoreEvent::AgentRunChanged\<close>.\<close>

record run_changed =
  rc_session_pk :: string
  rc_run_id :: string
  rc_parent_run_id :: "string option"
  rc_status :: string

record run_handle =
  rh_run :: agent_run
  rh_snapshot :: "agent_profile option"
  rh_cancel :: nat

record runtime =
  rt_db :: "agent_run list"
  rt_live :: "(string \<times> (agent_profile option \<times> nat)) list"
  rt_terminal :: "(string \<times> agent_run) list"
  rt_events :: "run_changed list"
  rt_terminal_events :: "agent_run list"
  rt_tokens :: nat
  rt_cancelled :: "nat set"

definition runtime_new :: "agent_run list \<Rightarrow> runtime" where
  "runtime_new db =
     \<lparr>rt_db = db, rt_live = [], rt_terminal = [], rt_events = [], rt_terminal_events = [],
      rt_tokens = 0, rt_cancelled = {}\<rparr>"

definition emit :: "string \<Rightarrow> string \<Rightarrow> string option \<Rightarrow> agent_run_status \<Rightarrow> runtime \<Rightarrow> runtime" where
  "emit session_pk run_id parent status st =
     st\<lparr>rt_events := rt_events st @
          [\<lparr>rc_session_pk = session_pk, rc_run_id = run_id, rc_parent_run_id = parent,
            rc_status = agent_run_status_as_db status\<rparr>]\<rparr>"

definition emit_run :: "agent_run \<Rightarrow> runtime \<Rightarrow> runtime" where
  "emit_run run st =
     emit (ar_session_pk run) (ar_run_id run) (ar_parent_run_id run) (ar_status run) st"

definition record_terminal :: "agent_run \<Rightarrow> runtime \<Rightarrow> runtime" where
  "record_terminal run st =
     st\<lparr>rt_terminal := AList.update (ar_run_id run) run (rt_terminal st),
        rt_terminal_events := rt_terminal_events st @ [run]\<rparr>"

definition register_run ::
    "agent_run \<Rightarrow> agent_profile option \<Rightarrow> runtime \<Rightarrow> run_handle \<times> runtime" where
  "register_run run snapshot st =
     (let token = rt_tokens st;
          st1 = st\<lparr>rt_tokens := token + 1,
                   rt_live := AList.update (ar_run_id run) (snapshot, token) (rt_live st)\<rparr>
      in (\<lparr>rh_run = run, rh_snapshot = snapshot, rh_cancel = token\<rparr>, emit_run run st1))"

section \<open>Admission\<close>

fun model_parts :: "agent_model \<Rightarrow> string option \<times> string option" where
  "model_parts (Concrete name effort) = (Some name, effort)"
| "model_parts (Route route) = (Some route, None)"

definition link_parts :: "dispatch_link option \<Rightarrow> string option \<times> int option" where
  "link_parts link =
     (case link of
        Some l \<Rightarrow> (Some (dl_source_tool_call_id l), Some (dl_dispatch_index l))
      | None \<Rightarrow> (None, None))"

definition new_run ::
    "string \<Rightarrow> string \<Rightarrow> string option \<Rightarrow> string option \<Rightarrow> string \<Rightarrow> agent_profile option
     \<Rightarrow> agent_run_kind \<Rightarrow> string \<Rightarrow> dispatch_link option \<Rightarrow> new_agent_run" where
  "new_run uuid session_pk parent_run_id retry_of primary_agent_id snapshot kind task dispatch =
     (let (model, effort) = (case snapshot of Some sn \<Rightarrow> model_parts (ag_model sn) | None \<Rightarrow> (None, None));
          (src, index) = link_parts dispatch
      in \<lparr>nr_run_id = uuid, nr_session_pk = session_pk, nr_parent_run_id = parent_run_id,
          nr_retry_of = retry_of, nr_source_tool_call_id = src, nr_dispatch_index = index,
          nr_primary_agent_id = primary_agent_id,
          nr_executing_agent_id = map_option ag_id snapshot,
          nr_executing_agent_name = (case snapshot of Some sn \<Rightarrow> ag_name sn | None \<Rightarrow> ''subagent''),
          nr_agent_kind = kind, nr_task = task, nr_status = RQueued,
          nr_resolved_model = model, nr_resolved_effort = effort\<rparr>)"

text \<open>
  The walk from a run to its root through the rows of its session: the ancestors of the run,
  nearest first. It loops as the source does; \<open>None\<close> is a walk that never ends.
\<close>

partial_function (option) ancestors_walk ::
    "agent_run list \<Rightarrow> agent_run \<Rightarrow> (run_error + agent_run list) option" where
  "ancestors_walk all cur =
     (case ar_parent_run_id cur of
        None \<Rightarrow> Some (Inr [])
      | Some parent_id \<Rightarrow>
          (case find_run parent_id all of
             None \<Rightarrow> Some (Inl AncestryIncomplete)
           | Some p \<Rightarrow>
               Option.bind (ancestors_walk all p)
                 (\<lambda>r. Some (case r of Inl e \<Rightarrow> Inl e | Inr rest \<Rightarrow> Inr (p # rest)))))"

definition tree ::
    "agent_run list \<Rightarrow> string \<Rightarrow> run_error + agent_run \<times> agent_run list \<times> agent_run" where
  "tree db run_id =
     (case get_agent_run db run_id of
        None \<Rightarrow> Inl UnknownRun
      | Some parent \<Rightarrow>
          (case ancestors_walk (list_session_agent_runs db (ar_session_pk parent)) parent of
             None \<Rightarrow> Inl WalkDiverges
           | Some (Inl e) \<Rightarrow> Inl e
           | Some (Inr rest) \<Rightarrow> Inr (parent, parent # rest, last (parent # rest))))"

definition ensure_capacity :: "agent_run list \<Rightarrow> agent_run \<Rightarrow> run_error + unit" where
  "ensure_capacity db root =
     (if MAX_ACTIVE_CHILD_RUNS \<le>
         length (filter (\<lambda>r. is_active (ar_status r)) (list_descendant_agent_runs db (ar_run_id root)))
      then Inl CapacityExceeded else Inr ())"

definition insert_and_register ::
    "run_error + agent_run \<times> agent_run list \<Rightarrow> agent_profile option \<Rightarrow> runtime
     \<Rightarrow> run_error + run_handle \<times> runtime" where
  "insert_and_register ins snapshot st =
     try_bind ins (\<lambda>(run, db'). Inr (register_run run snapshot (st\<lparr>rt_db := db'\<rparr>)))"

definition begin_primary ::
    "string \<Rightarrow> string \<Rightarrow> agent_profile \<Rightarrow> string \<Rightarrow> runtime \<Rightarrow> run_error + run_handle \<times> runtime" where
  "begin_primary uuid session_pk snapshot task st =
     insert_and_register
       (insert_primary_agent_run (rt_db st)
          (new_run uuid session_pk None None (ag_id snapshot) (Some snapshot) Primary task None))
       (Some snapshot) st"

definition activate_persisted_primary ::
    "agent_run \<Rightarrow> agent_profile \<Rightarrow> runtime \<Rightarrow> run_error + run_handle \<times> runtime" where
  "activate_persisted_primary run snapshot st =
     (if ar_agent_kind run \<noteq> Primary \<or> ar_parent_run_id run \<noteq> None then Inl NotActivatable
      else Inr (register_run run (Some snapshot) st))"

definition queue_main ::
    "agent_registry \<Rightarrow> string \<Rightarrow> main_delegation_request \<Rightarrow> runtime
     \<Rightarrow> run_error + run_handle \<times> runtime" where
  "queue_main reg uuid req st =
     (case resolved_snapshot reg (md_target_agent_id req) of
        None \<Rightarrow> Inl UnresolvedAgent
      | Some target \<Rightarrow>
          try_bind (tree (rt_db st) (md_parent_run_id req)) (\<lambda>(parent, ancestry, root).
          if list_ex (\<lambda>r. ar_executing_agent_id r = Some (ag_id target)) ancestry
          then Inl AncestryCycle
          else if MAX_MAIN_DELEGATION_DEPTH
                  \<le> length (filter (\<lambda>r. ar_agent_kind r = MainDelegate) ancestry)
          then Inl DepthExceeded
          else try_bind (ensure_capacity (rt_db st) root) (\<lambda>_.
            insert_and_register
              (insert_agent_run (rt_db st)
                 (new_run uuid (ar_session_pk parent) (Some (ar_run_id parent)) None
                    (ar_primary_agent_id root) (Some target) MainDelegate (md_task req)
                    (md_dispatch req)))
              (Some target) st)))"

definition subagent_row ::
    "agent_registry \<Rightarrow> string \<Rightarrow> agent_run \<Rightarrow> agent_run \<Rightarrow> subagent_run_request \<Rightarrow> new_agent_run" where
  "subagent_row reg uuid parent root req =
     (let (model, effort) = model_parts (subagent_model reg);
          (src, index) = link_parts (sr_dispatch req)
      in \<lparr>nr_run_id = uuid, nr_session_pk = ar_session_pk parent,
          nr_parent_run_id = Some (ar_run_id parent), nr_retry_of = None,
          nr_source_tool_call_id = src, nr_dispatch_index = index,
          nr_primary_agent_id = ar_primary_agent_id root, nr_executing_agent_id = None,
          nr_executing_agent_name = sr_subagent_type req, nr_agent_kind = Subagent,
          nr_task = sr_task req, nr_status = RQueued, nr_resolved_model = model,
          nr_resolved_effort = effort\<rparr>)"

definition queue_subagent ::
    "agent_registry \<Rightarrow> string \<Rightarrow> subagent_run_request \<Rightarrow> runtime
     \<Rightarrow> run_error + run_handle \<times> runtime" where
  "queue_subagent reg uuid req st =
     try_bind (tree (rt_db st) (sr_parent_run_id req)) (\<lambda>(parent, _, root).
     try_bind (ensure_capacity (rt_db st) root) (\<lambda>_.
       insert_and_register (insert_agent_run (rt_db st) (subagent_row reg uuid parent root req))
         None st))"

text \<open>The row a retry inserts: its predecessor's, with a freshly resolved agent.\<close>

definition retry_row :: "agent_registry \<Rightarrow> string \<Rightarrow> agent_run \<Rightarrow> agent_profile option \<Rightarrow> new_agent_run" where
  "retry_row reg uuid previous snapshot =
     (let (model, effort) =
        (case snapshot of Some sn \<Rightarrow> model_parts (ag_model sn)
         | None \<Rightarrow> model_parts (subagent_model reg))
      in \<lparr>nr_run_id = uuid, nr_session_pk = ar_session_pk previous,
          nr_parent_run_id = ar_parent_run_id previous,
          nr_retry_of = Some (ar_run_id previous),
          nr_source_tool_call_id = ar_source_tool_call_id previous,
          nr_dispatch_index = ar_dispatch_index previous,
          nr_primary_agent_id = ar_primary_agent_id previous,
          nr_executing_agent_id = ar_executing_agent_id previous,
          nr_executing_agent_name =
            (case snapshot of Some sn \<Rightarrow> ag_name sn | None \<Rightarrow> ar_executing_agent_name previous),
          nr_agent_kind = ar_agent_kind previous, nr_task = ar_task previous,
          nr_status = RQueued, nr_resolved_model = model, nr_resolved_effort = effort\<rparr>)"

definition retry_child_handle ::
    "agent_registry \<Rightarrow> string \<Rightarrow> string \<Rightarrow> string \<Rightarrow> runtime \<Rightarrow> run_error + run_handle \<times> runtime" where
  "retry_child_handle reg uuid session_pk run_id st =
     (case get_agent_run (rt_db st) run_id of
        None \<Rightarrow> Inl UnknownRun
      | Some previous \<Rightarrow>
          if ar_session_pk previous \<noteq> session_pk \<or> ar_parent_run_id previous = None
             \<or> \<not> retryable (ar_status previous)
          then Inl NotARetryableChild
          else if list_ex (\<lambda>r. ar_retry_of r = Some (ar_run_id previous))
                    (list_session_agent_runs (rt_db st) session_pk)
          then Inl RetryBranch
          else try_bind (tree (rt_db st) (ar_run_id previous)) (\<lambda>(_, _, root).
            try_bind (ensure_capacity (rt_db st) root) (\<lambda>_.
            try_bind (case ar_executing_agent_id previous of
                        None \<Rightarrow> Inr None
                      | Some i \<Rightarrow> (case resolved_snapshot reg i of
                                      None \<Rightarrow> Inl UnresolvedAgent | Some sn \<Rightarrow> Inr (Some sn)))
              (\<lambda>snapshot.
                insert_and_register
                  (insert_agent_run (rt_db st) (retry_row reg uuid previous snapshot)) snapshot st))))"

definition retry_child ::
    "agent_registry \<Rightarrow> string \<Rightarrow> string \<Rightarrow> string \<Rightarrow> runtime \<Rightarrow> run_error + agent_run \<times> runtime" where
  "retry_child reg uuid session_pk run_id st =
     try_bind (retry_child_handle reg uuid session_pk run_id st) (\<lambda>(h, st'). Inr (rh_run h, st'))"

section \<open>Transitions\<close>

definition transition ::
    "int \<Rightarrow> string \<Rightarrow> agent_run_status list \<Rightarrow> agent_run_status \<Rightarrow> string option \<Rightarrow> string option
     \<Rightarrow> runtime \<Rightarrow> run_error + runtime" where
  "transition now run_id froms to result err st =
     (let (db', updated) = transition_agent_run now (rt_db st) run_id froms to result err;
          st1 = st\<lparr>rt_db := db'\<rparr>
      in if updated then
           (case get_agent_run db' run_id of
              None \<Rightarrow> Inl UnknownRun
            | Some run \<Rightarrow>
                (let st2 = emit (ar_session_pk run) (ar_run_id run) (ar_parent_run_id run) to st1
                 in Inr (if is_terminal to
                         then record_terminal run
                                (st2\<lparr>rt_live := AList.delete run_id (rt_live st2)\<rparr>)
                         else st2)))
         else Inr st1)"

definition mark_running :: "int \<Rightarrow> string \<Rightarrow> runtime \<Rightarrow> run_error + runtime" where
  "mark_running now run_id st = transition now run_id [RQueued] RRunning None None st"

definition complete_run :: "int \<Rightarrow> string \<Rightarrow> string \<Rightarrow> runtime \<Rightarrow> run_error + runtime" where
  "complete_run now run_id result st =
     transition now run_id [RQueued, RRunning] RCompleted (Some result) None st"

definition fail_run :: "int \<Rightarrow> string \<Rightarrow> string \<Rightarrow> runtime \<Rightarrow> run_error + runtime" where
  "fail_run now run_id err st =
     transition now run_id [RQueued, RRunning] RFailed None (Some err) st"

definition interrupt_run :: "int \<Rightarrow> string \<Rightarrow> string \<Rightarrow> runtime \<Rightarrow> run_error + runtime" where
  "interrupt_run now run_id reason st =
     transition now run_id [RQueued, RRunning] RInterrupted None (Some reason) st"

text \<open>Cancelling one run of a list: the row, the event, the token, the terminal record.\<close>

definition cancel_one :: "int \<Rightarrow> string option \<Rightarrow> string \<Rightarrow> runtime \<Rightarrow> run_error + runtime" where
  "cancel_one now err run_id st =
     (let (db', updated) =
        transition_agent_run now (rt_db st) run_id [RQueued, RRunning] RCancelled None err;
          st1 = st\<lparr>rt_db := db'\<rparr>
      in if updated then
           (case get_agent_run db' run_id of
              None \<Rightarrow> Inl UnknownRun
            | Some run \<Rightarrow>
                (let st2 = emit_run run st1;
                     st3 = (case map_of (rt_live st2) run_id of
                              None \<Rightarrow> st2
                            | Some (_, token) \<Rightarrow>
                                st2\<lparr>rt_live := AList.delete run_id (rt_live st2),
                                    rt_cancelled := insert token (rt_cancelled st2)\<rparr>)
                 in Inr (record_terminal run st3)))
         else Inr st1)"

fun cancel_runs :: "int \<Rightarrow> string option \<Rightarrow> string list \<Rightarrow> runtime \<Rightarrow> run_error + runtime" where
  "cancel_runs now err [] st = Inr st"
| "cancel_runs now err (i # ids) st = try_bind (cancel_one now err i st) (cancel_runs now err ids)"

definition cancel_child :: "int \<Rightarrow> string \<Rightarrow> string \<Rightarrow> runtime \<Rightarrow> run_error + runtime" where
  "cancel_child now session_pk run_id st =
     (case get_agent_run (rt_db st) run_id of
        None \<Rightarrow> Inl UnknownRun
      | Some run \<Rightarrow>
          if ar_session_pk run \<noteq> session_pk \<or> ar_parent_run_id run = None
          then Inl NotACancellableChild
          else cancel_runs now None
                 (ar_run_id run # map ar_run_id (list_descendant_agent_runs (rt_db st) run_id)) st)"

definition cancel_descendants_of_root ::
    "int \<Rightarrow> string \<Rightarrow> string \<Rightarrow> runtime \<Rightarrow> run_error + runtime" where
  "cancel_descendants_of_root now session_pk root_run_id st =
     (case get_agent_run (rt_db st) root_run_id of
        None \<Rightarrow> Inl UnknownRun
      | Some root \<Rightarrow>
          if ar_session_pk root \<noteq> session_pk \<or> ar_parent_run_id root \<noteq> None
          then Inl NotARoot
          else cancel_runs now (Some ''parent run cancelled'')
                 (map ar_run_id (list_descendant_agent_runs (rt_db st) root_run_id)) st)"

definition recover_after_restart :: "int \<Rightarrow> runtime \<Rightarrow> runtime \<times> nat" where
  "recover_after_restart now st =
     (let (db', interrupted) =
        interrupt_incomplete_agent_runs now (rt_db st) RESTART_INTERRUPTION_REASON
      in (fold (\<lambda>run st. record_terminal run (emit_run run st)) interrupted (st\<lparr>rt_db := db'\<rparr>),
          length interrupted))"

section \<open>Reading outcomes\<close>

definition execution_snapshot :: "string \<Rightarrow> runtime \<Rightarrow> agent_profile option" where
  "execution_snapshot run_id st = Option.bind (map_of (rt_live st) run_id) fst"

text \<open>
  \<open>received\<close> are the terminal events sent after the subscription, which precedes the checks;
  \<open>Inr None\<close> when none of them is of the run: the caller is still waiting.
\<close>

definition await_terminal ::
    "string \<Rightarrow> agent_run list \<Rightarrow> runtime \<Rightarrow> run_error + agent_run option" where
  "await_terminal run_id received st =
     (case map_of (rt_terminal st) run_id of
        Some run \<Rightarrow> Inr (Some run)
      | None \<Rightarrow>
          (case get_agent_run (rt_db st) run_id of
             None \<Rightarrow> Inl UnknownRun
           | Some run \<Rightarrow>
               if is_terminal (ar_status run) then Inr (Some run)
               else Inr (find (\<lambda>r. ar_run_id r = run_id) received)))"

definition terminal_outcomes_for_root :: "string \<Rightarrow> runtime \<Rightarrow> run_error + agent_run list" where
  "terminal_outcomes_for_root root_run_id st =
     (case get_agent_run (rt_db st) root_run_id of
        None \<Rightarrow> Inl UnknownRun
      | Some root \<Rightarrow>
          if ar_parent_run_id root \<noteq> None then Inl NotARoot
          else Inr (sort_key ar_run_id
                 (filter (\<lambda>r. is_terminal (ar_status r))
                    (list_descendant_agent_runs (rt_db st) root_run_id))))"

section \<open>Walking the tree\<close>

lemma find_in_session:
  assumes "wf_rows (rev db)" "q \<in> set db"
  shows "find_run (ar_run_id q) (list_session_agent_runs db (ar_session_pk q)) = Some q"
proof -
  have "distinct (map ar_run_id db)"
    using wf_rows_distinct [OF assms(1)] by (simp add: rev_map [symmetric])
  then have "distinct (map ar_run_id (list_session_agent_runs db (ar_session_pk q)))"
    by (simp add: list_session_agent_runs_def distinct_map_filter)
  then show ?thesis
    using assms(2) by (simp add: find_run_iff list_session_agent_runs_def)
qed

lemma ancestors_walk_lineage:
  assumes wf: "wf_rows (rev db)"
  shows "r \<in> set db \<Longrightarrow>
    ancestors_walk (list_session_agent_runs db (ar_session_pk r)) r =
      Some (Inr (tl (lineage (rev db) (ar_run_id r))))"
proof (induction "length (lineage (rev db) (ar_run_id r))" arbitrary: r rule: less_induct)
  case less
  have u: "lineage (rev db) (ar_run_id r) =
      r # (case ar_parent_run_id r of None \<Rightarrow> [] | Some p \<Rightarrow> lineage (rev db) p)"
    using lineage_unfold [OF wf] less.prems by simp
  show ?case
  proof (cases "ar_parent_run_id r")
    case None
    then show ?thesis using u by (simp add: ancestors_walk.simps)
  next
    case (Some pid)
    then obtain q where q: "q \<in> set db" "ar_run_id q = pid" "ar_session_pk q = ar_session_pk r"
      using wf_rows_parent [OF wf, of r pid] less.prems by auto
    have lq: "lineage (rev db) pid = q # tl (lineage (rev db) pid)"
      using lineage_unfold [OF wf, of q] q by simp
    have "ancestors_walk (list_session_agent_runs db (ar_session_pk r)) q =
        Some (Inr (tl (lineage (rev db) pid)))"
      using less.hyps [of q] q u Some by simp
    moreover have "find_run pid (list_session_agent_runs db (ar_session_pk r)) = Some q"
      using find_in_session [OF wf q(1)] q by simp
    ultimately show ?thesis
      using u Some lq by (subst ancestors_walk.simps) simp
  qed
qed

lemma tree_lineage:
  assumes "wf_rows (rev db)"
  shows "tree db i =
    (case get_agent_run db i of
       None \<Rightarrow> Inl UnknownRun
     | Some p \<Rightarrow> Inr (p, lineage (rev db) i, last (lineage (rev db) i)))"
proof (cases "get_agent_run db i")
  case (Some p)
  then have p: "p \<in> set db" "ar_run_id p = i"
    using find_run_SomeD by (auto simp: get_agent_run_def)
  then have "lineage (rev db) i = p # tl (lineage (rev db) i)"
    using lineage_unfold [OF assms, of p] by simp
  then show ?thesis
    using Some ancestors_walk_lineage [OF assms p(1)] p(2) by (simp add: tree_def)
qed (simp add: tree_def)

lemma tree_Inr:
  assumes "wf_rows (rev db)" "tree db i = Inr (p, anc, root)"
  shows "p \<in> set db \<and> ar_run_id p = i \<and> anc = lineage (rev db) i \<and> root = last anc
    \<and> ar_primary_agent_id root = ar_primary_agent_id p"
proof -
  have g: "get_agent_run db i = Some p" and a: "anc = lineage (rev db) i" "root = last anc"
    using assms by (auto simp: tree_lineage split: option.splits)
  then have p: "p \<in> set (rev db)" "ar_run_id p = i"
    using find_run_SomeD by (auto simp: get_agent_run_def)
  then have "anc \<noteq> []" using a by (auto simp: lineage_Nil_iff)
  then have "root \<in> set (lineage (rev db) i)" using a by simp
  then show ?thesis using lineage_same_tree [OF assms(1) _ p] p a by simp
qed

lemma active_below_query:
  assumes "wf_rows (rev db)"
  shows "active_below db i =
    length (filter (\<lambda>r. is_active (ar_status r)) (list_descendant_agent_runs db i))"
proof -
  have "mset (filter (\<lambda>r. is_active (ar_status r)) (list_descendant_agent_runs db i)) =
      filter_mset (\<lambda>r. is_active (ar_status r)) (mset (filter (is_descendant db i) db))"
    by (simp only: mset_filter mset_descendants [OF assms])
  also have "\<dots> = mset (filter (\<lambda>r. is_descendant db i r \<and> is_active (ar_status r)) db)"
    by (simp only: mset_filter [symmetric] filter_filter)
  finally show ?thesis unfolding active_below_def by (rule mset_eq_length [symmetric])
qed

lemma ensure_capacity_iff:
  "wf_rows (rev db) \<Longrightarrow>
   ensure_capacity db root = Inr () \<longleftrightarrow> active_below db (ar_run_id root) < MAX_ACTIVE_CHILD_RUNS"
  by (auto simp: ensure_capacity_def active_below_query)

section \<open>The limits of admission\<close>

lemma insert_row_ok:
  assumes "insert_run root db run = Inr (x, db')" and "wf_rows (rev db)"
  shows "x = stored_row run \<and> db' = db @ [x] \<and> row_ok (rev db) x
    \<and> (\<forall>i. ar_retry_of x = Some i \<longrightarrow> i \<notin> set (retried db))
    \<and> (root \<longrightarrow> ar_parent_run_id x = None \<and> ar_retry_of x = None)"
proof -
  have v: "validate_agent_run db run root = Inr ()" and x: "x = stored_row run" "db' = db @ [x]"
    and fresh: "nr_run_id run \<notin> ar_run_id ` set db"
    using assms(1)
    by (auto simp: insert_run_def insert_agent_run_row_def find_run_None
        split: sum.splits if_splits)
  have ret: "i \<notin> set (retried db)" if "nr_retry_of run = Some i" for i
    using v that
    by (auto simp: validate_agent_run_def validate_retry_def retried_def List.map_filter_def
        list_ex_iff split: if_splits option.splits)
  have "row_ok (rev db) (stored_row run)"
    using v fresh
    by (auto simp: validate_agent_run_def row_ok_def stored_row_def
        split: if_splits option.splits dest!: find_run_SomeD)
  moreover have "root \<Longrightarrow> nr_parent_run_id run = None \<and> nr_retry_of run = None"
    using v by (auto simp: validate_agent_run_def split: if_splits)
  ultimately show ?thesis using x ret by (simp add: stored_row_def)
qed

lemma rt_db_simps [simp]:
  "rt_db (emit s i p t st) = rt_db st" "rt_db (emit_run r st) = rt_db st"
  "rt_db (record_terminal r st) = rt_db st" "rt_db (snd (register_run r sn st)) = rt_db st"
  by (simp_all add: emit_def emit_run_def record_terminal_def register_run_def Let_def)

lemma insert_and_register_Inr:
  "insert_and_register ins sn st = Inr (h, st') \<Longrightarrow>
   \<exists>run db'. ins = Inr (run, db') \<and> rt_db st' = db' \<and> rh_run h = run"
  by (auto simp: insert_and_register_def try_bind_Inr register_run_def Let_def)

definition runtime_ok :: "runtime \<Rightarrow> bool" where
  "runtime_ok st \<longleftrightarrow> forest_ok MAX_MAIN_DELEGATION_DEPTH MAX_ACTIVE_CHILD_RUNS (rt_db st)"

lemma runtime_okD: "runtime_ok st \<Longrightarrow> wf_rows (rev (rt_db st))"
  by (simp add: runtime_ok_def forest_ok_def)

lemma set_agents_on_path:
  "a \<in> set (agents_on_path db i) \<longleftrightarrow>
   (\<exists>r \<in> set (lineage (rev db) i). ar_executing_agent_id r = Some a)"
  by (force simp: agents_on_path_def List.map_filter_def image_iff)

lemma begin_primary_ok [inv_intros]:
  assumes ok: "runtime_ok st" and step: "begin_primary uuid pk snapshot task st = Inr (h, st')"
  shows "runtime_ok st'"
proof -
  note wf = runtime_okD [OF ok]
  obtain run where ins: "insert_run True (rt_db st)
      (new_run uuid pk None None (ag_id snapshot) (Some snapshot) Primary task None)
      = Inr (run, rt_db st')"
    using step insert_and_register_Inr
    by (fastforce simp: begin_primary_def insert_primary_agent_run_def)
  note r = insert_row_ok [OF ins wf]
  then have "ar_parent_run_id run = None" "ar_agent_kind run = Primary"
    by (simp_all add: stored_row_def new_run_def Let_def split: prod.splits)
  then have "forest_ok MAX_MAIN_DELEGATION_DEPTH MAX_ACTIVE_CHILD_RUNS (rt_db st @ [run])"
    using ok r
    by (intro forest_ok_new)
      (auto simp: runtime_ok_def main_depth_new agents_on_path_new split: option.split)
  with r show ?thesis by (simp add: runtime_ok_def)
qed

lemma admitted_child_ok:
  assumes ok: "runtime_ok st" and ins: "insert_run False (rt_db st) run = Inr (x, db')"
    and parent: "nr_parent_run_id run = Some p"
    and cap: "ensure_capacity (rt_db st) (last (lineage (rev (rt_db st)) p)) = Inr ()"
    and depth: "(if nr_agent_kind run = MainDelegate then 1 else 0) + main_depth (rt_db st) p
      \<le> MAX_MAIN_DELEGATION_DEPTH"
    and agents: "\<And>a. nr_executing_agent_id run = Some a \<Longrightarrow> a \<notin> set (agents_on_path (rt_db st) p)"
  shows "forest_ok MAX_MAIN_DELEGATION_DEPTH MAX_ACTIVE_CHILD_RUNS db'"
proof -
  note wf = runtime_okD [OF ok]
  note r = insert_row_ok [OF ins wf]
  have x: "ar_parent_run_id x = Some p" "ar_agent_kind x = nr_agent_kind run"
    "ar_executing_agent_id x = nr_executing_agent_id run"
    using r parent by (simp_all add: stored_row_def)
  obtain q where "q \<in> set (rt_db st)" "ar_run_id q = p"
    using r x by (auto simp: row_ok_def)
  then have dist: "distinct (agents_on_path (rt_db st) p)"
    using ok by (auto simp: runtime_ok_def forest_ok_def)
  have "forest_ok MAX_MAIN_DELEGATION_DEPTH MAX_ACTIVE_CHILD_RUNS (rt_db st @ [x])"
  proof (rule forest_ok_new)
    show "distinct (agents_on_path (rt_db st @ [x]) (ar_run_id x))"
      using x dist agents by (cases "nr_executing_agent_id run") (simp_all add: agents_on_path_new)
    show "main_depth (rt_db st @ [x]) (ar_run_id x) \<le> MAX_MAIN_DELEGATION_DEPTH"
      using x depth by (simp add: main_depth_new)
    show "active_below (rt_db st) (ar_run_id (last (lineage (rev (rt_db st)) p'))) < MAX_ACTIVE_CHILD_RUNS"
      if "ar_parent_run_id x = Some p'" for p'
      using that x cap ensure_capacity_iff [OF wf] by simp
  qed (use ok r in \<open>auto simp: runtime_ok_def\<close>)
  with r show ?thesis by simp
qed

lemma queue_main_ok [inv_intros]:
  assumes ok: "runtime_ok st" and step: "queue_main reg uuid req st = Inr (h, st')"
  shows "runtime_ok st'"
proof -
  note wf = runtime_okD [OF ok]
  obtain target parent ancestry root where
    t: "tree (rt_db st) (md_parent_run_id req) = Inr (parent, ancestry, root)"
    and cyc: "\<not> list_ex (\<lambda>r. ar_executing_agent_id r = Some (ag_id target)) ancestry"
    and dep: "length (filter (\<lambda>r. ar_agent_kind r = MainDelegate) ancestry) < MAX_MAIN_DELEGATION_DEPTH"
    and cap: "ensure_capacity (rt_db st) root = Inr ()"
    and ins: "insert_and_register (insert_agent_run (rt_db st)
          (new_run uuid (ar_session_pk parent) (Some (ar_run_id parent)) None
             (ar_primary_agent_id root) (Some target) MainDelegate (md_task req) (md_dispatch req)))
        (Some target) st = Inr (h, st')"
    using step by (auto simp: queue_main_def try_bind_Inr not_le split: option.splits if_splits)
  let ?run = "new_run uuid (ar_session_pk parent) (Some (ar_run_id parent)) None
      (ar_primary_agent_id root) (Some target) MainDelegate (md_task req) (md_dispatch req)"
  note tr = tree_Inr [OF wf t]
  obtain x where x: "insert_run False (rt_db st) ?run = Inr (x, rt_db st')"
    using insert_and_register_Inr [OF ins] by (auto simp: insert_agent_run_def)
  have run: "nr_parent_run_id ?run = Some (ar_run_id parent)" "nr_agent_kind ?run = MainDelegate"
    "nr_executing_agent_id ?run = Some (ag_id target)"
    by (simp_all add: new_run_def Let_def split: prod.splits)
  show ?thesis
    unfolding runtime_ok_def
  proof (rule admitted_child_ok [OF ok x run(1)])
    show "ensure_capacity (rt_db st) (last (lineage (rev (rt_db st)) (ar_run_id parent))) = Inr ()"
      using tr cap by simp
    show "(if nr_agent_kind ?run = MainDelegate then 1 else 0) + main_depth (rt_db st) (ar_run_id parent)
        \<le> MAX_MAIN_DELEGATION_DEPTH"
      using tr dep run by (simp add: main_depth_def)
    show "a \<notin> set (agents_on_path (rt_db st) (ar_run_id parent))"
      if "nr_executing_agent_id ?run = Some a" for a
      using tr cyc run that by (auto simp: set_agents_on_path list_ex_iff)
  qed
qed

lemma queue_subagent_ok [inv_intros]:
  assumes ok: "runtime_ok st" and step: "queue_subagent reg uuid req st = Inr (h, st')"
  shows "runtime_ok st'"
proof -
  note wf = runtime_okD [OF ok]
  obtain parent ancestry root where
    t: "tree (rt_db st) (sr_parent_run_id req) = Inr (parent, ancestry, root)"
    and cap: "ensure_capacity (rt_db st) root = Inr ()"
    and ins: "insert_and_register
        (insert_agent_run (rt_db st) (subagent_row reg uuid parent root req)) None st = Inr (h, st')"
    using step by (auto simp: queue_subagent_def try_bind_Inr)
  note tr = tree_Inr [OF wf t]
  let ?run = "subagent_row reg uuid parent root req"
  have run: "nr_parent_run_id ?run = Some (ar_run_id parent)" "nr_agent_kind ?run = Subagent"
      "nr_executing_agent_id ?run = None"
    by (simp_all add: subagent_row_def Let_def split: prod.splits)
  have "main_depth (rt_db st) (ar_run_id parent) \<le> MAX_MAIN_DELEGATION_DEPTH"
    using ok tr by (auto simp: runtime_ok_def forest_ok_def)
  moreover obtain x where "insert_run False (rt_db st) ?run = Inr (x, rt_db st')"
    using insert_and_register_Inr [OF ins] by (auto simp: insert_agent_run_def)
  ultimately show ?thesis
    unfolding runtime_ok_def using tr cap run
    by (intro admitted_child_ok [OF ok, of ?run x _ "ar_run_id parent"]) auto
qed

lemma retry_child_ok [inv_intros]:
  assumes ok: "runtime_ok st" and step: "retry_child_handle reg uuid pk run_id st = Inr (h, st')"
  shows "runtime_ok st'"
proof -
  note wf = runtime_okD [OF ok]
  obtain previous pid ancestry root snapshot p' where
    prev: "get_agent_run (rt_db st) run_id = Some previous" "ar_parent_run_id previous = Some pid"
    and t: "tree (rt_db st) (ar_run_id previous) = Inr (p', ancestry, root)"
    and cap: "ensure_capacity (rt_db st) root = Inr ()"
    and ins: "insert_and_register (insert_agent_run (rt_db st)
        (retry_row reg uuid previous snapshot)) snapshot st = Inr (h, st')"
    using step
    by (auto simp: retry_child_handle_def try_bind_Inr split: option.splits if_splits)
  let ?run = "retry_row reg uuid previous snapshot"
  note tr = tree_Inr [OF wf t]
  have mem: "previous \<in> set (rt_db st)"
    using prev find_run_SomeD by (auto simp: get_agent_run_def)
  have u: "lineage (rev (rt_db st)) (ar_run_id previous) = previous # lineage (rev (rt_db st)) pid"
    using lineage_unfold [OF wf] mem prev by simp
  obtain q where "q \<in> set (rt_db st)" "ar_run_id q = pid"
    using wf_rows_parent [OF wf, of previous pid] mem prev by auto
  then have "lineage (rev (rt_db st)) pid \<noteq> []" by (auto simp: lineage_Nil_iff)
  then have root: "root = last (lineage (rev (rt_db st)) pid)" using tr u by simp
  have run: "nr_parent_run_id ?run = Some pid" "nr_agent_kind ?run = ar_agent_kind previous"
    "nr_executing_agent_id ?run = ar_executing_agent_id previous"
    using prev by (simp_all add: retry_row_def Let_def split: prod.splits)
  have path: "main_depth (rt_db st) (ar_run_id previous) \<le> MAX_MAIN_DELEGATION_DEPTH"
    "distinct (agents_on_path (rt_db st) (ar_run_id previous))"
    using ok mem by (auto simp: runtime_ok_def forest_ok_def)
  obtain x where "insert_run False (rt_db st) ?run = Inr (x, rt_db st')"
    using insert_and_register_Inr [OF ins] by (auto simp: insert_agent_run_def)
  then show ?thesis
    unfolding runtime_ok_def
  proof (rule admitted_child_ok [OF ok _ run(1)])
    show "ensure_capacity (rt_db st) (last (lineage (rev (rt_db st)) pid)) = Inr ()"
      using cap root by simp
    show "(if nr_agent_kind ?run = MainDelegate then 1 else 0) + main_depth (rt_db st) pid
        \<le> MAX_MAIN_DELEGATION_DEPTH"
      using path(1) u run by (simp add: main_depth_def split: if_splits)
    show "a \<notin> set (agents_on_path (rt_db st) pid)" if "nr_executing_agent_id ?run = Some a" for a
    proof -
      have "ar_executing_agent_id previous = Some a" using that run by simp
      then have "agents_on_path (rt_db st) (ar_run_id previous) = a # agents_on_path (rt_db st) pid"
        unfolding agents_on_path_def u by (simp add: List.map_filter_simps)
      then show ?thesis using path(2) by simp
    qed
  qed
qed

section \<open>Transitions keep the limits\<close>

lemma transition_agent_run_map:
  "fst (transition_agent_run now db run_id froms to result err) =
     map (\<lambda>r. if ar_run_id r = run_id \<and> List.member froms (ar_status r) \<and> \<not> is_terminal (ar_status r)
              then transition_row now to result err r else r) db"
  by (simp add: transition_agent_run_def Let_def)

lemma keeps_skeleton_if [simp]:
  "(\<And>r. skeleton (g r) = skeleton r) \<Longrightarrow> keeps_skeleton (\<lambda>r. if P r then g r else r)"
  by (simp add: keeps_skeleton_def)

lemma skeleton_simps [simp]:
  "skeleton (transition_row now to result err r) = skeleton r"
  "skeleton (interrupted_row now reason r) = skeleton r"
  "skeleton (r\<lparr>ar_tool_count := n\<rparr>) = skeleton r"
  by (simp_all add: skeleton_def transition_row_def interrupted_row_def)

lemma forest_ok_transition:
  "forest_ok d c db \<Longrightarrow>
   forest_ok d c (fst (transition_agent_run now db run_id froms to result err))"
  unfolding transition_agent_run_map
  by (rule forest_ok_map) (auto simp: is_terminal_def split: if_splits)

lemma transition_rt_db:
  "transition now run_id froms to result err st = Inr st' \<Longrightarrow>
   rt_db st' = fst (transition_agent_run now (rt_db st) run_id froms to result err)"
  by (auto simp: transition_def Let_def split: prod.splits option.splits if_splits)

lemma cancel_one_rt_db:
  "cancel_one now err i st = Inr st' \<Longrightarrow>
   rt_db st' = fst (transition_agent_run now (rt_db st) i [RQueued, RRunning] RCancelled None err)"
  by (auto simp: cancel_one_def Let_def split: prod.splits option.splits if_splits)

lemma transition_ok [inv_intros]:
  "runtime_ok st \<Longrightarrow> transition now run_id froms to result err st = Inr st' \<Longrightarrow> runtime_ok st'"
  unfolding runtime_ok_def using transition_rt_db forest_ok_transition by metis

lemma cancel_runs_ok [inv_intros]:
  "runtime_ok st \<Longrightarrow> cancel_runs now err ids st = Inr st' \<Longrightarrow> runtime_ok st'"
proof (induction ids arbitrary: st)
  case (Cons i ids)
  then obtain s where s: "cancel_one now err i st = Inr s" "cancel_runs now err ids s = Inr st'"
    by (auto simp: try_bind_Inr)
  then have "runtime_ok s"
    using Cons.prems(1) cancel_one_rt_db [OF s(1)] forest_ok_transition
    unfolding runtime_ok_def by metis
  then show ?case using Cons.IH s by blast
qed simp

lemma fold_record_rt_db [simp]:
  "rt_db (fold (\<lambda>run st. record_terminal run (emit_run run st)) runs st) = rt_db st"
  by (induction runs arbitrary: st) simp_all

lemma recover_rt_db:
  "rt_db (fst (recover_after_restart now st)) =
     map (\<lambda>r. if is_active (ar_status r) then interrupted_row now RESTART_INTERRUPTION_REASON r
              else r) (rt_db st)"
  by (simp add: recover_after_restart_def interrupt_incomplete_agent_runs_def Let_def)

lemma recover_ok [inv_intros]:
  "runtime_ok st \<Longrightarrow> runtime_ok (fst (recover_after_restart now st))"
  unfolding runtime_ok_def recover_rt_db
  by (rule forest_ok_map) (auto split: if_splits)

section \<open>The runtime as a machine\<close>

text \<open>
  What callers can do, in any order: every operation that returns without an error, the
  counting of tool calls, and a restart of the process, which starts from the table alone.
\<close>

inductive runtime_step :: "agent_registry \<Rightarrow> runtime \<Rightarrow> runtime \<Rightarrow> bool" for reg where
  s_primary: "begin_primary uuid pk snapshot task st = Inr (h, st') \<Longrightarrow> runtime_step reg st st'"
| s_activate:
    "activate_persisted_primary run snapshot st = Inr (h, st') \<Longrightarrow> run \<in> set (rt_db st) \<Longrightarrow>
     runtime_step reg st st'"
| s_main: "queue_main reg uuid md st = Inr (h, st') \<Longrightarrow> runtime_step reg st st'"
| s_subagent: "queue_subagent reg uuid sr st = Inr (h, st') \<Longrightarrow> runtime_step reg st st'"
| s_retry: "retry_child_handle reg uuid pk i st = Inr (h, st') \<Longrightarrow> runtime_step reg st st'"
| s_running: "mark_running now i st = Inr st' \<Longrightarrow> runtime_step reg st st'"
| s_complete: "complete_run now i result st = Inr st' \<Longrightarrow> runtime_step reg st st'"
| s_fail: "fail_run now i err st = Inr st' \<Longrightarrow> runtime_step reg st st'"
| s_interrupt: "interrupt_run now i reason st = Inr st' \<Longrightarrow> runtime_step reg st st'"
| s_cancel: "cancel_child now pk i st = Inr st' \<Longrightarrow> runtime_step reg st st'"
| s_cancel_all: "cancel_descendants_of_root now pk i st = Inr st' \<Longrightarrow> runtime_step reg st st'"
| s_tool: "increment_agent_run_tool_count (rt_db st) i = Inr db' \<Longrightarrow>
     runtime_step reg st (st\<lparr>rt_db := db'\<rparr>)"
| s_restart: "runtime_step reg st (fst (recover_after_restart now (runtime_new (rt_db st))))"

lemma runtime_step_ok: "runtime_step reg st st' \<Longrightarrow> runtime_ok st \<Longrightarrow> runtime_ok st'"
proof (induction rule: runtime_step.induct)
  case (s_activate run snapshot st h st')
  then have "rt_db st' = rt_db st"
    by (auto simp: activate_persisted_primary_def register_run_def Let_def split: if_splits)
  with s_activate show ?case by (simp add: runtime_ok_def)
next
  case (s_cancel now pk i st st')
  then show ?case by (auto simp: cancel_child_def simp del: cancel_runs.simps intro: cancel_runs_ok
        split: option.splits if_splits)
next
  case (s_cancel_all now pk i st st')
  then show ?case
    by (auto simp: cancel_descendants_of_root_def intro: cancel_runs_ok split: option.splits if_splits)
next
  case (s_tool st i db')
  have "forest_ok d c (map (\<lambda>r. if ar_run_id r = i then r\<lparr>ar_tool_count := ar_tool_count r + 1\<rparr>
      else r) (rt_db st))" if "forest_ok d c (rt_db st)" for d c
    using that by (intro forest_ok_map) (auto split: if_splits)
  with s_tool show ?case
    by (auto simp: runtime_ok_def increment_agent_run_tool_count_def split: if_splits)
next
  case (s_restart st now)
  then have "runtime_ok (runtime_new (rt_db st))" by (simp add: runtime_ok_def runtime_new_def)
  then show ?case by (rule recover_ok)
qed (auto simp: mark_running_def complete_run_def fail_run_def interrupt_run_def
    intro: begin_primary_ok queue_main_ok queue_subagent_ok retry_child_ok transition_ok)

text \<open>What a finished run reports; no operation changes it once the run is terminal.\<close>

definition row_outcome ::
    "agent_run \<Rightarrow> agent_run_status \<times> string option \<times> string option \<times> int option" where
  "row_outcome r = (ar_status r, ar_result r, ar_error r, ar_finished_at r)"

definition outcome_of ::
    "string \<Rightarrow> runtime \<Rightarrow> (agent_run_status \<times> string option \<times> string option \<times> int option) option" where
  "outcome_of i st = map_option row_outcome (find_run i (rt_db st))"

definition finished ::
    "(agent_run_status \<times> string option \<times> string option \<times> int option) option \<Rightarrow> bool" where
  "finished out = (case out of None \<Rightarrow> False | Some (status, _) \<Rightarrow> is_terminal status)"

definition keeps_finished :: "agent_run list \<Rightarrow> agent_run list \<Rightarrow> bool" where
  "keeps_finished db db' \<longleftrightarrow>
     (\<forall>i r. find_run i db = Some r \<and> is_terminal (ar_status r) \<longrightarrow>
        (\<exists>r'. find_run i db' = Some r' \<and> row_outcome r' = row_outcome r))"

lemma keeps_finished_refl [simp]: "keeps_finished db db"
  by (simp add: keeps_finished_def)

lemma keeps_finished_trans:
  assumes "keeps_finished a b" "keeps_finished b c" shows "keeps_finished a c"
  unfolding keeps_finished_def
proof (intro allI impI, elim conjE)
  fix i r assume "find_run i a = Some r" "is_terminal (ar_status r)"
  then obtain r' where r': "find_run i b = Some r'" "row_outcome r' = row_outcome r"
    using assms(1) by (auto simp: keeps_finished_def)
  then have "is_terminal (ar_status r')"
    using \<open>is_terminal (ar_status r)\<close> by (simp add: row_outcome_def)
  then show "\<exists>r'. find_run i c = Some r' \<and> row_outcome r' = row_outcome r"
    using assms(2) r' unfolding keeps_finished_def by metis
qed

lemma find_run_map:
  "(\<And>r. ar_run_id (f r) = ar_run_id r) \<Longrightarrow> find_run i (map f db) = map_option f (find_run i db)"
  by (induction db) (auto simp: find_run_def)

lemma keeps_finished_map:
  assumes "\<And>r. ar_run_id (f r) = ar_run_id r" "\<And>r. is_terminal (ar_status r) \<Longrightarrow> row_outcome (f r) = row_outcome r"
  shows "keeps_finished db (map f db)"
  using assms(2) by (auto simp: keeps_finished_def find_run_map [OF assms(1)])

lemma keeps_finished_append [simp]: "keeps_finished db (db @ xs)"
proof -
  have "find_run i (db @ xs) = find_run i db" if "find_run i db \<noteq> None" for i
    using that unfolding find_run_def by (induction db) auto
  then show ?thesis by (force simp: keeps_finished_def)
qed

lemma keeps_finished_transition:
  "keeps_finished db (fst (transition_agent_run now db run_id froms to result err))"
  unfolding transition_agent_run_map
  by (rule keeps_finished_map) (simp_all add: transition_row_def)

lemma keeps_finished_insert:
  "insert_and_register ins sn st = Inr (h, st') \<Longrightarrow>
   ins = insert_run root (rt_db st) run \<Longrightarrow> keeps_finished (rt_db st) (rt_db st')"
  by (auto simp: insert_and_register_def try_bind_Inr insert_run_def insert_agent_run_row_def
      split: sum.splits if_splits)
    (metis keeps_finished_append rt_db_simps(4) runtime.select_convs(1) runtime.surjective
      runtime.update_convs(1) snd_conv)

lemma keeps_finished_cancel:
  "cancel_runs now err ids st = Inr st' \<Longrightarrow> keeps_finished (rt_db st) (rt_db st')"
proof (induction ids arbitrary: st)
  case (Cons i ids)
  then obtain s where s: "cancel_one now err i st = Inr s" "cancel_runs now err ids s = Inr st'"
    by (auto simp: try_bind_Inr)
  then have "keeps_finished (rt_db st) (rt_db s)"
    using cancel_one_rt_db [OF s(1)] keeps_finished_transition by simp
  then show ?case using Cons.IH [OF s(2)] keeps_finished_trans by blast
qed simp

lemma keeps_finished_recover:
  "keeps_finished (rt_db st) (rt_db (fst (recover_after_restart now st)))"
  unfolding recover_rt_db
  by (rule keeps_finished_map) (auto simp: interrupted_row_def is_terminal_def)

lemma runtime_step_keeps_finished:
  "runtime_step reg st st' \<Longrightarrow> keeps_finished (rt_db st) (rt_db st')"
proof (induction rule: runtime_step.induct)
  case (s_primary uuid pk snapshot task st h st')
  then show ?case
    unfolding begin_primary_def insert_primary_agent_run_def
    by (rule keeps_finished_insert) (rule refl)
next
  case (s_activate run snapshot st h st')
  then show ?case
    by (auto simp: activate_persisted_primary_def register_run_def Let_def split: if_splits)
next
  case (s_main uuid md st h st')
  then show ?case
    by (auto simp: queue_main_def try_bind_Inr insert_agent_run_def split: option.splits if_splits
        intro: keeps_finished_insert [OF _ refl])
next
  case (s_subagent uuid sr st h st')
  then show ?case
    by (auto simp: queue_subagent_def try_bind_Inr insert_agent_run_def
        intro: keeps_finished_insert [OF _ refl])
next
  case (s_retry uuid pk i st h st')
  then show ?case
    by (auto simp: retry_child_handle_def try_bind_Inr insert_agent_run_def
        split: option.splits if_splits intro: keeps_finished_insert [OF _ refl])
next
  case (s_cancel now pk i st st')
  then show ?case
    by (auto simp: cancel_child_def simp del: cancel_runs.simps dest: keeps_finished_cancel
        split: option.splits if_splits)
next
  case (s_cancel_all now pk i st st')
  then show ?case
    by (auto simp: cancel_descendants_of_root_def dest: keeps_finished_cancel
        split: option.splits if_splits)
next
  case (s_tool st i db')
  have "keeps_finished (rt_db st) (map (\<lambda>r. if ar_run_id r = i
      then r\<lparr>ar_tool_count := ar_tool_count r + 1\<rparr> else r) (rt_db st))"
    by (rule keeps_finished_map) (simp_all add: row_outcome_def)
  with s_tool show ?case
    by (auto simp: increment_agent_run_tool_count_def split: if_splits)
next
  case (s_restart st now)
  then show ?case
    using keeps_finished_recover [of "runtime_new (rt_db st)"] by (simp add: runtime_new_def)
qed (auto simp: mark_running_def complete_run_def fail_run_def interrupt_run_def
    dest!: transition_rt_db intro: keeps_finished_transition)

text \<open>A start on an empty table.\<close>

definition runtime_init :: "runtime \<Rightarrow> bool" where
  "runtime_init st \<longleftrightarrow> st = runtime_new []"

interpretation delegation: absorbing runtime_init "runtime_step reg" runtime_ok "outcome_of i" finished
  for reg :: agent_registry and i :: string
proof
  fix st st' :: runtime
  show "runtime_ok st" if "runtime_init st"
    using that by (simp add: runtime_init_def runtime_new_def runtime_ok_def forest_ok_def
        retried_def List.map_filter_def)
  show "runtime_ok st'" if "runtime_ok st" "runtime_step reg st st'"
    using that runtime_step_ok by blast
  show "outcome_of i st' = outcome_of i st"
    if "runtime_ok st" "runtime_step reg st st'" and fin: "finished (outcome_of i st)"
  proof -
    obtain r where r: "find_run i (rt_db st) = Some r" "is_terminal (ar_status r)"
      using fin by (auto simp: outcome_of_def finished_def row_outcome_def split: option.splits)
    then show ?thesis
      using runtime_step_keeps_finished [OF that(2)]
      by (auto simp: keeps_finished_def outcome_of_def)
  qed
qed

section \<open>Cancelling a subtree\<close>

definition all_stopped :: "string \<Rightarrow> agent_run list \<Rightarrow> bool" where
  "all_stopped i db \<longleftrightarrow> list_all (\<lambda>r. ar_run_id r = i \<longrightarrow> is_terminal (ar_status r)) db"

lemma cancel_one_map:
  assumes "cancel_one now err i st = Inr st'"
  obtains f where "keeps_skeleton f" "rt_db st' = map f (rt_db st)"
    "\<And>r. is_terminal (ar_status r) \<Longrightarrow> f r = r" "\<And>r. ar_run_id r = i \<Longrightarrow> is_terminal (ar_status (f r))"
proof
  let ?f = "\<lambda>r. if ar_run_id r = i \<and> List.member [RQueued, RRunning] (ar_status r)
      \<and> \<not> is_terminal (ar_status r) then transition_row now RCancelled None err r else r"
  show "rt_db st' = map ?f (rt_db st)"
    using cancel_one_rt_db [OF assms] by (simp only: transition_agent_run_map)
  show "is_terminal (ar_status (?f r))" if "ar_run_id r = i" for r
    using that by (auto simp: transition_row_def is_terminal_def is_active_def)
qed simp_all

lemma cancel_runs_map:
  assumes "cancel_runs now err ids st = Inr st'"
  shows "\<exists>f. keeps_skeleton f \<and> rt_db st' = map f (rt_db st)
    \<and> (\<forall>r. is_terminal (ar_status r) \<longrightarrow> f r = r)
    \<and> (\<forall>r. ar_run_id r \<in> set ids \<longrightarrow> is_terminal (ar_status (f r)))"
  using assms
proof (induction ids arbitrary: st)
  case Nil
  then show ?case by (intro exI [of _ "\<lambda>r. r"]) (simp add: keeps_skeleton_def)
next
  case (Cons i ids)
  then obtain s where s: "cancel_one now err i st = Inr s" "cancel_runs now err ids s = Inr st'"
    by (auto simp: try_bind_Inr)
  obtain f where f: "keeps_skeleton f" "rt_db s = map f (rt_db st)"
    "\<And>r. is_terminal (ar_status r) \<Longrightarrow> f r = r" "\<And>r. ar_run_id r = i \<Longrightarrow> is_terminal (ar_status (f r))"
    using cancel_one_map [OF s(1)] by blast
  obtain g where g: "keeps_skeleton g" "rt_db st' = map g (rt_db s)"
    "\<And>r. is_terminal (ar_status r) \<Longrightarrow> g r = r"
    "\<And>r. ar_run_id r \<in> set ids \<Longrightarrow> is_terminal (ar_status (g r))"
    using Cons.IH [OF s(2)] by blast
  have "is_terminal (ar_status (g (f r)))" if "ar_run_id r \<in> set (i # ids)" for r
    using that f(4) g(3,4) keeps_skeletonD(1) [OF f(1)] by (cases "ar_run_id r = i") auto
  then show ?case
    using f g by (intro exI [of _ "g \<circ> f"]) (auto simp: keeps_skeleton_def)
qed

section \<open>Sample states for the witnesses\<close>

definition sample_agent :: agent_profile where
  "sample_agent = \<lparr>ag_id = ''coder'', ag_name = ''Coder'', ag_model = Route ''fast''\<rparr>"

definition sample_registry :: agent_registry where
  "sample_registry = \<lparr>resolved_snapshot = (\<lambda>_. Some sample_agent), subagent_model = Route ''fast''\<rparr>"

definition sample_root :: agent_run where
  "sample_root = stored_row (new_run ''r1'' ''s1'' None None ''coder'' (Some sample_agent) Primary
     ''task'' None)"

definition sample_child :: agent_run where
  "sample_child = stored_row (subagent_row sample_registry ''r2'' sample_root sample_root
     \<lparr>sr_parent_run_id = ''r1'', sr_subagent_type = ''general'', sr_task = ''t'',
      sr_dispatch = None\<rparr>)"

definition sample_runtime :: runtime where
  "sample_runtime = snd (register_run sample_root (Some sample_agent) ((runtime_new [])\<lparr>rt_db := [sample_root]\<rparr>))"

definition sample_runtime2 :: runtime where
  "sample_runtime2 =
     snd (register_run sample_child None (sample_runtime\<lparr>rt_db := [sample_root, sample_child]\<rparr>))"

lemmas sample_run_defs =
  sample_agent_def sample_registry_def sample_root_def sample_child_def stored_row_def new_run_def
  subagent_row_def link_parts_def

lemma sample_runtime_db [simp]:
  "rt_db sample_runtime = [sample_root]" "rt_db sample_runtime2 = [sample_root, sample_child]"
  by (simp_all add: sample_runtime_def sample_runtime2_def)

lemma sample_runtime_step: "runtime_step sample_registry (runtime_new []) sample_runtime"
proof (rule s_primary)
  show "begin_primary ''r1'' ''s1'' sample_agent ''task'' (runtime_new []) =
      Inr (fst (register_run sample_root (Some sample_agent)
        ((runtime_new [])\<lparr>rt_db := [sample_root]\<rparr>)), sample_runtime)"
    by (simp add: begin_primary_def insert_and_register_def insert_primary_agent_run_def
        insert_run_def validate_agent_run_def insert_agent_run_row_def dispatch_ok_def
        find_run_def runtime_new_def sample_runtime_def sample_run_defs Let_def)
qed

lemma sample_runtime2_step: "runtime_step sample_registry sample_runtime sample_runtime2"
proof (rule s_subagent)
  let ?req = "\<lparr>sr_parent_run_id = ''r1'', sr_subagent_type = ''general'', sr_task = ''t'',
      sr_dispatch = None\<rparr>"
  have "tree [sample_root] ''r1'' = Inr (sample_root, [sample_root], sample_root)"
    by (simp add: tree_def get_agent_run_def find_run_def ancestors_walk.simps sample_run_defs)
  moreover have "ensure_capacity [sample_root] sample_root = Inr ()"
    by (simp add: ensure_capacity_def list_descendant_agent_runs_def children_of_def
        next_level_def MAX_ACTIVE_CHILD_RUNS_def sample_run_defs)
  moreover have "insert_agent_run [sample_root] (subagent_row sample_registry ''r2'' sample_root
      sample_root ?req) = Inr (sample_child, [sample_root, sample_child])"
    by (simp add: insert_agent_run_def insert_run_def validate_agent_run_def validate_retry_def
        insert_agent_run_row_def dispatch_ok_def find_run_def sample_run_defs)
  ultimately show "queue_subagent sample_registry ''r2'' ?req sample_runtime =
      Inr (fst (register_run sample_child None (sample_runtime\<lparr>rt_db := [sample_root, sample_child]\<rparr>)),
           sample_runtime2)"
    by (simp add: queue_subagent_def insert_and_register_def sample_runtime2_def)
qed

lemma sample_reachable:
  "reachable runtime_init (runtime_step sample_registry) sample_runtime"
  "reachable runtime_init (runtime_step sample_registry) sample_runtime2"
proof -
  have "reachable runtime_init (runtime_step sample_registry) (runtime_new [])"
    by (rule reachable.start) (simp add: runtime_init_def)
  then show r: "reachable runtime_init (runtime_step sample_registry) sample_runtime"
    using sample_runtime_step by (rule reachable.step)
  show "reachable runtime_init (runtime_step sample_registry) sample_runtime2"
    using r sample_runtime2_step by (rule reachable.step)
qed

section \<open>Properties\<close>

text \<open>C3: The limits of delegation hold in every state any sequence of operations and restarts can
  reach: under each root at most eight runs are active; no run is more than four main
  delegations deep; no agent appears twice on the path from a run to its root, so no agent
  delegates to itself or to an ancestor; and no run is retried twice.\<close>

theorem delegation_limits:
  assumes "reachable runtime_init (runtime_step reg) st" and "r \<in> set (rt_db st)"
  shows "length (filter (\<lambda>r. ar_agent_kind r = MainDelegate)
      (lineage (rev (rt_db st)) (ar_run_id r))) \<le> 4
    \<and> distinct (List.map_filter ar_executing_agent_id (lineage (rev (rt_db st)) (ar_run_id r)))
    \<and> (ar_parent_run_id r = None \<longrightarrow>
        length (filter (\<lambda>d. is_active (ar_status d))
          (list_descendant_agent_runs (rt_db st) (ar_run_id r))) \<le> 8)
    \<and> distinct (List.map_filter ar_retry_of (rt_db st))"
proof -
  have ok: "runtime_ok st" using assms(1) by (rule delegation.reachable_inv)
  have "active_below (rt_db st) (ar_run_id r) =
      length (filter (\<lambda>d. is_active (ar_status d)) (list_descendant_agent_runs (rt_db st) (ar_run_id r)))"
    by (rule active_below_query [OF runtime_okD [OF ok]])
  then show ?thesis
    using ok assms(2)
    by (auto simp: runtime_ok_def forest_ok_def main_depth_def agents_on_path_def retried_def
        MAX_MAIN_DELEGATION_DEPTH_def MAX_ACTIVE_CHILD_RUNS_def)
qed

theorem delegation_limits_witness:
  "length (filter (\<lambda>d. is_active (ar_status d))
     (list_descendant_agent_runs (rt_db sample_runtime2) (ar_run_id sample_root))) \<le> 8"
  using delegation_limits [OF sample_reachable(2), of sample_root]
  by (simp add: sample_root_def stored_row_def new_run_def link_parts_def Let_def
      split: prod.splits)

text \<open>C4: A finished run stays finished, with the result it reported: from any reachable state in
  which a run is completed, failed, cancelled or interrupted, no later sequence of operations
  (late completions, cancellations, retries, restarts) changes its status, result, error or
  finishing time.\<close>

theorem finished_run_is_final:
  assumes "reachable runtime_init (runtime_step reg) st"
    and "finished (outcome_of i st)" and "(runtime_step reg)\<^sup>*\<^sup>* st st'"
  shows "outcome_of i st' = outcome_of i st"
  using assms delegation.reachable_final by blast

theorem finished_run_is_final_witness:
  "\<exists>st. outcome_of ''r1'' st = Some (RCompleted, Some ''ok'', None, Some 5)
     \<and> outcome_of ''r1'' (fst (recover_after_restart 9 (runtime_new (rt_db st)))) =
         Some (RCompleted, Some ''ok'', None, Some 5)"
proof -
  obtain st where st: "complete_run 5 ''r1'' ''ok'' sample_runtime = Inr st"
      "outcome_of ''r1'' st = Some (RCompleted, Some ''ok'', None, Some 5)"
    by (simp add: complete_run_def transition_def transition_agent_run_def get_agent_run_def
        find_run_def outcome_of_def row_outcome_def transition_row_def is_terminal_def
        is_active_def sample_run_defs Let_def record_terminal_def emit_def)
  have "reachable runtime_init (runtime_step sample_registry) st"
    using sample_reachable(1) s_complete [OF st(1)] by (rule reachable.step)
  moreover have "finished (outcome_of ''r1'' st)"
    by (simp add: st(2) finished_def is_terminal_def is_active_def)
  moreover have "(runtime_step sample_registry)\<^sup>*\<^sup>* st
      (fst (recover_after_restart 9 (runtime_new (rt_db st))))"
    by (rule r_into_rtranclp) (rule s_restart)
  ultimately have "outcome_of ''r1'' (fst (recover_after_restart 9 (runtime_new (rt_db st)))) =
      outcome_of ''r1'' st"
    by (rule finished_run_is_final)
  with st(2) show ?thesis by auto
qed

text \<open>C39: The walk up the tree ends: in every reachable state, for every stored run, following
  parents within the run's session returns the run's whole ancestry up to a parentless root of
  the same session; it never loops and is never incomplete, so those errors are dead code.\<close>

theorem tree_walk_terminates:
  assumes "reachable runtime_init (runtime_step reg) st"
  shows "tree (rt_db st) i =
      (case find_run i (rt_db st) of
         None \<Rightarrow> Inl UnknownRun
       | Some p \<Rightarrow> Inr (p, lineage (rev (rt_db st)) i, last (lineage (rev (rt_db st)) i)))
    \<and> tree (rt_db st) i \<noteq> Inl WalkDiverges \<and> tree (rt_db st) i \<noteq> Inl AncestryIncomplete"
  using tree_lineage [OF runtime_okD [OF delegation.reachable_inv [OF assms]]]
  by (simp add: get_agent_run_def split: option.split)

theorem tree_walk_terminates_witness:
  "tree (rt_db sample_runtime2) ''r2'' = Inr (sample_child, [sample_child, sample_root], sample_root)"
proof -
  have "find_run ''r2'' (rt_db sample_runtime2) = Some sample_child"
    and "lineage (rev (rt_db sample_runtime2)) ''r2'' = [sample_child, sample_root]"
    by (simp_all add: find_run_def sample_run_defs)
  then show ?thesis using tree_walk_terminates [OF sample_reachable(2), of "''r2''"] by simp
qed

text \<open>A restart leaves no run behind: after recovery no run in the table is queued or running,
  the count returned is the number of runs that were, and each of those is announced and
  recorded as interrupted, with the restart as its reason.\<close>

theorem restart_leaves_no_active_run:
  "list_all (\<lambda>r. is_terminal (ar_status r)) (rt_db (fst (recover_after_restart now st)))
   \<and> snd (recover_after_restart now st) = length (filter (\<lambda>r. is_active (ar_status r)) (rt_db st))
   \<and> map ar_run_id (filter (\<lambda>r. is_active (ar_status r)) (rt_db st)) =
       map rc_run_id (drop (length (rt_events st)) (rt_events (fst (recover_after_restart now st))))"
proof -
  let ?f = "fold (\<lambda>run st. record_terminal run (emit_run run st))"
  have "rt_events (?f runs st) = rt_events st @ map (\<lambda>r.
      \<lparr>rc_session_pk = ar_session_pk r, rc_run_id = ar_run_id r,
       rc_parent_run_id = ar_parent_run_id r,
       rc_status = agent_run_status_as_db (ar_status r)\<rparr>) runs" for runs st
    by (induction runs arbitrary: st) (simp_all add: record_terminal_def emit_run_def emit_def)
  then have "map rc_run_id (drop (length (rt_events st)) (rt_events (fst (recover_after_restart now st)))) =
      map ar_run_id (filter (\<lambda>r. is_active (ar_status r)) (rt_db st))"
    by (simp add: recover_after_restart_def interrupt_incomplete_agent_runs_def Let_def
        comp_def interrupted_row_def)
  moreover have "list_all (\<lambda>r. is_terminal (ar_status r)) (rt_db (fst (recover_after_restart now st)))"
    unfolding recover_rt_db
    by (auto simp: list_all_iff interrupted_row_def is_terminal_def is_active_def)
  moreover have "snd (recover_after_restart now st) =
      length (filter (\<lambda>r. is_active (ar_status r)) (rt_db st))"
    by (simp add: recover_after_restart_def interrupt_incomplete_agent_runs_def Let_def)
  ultimately show ?thesis by simp
qed

text \<open>C38: Cancelling a child stops its whole subtree: when the call returns without an error, the
  run and every run below it, at any depth, is finished; runs that had already finished are
  exactly as they were.\<close>

theorem cancel_child_stops_subtree:
  assumes "reachable runtime_init (runtime_step reg) st" and "cancel_child now pk i st = Inr st'"
    and "r \<in> set (rt_db st')"
  shows "(ar_run_id r = i \<or> i \<in> ar_run_id ` set (tl (lineage (rev (rt_db st')) (ar_run_id r))) \<longrightarrow>
      is_terminal (ar_status r))
    \<and> (\<forall>r0. r0 \<in> set (rt_db st) \<and> is_terminal (ar_status r0) \<longrightarrow> r0 \<in> set (rt_db st'))"
proof -
  have wf: "wf_rows (rev (rt_db st))"
    using runtime_okD [OF delegation.reachable_inv [OF assms(1)]] .
  obtain run where run: "get_agent_run (rt_db st) i = Some run"
    and c: "cancel_runs now None (ar_run_id run # map ar_run_id (list_descendant_agent_runs (rt_db st) i)) st
      = Inr st'"
    using assms(2)
    by (auto simp: cancel_child_def simp del: cancel_runs.simps split: option.splits if_splits)
  have i: "ar_run_id run = i" using run find_run_SomeD by (auto simp: get_agent_run_def)
  obtain f where f: "keeps_skeleton f" "rt_db st' = map f (rt_db st)"
    "\<And>r. is_terminal (ar_status r) \<Longrightarrow> f r = r"
    "\<And>r. ar_run_id r \<in> insert i (ar_run_id ` set (list_descendant_agent_runs (rt_db st) i)) \<Longrightarrow>
      is_terminal (ar_status (f r))"
    using cancel_runs_map [OF c] i by auto
  obtain r1 where r1: "r1 \<in> set (rt_db st)" "r = f r1" using assms(3) f(2) by auto
  have "set (list_descendant_agent_runs (rt_db st) i) = {r \<in> set (rt_db st). is_descendant (rt_db st) i r}"
    using mset_descendants [OF wf, of i] by (metis mset_eq_setD set_filter)
  then have "is_terminal (ar_status r)" if "ar_run_id r = i \<or> is_descendant (rt_db st') i r"
    using that r1 f keeps_skeletonD(1) [OF f(1)] is_descendant_map [OF f(1), of "rt_db st" i r1]
    by auto
  moreover have "r0 \<in> set (rt_db st')" if "r0 \<in> set (rt_db st)" "is_terminal (ar_status r0)" for r0
    using that f(2,3) by force
  ultimately show ?thesis by (auto simp: is_descendant_def)
qed

theorem cancel_child_stops_subtree_witness:
  "\<exists>st' r. cancel_child 5 ''s1'' ''r2'' sample_runtime2 = Inr st' \<and> r \<in> set (rt_db st')
     \<and> ar_run_id r = ''r2'' \<and> is_terminal (ar_status r)"
proof -
  let ?r = "transition_row 5 RCancelled None None sample_child"
  have d: "list_descendant_agent_runs [sample_root, sample_child] ''r2'' = []"
    by (simp add: list_descendant_agent_runs_def children_of_def next_level_def sample_run_defs)
  have g: "get_agent_run [sample_root, sample_child] ''r2'' = Some sample_child"
    by (simp add: get_agent_run_def find_run_def sample_run_defs)
  have c: "ar_session_pk sample_child = ''s1''" "ar_parent_run_id sample_child = Some ''r1''"
    "ar_run_id sample_child = ''r2''"
    by (simp_all add: sample_run_defs)
  have "transition_agent_run 5 [sample_root, sample_child] ''r2'' [RQueued, RRunning] RCancelled None None
      = ([sample_root, ?r], True)"
    by (simp add: transition_agent_run_def sample_run_defs is_terminal_def is_active_def Let_def)
  moreover have "get_agent_run [sample_root, ?r] ''r2'' = Some ?r"
    by (simp add: get_agent_run_def find_run_def sample_run_defs transition_row_def)
  ultimately obtain st' where st': "cancel_child 5 ''s1'' ''r2'' sample_runtime2 = Inr st'"
      "rt_db st' = [sample_root, ?r]"
    using d g c by (auto simp: cancel_child_def cancel_one_def Let_def split: option.splits)
  then have "is_terminal (ar_status ?r)"
    using cancel_child_stops_subtree [OF sample_reachable(2) st'(1), of ?r] c
    by (simp add: transition_row_def)
  then show ?thesis using st' c by (auto simp: transition_row_def)
qed

end
