(* ===== verification/Transaction.thy ===== *)
theory Transaction
  imports Interfaces
begin

text \<open>
  \<open>agents/transaction.rs\<close>: the journaled replacement of the agent registry on disk.

  A disk maps the relative paths the code uses to nodes: a file, or a directory held whole. The
  atomic changes the code makes (a rename, a removal, a replacement of a file, a journal
  written) are \<open>change\<close>s and its flushes are \<open>sync\<close>s; a program is a function of the disk and
  of the fates of its changes and flushes: to work, to fail with an error of the system, or to
  be cut off with the power. Fates that run out are all \<open>Works\<close>, so running a program with
  every list of fates is every mix of failures and a crash at every point. The copy of an
  agent directory and the removal of one count as one change, and the file lock is taken to
  be held. Journals are stored as the structures they print; a transaction directory is known
  by its identifier.
\<close>

section \<open>Paths\<close>

text \<open>The components of a relative Unix path: empty and inner \<open>.\<close> components vanish.\<close>

datatype component = RootDir | CurDir | ParentDir | Normal string

definition path_components :: "string \<Rightarrow> component list" where
  "path_components p =
     (let ws = split_char CHR ''/'' p;
          root = (if starts_with p ''/'' then [RootDir] else []);
          first = (case ws of w # _ \<Rightarrow> if w = ''.'' then [CurDir] else [] | [] \<Rightarrow> [])
      in root @ first @
         List.map_filter (\<lambda>w. if w = [] \<or> w = ''.'' then None
                         else if w = ''..'' then Some ParentDir else Some (Normal w)) ws)"

datatype tx_error =
    BackSlash
  | EmptyPath
  | OutsideRoot
  | NonNormalComponent
  | InvalidAgentId
  | ForeignPath
  | UnexpectedTarget
  | BadSchema
  | IdMismatch
  | BothSourceAndTarget
  | NeitherSourceNorTarget
  | RollbackBoth
  | RollbackNeither
  | ReplayBoth
  | ReplayNeither
  | DeleteStillActive
  | DeleteBoth
  | ReplayNoIndex
  | MissingSource
  | IoError
  | ReadFailed
  | GenerationChanged

definition LEGACY_MEMORY_DIR :: string where
  "LEGACY_MEMORY_DIR = ''memory''"

definition is_normal :: "component \<Rightarrow> bool" where
  "is_normal c = (case c of Normal _ \<Rightarrow> True | _ \<Rightarrow> False)"

definition path_from_relative :: "string \<Rightarrow> tx_error + string" where
  "path_from_relative value =
     (if List.member value (CHR 0x5C) then Inl BackSlash
      else (case path_components value of
          [] \<Rightarrow> Inl EmptyPath
        | first # rest \<Rightarrow>
            if first = Normal ''agents'' then
              (if list_all is_normal rest then Inr value else Inl NonNormalComponent)
            else if first = Normal LEGACY_MEMORY_DIR then
              (if rest \<noteq> [] then Inl OutsideRoot else Inr value)
            else Inl OutsideRoot))"

definition validate_leaf_id :: "string \<Rightarrow> tx_error + unit" where
  "validate_leaf_id i =
     (if i = [] \<or> length (path_components i) \<noteq> 1 \<or> List.member i CHR ''/''
         \<or> List.member i (CHR 0x5C)
      then Inl InvalidAgentId else Inr ())"

section \<open>Disk, journal, and programs that may be cut off\<close>

datatype node = FileN string | DirN "(string \<times> node) list"

datatype journal_phase = Prepared | Committed

datatype journal_operation =
    Replace (op_stage: string) (op_target: string) (op_backup: string)
  | Create (op_stage: string) (op_target: string)
  | Delete (op_target: string) (op_trash: string)

record journal =
  j_schema_version :: nat
  j_transaction_id :: string
  j_phase :: journal_phase
  j_operations :: "journal_operation list"
  j_index_stage :: string
  j_index_target :: string
  j_index_backup :: string

record disk =
  d_nodes :: "(string \<times> node) list"
  d_txdirs :: "string list"
  d_journals :: "(string \<times> journal) list"

datatype 'a outcome = Done 'a | Failed tx_error | Crashed

text \<open>\<open>IoFault\<close> fails the next change, \<open>SyncFault\<close> the next flush.\<close>

datatype fate = Works | IoFault | SyncFault | PowerCut

type_synonym 'a prog = "fate list \<times> disk \<Rightarrow> 'a outcome \<times> fate list \<times> disk"

definition return :: "'a \<Rightarrow> 'a prog" where
  "return a = (\<lambda>(es, d). (Done a, es, d))"

definition fail :: "tx_error \<Rightarrow> 'a prog" where
  "fail e = (\<lambda>(es, d). (Failed e, es, d))"

definition bind :: "'a prog \<Rightarrow> ('a \<Rightarrow> 'b prog) \<Rightarrow> 'b prog" where
  "bind m f =
     (\<lambda>s. case m s of
        (Done a, s') \<Rightarrow> f a s'
      | (Failed e, s') \<Rightarrow> (Failed e, s')
      | (Crashed, s') \<Rightarrow> (Crashed, s'))"

definition attempt :: "'a prog \<Rightarrow> (tx_error + 'a) prog" where
  "attempt m =
     (\<lambda>s. case m s of
        (Done a, s') \<Rightarrow> (Done (Inr a), s')
      | (Failed e, s') \<Rightarrow> (Done (Inl e), s')
      | (Crashed, s') \<Rightarrow> (Crashed, s'))"

text \<open>One atomic change of the disk: it is made, it fails, or the power is cut before it.\<close>

definition change :: "(disk \<Rightarrow> disk) \<Rightarrow> unit prog" where
  "change f =
     (\<lambda>(es, d). case es of
        IoFault # es \<Rightarrow> (Failed IoError, es, d)
      | PowerCut # es \<Rightarrow> (Crashed, es, d)
      | es \<Rightarrow> (Done (), tl es, f d))"

text \<open>\<open>sync_parent\<close> and \<open>sync_directory\<close>, after a change that has already taken effect.\<close>

definition sync :: "unit prog" where
  "sync =
     (\<lambda>(es, d). case es of
        SyncFault # es \<Rightarrow> (Failed IoError, es, d)
      | PowerCut # es \<Rightarrow> (Crashed, es, d)
      | es \<Rightarrow> (Done (), tl es, d))"

definition look :: "(disk \<Rightarrow> 'a) \<Rightarrow> 'a prog" where
  "look f = (\<lambda>(es, d). (Done (f d), es, d))"

definition guarded :: "tx_error + 'a \<Rightarrow> 'a prog" where
  "guarded r = (case r of Inl e \<Rightarrow> fail e | Inr a \<Rightarrow> return a)"

fun for_each :: "'x list \<Rightarrow> ('x \<Rightarrow> unit prog) \<Rightarrow> unit prog" where
  "for_each [] f = return ()"
| "for_each (x # xs) f = bind (f x) (\<lambda>_. for_each xs f)"

definition node_at :: "disk \<Rightarrow> string \<Rightarrow> node option" where
  "node_at d p = map_of (d_nodes d) p"

definition path_exists :: "disk \<Rightarrow> string \<Rightarrow> bool" where
  "path_exists d p \<longleftrightarrow> node_at d p \<noteq> None"

definition put_node :: "string \<Rightarrow> node \<Rightarrow> disk \<Rightarrow> disk" where
  "put_node p n d = d\<lparr>d_nodes := AList.update p n (d_nodes d)\<rparr>"

definition remove_node :: "string \<Rightarrow> disk \<Rightarrow> disk" where
  "remove_node p d = d\<lparr>d_nodes := AList.delete p (d_nodes d)\<rparr>"

definition rename_node :: "string \<Rightarrow> string \<Rightarrow> disk \<Rightarrow> disk" where
  "rename_node s t d =
     (case node_at d s of None \<Rightarrow> d | Some n \<Rightarrow> put_node t n (remove_node s d))"

section \<open>File operations\<close>

definition checked_join :: "string \<Rightarrow> string prog" where
  "checked_join relative = guarded (path_from_relative relative)"

definition rename_path :: "string \<Rightarrow> string \<Rightarrow> unit prog" where
  "rename_path source target =
     bind (look (\<lambda>d. path_exists d source)) (\<lambda>ok.
       if ok then
         bind (change (rename_node source target)) (\<lambda>_. bind sync (\<lambda>_. sync))
       else fail MissingSource)"

definition remove_path :: "string \<Rightarrow> unit prog" where
  "remove_path p = change (remove_node p)"

definition atomic_write :: "string \<Rightarrow> string \<Rightarrow> unit prog" where
  "atomic_write p bytes = bind (change (put_node p (FileN bytes))) (\<lambda>_. sync)"

definition write_synced :: "string \<Rightarrow> node \<Rightarrow> unit prog" where
  "write_synced p n = bind (change (put_node p n)) (\<lambda>_. sync)"

definition read_file :: "string \<Rightarrow> string prog" where
  "read_file p =
     bind (look (\<lambda>d. node_at d p)) (\<lambda>n.
       case n of Some (FileN bytes) \<Rightarrow> return bytes | _ \<Rightarrow> fail ReadFailed)"

definition move_path :: "string \<Rightarrow> string \<Rightarrow> unit prog" where
  "move_path source target =
     bind (checked_join source) (\<lambda>source.
     bind (checked_join target) (\<lambda>target.
     bind (look (\<lambda>d. (path_exists d source, path_exists d target))) (\<lambda>both.
       case both of
         (True, False) \<Rightarrow> rename_path source target
       | (False, True) \<Rightarrow> return ()
       | (True, True) \<Rightarrow> fail BothSourceAndTarget
       | (False, False) \<Rightarrow> fail NeitherSourceNorTarget)))"

text \<open>Everything below \<open>agents/.transactions/<id>\<close>, with its journal.\<close>

definition tx_root :: "string \<Rightarrow> string" where
  "tx_root i = ''agents/.transactions/'' @ i"

definition stage_path :: "string \<Rightarrow> string \<Rightarrow> string" where
  "stage_path i target = tx_root i @ ''/stage/'' @ target"

definition backup_path :: "string \<Rightarrow> string \<Rightarrow> string" where
  "backup_path i target = tx_root i @ ''/backup/'' @ target"

definition trash_path :: "string \<Rightarrow> string \<Rightarrow> string" where
  "trash_path i target = tx_root i @ ''/trash/'' @ target"

definition internal :: "string \<Rightarrow> string \<Rightarrow> bool" where
  "internal i p \<longleftrightarrow> starts_with p (tx_root i @ ''/'')"

definition drop_tx :: "string \<Rightarrow> disk \<Rightarrow> disk" where
  "drop_tx i d =
     d\<lparr>d_nodes := filter (\<lambda>(p, _). \<not> internal i p) (d_nodes d),
       d_txdirs := removeAll i (d_txdirs d),
       d_journals := AList.delete i (d_journals d)\<rparr>"

text \<open>The contents go one by one, the journal and the directory last.\<close>

definition remove_dir_all :: "string \<Rightarrow> unit prog" where
  "remove_dir_all i =
     bind (look (\<lambda>d. filter (internal i) (map fst (d_nodes d)))) (\<lambda>contents.
     bind (for_each contents (\<lambda>p. change (remove_node p))) (\<lambda>_. change (drop_tx i)))"

definition remove_transaction_dir :: "string \<Rightarrow> unit prog" where
  "remove_transaction_dir i =
     bind (look (\<lambda>d. List.member (d_txdirs d) i)) (\<lambda>there.
       if there then bind (remove_dir_all i) (\<lambda>_. sync) else return ())"

definition write_journal :: "string \<Rightarrow> journal \<Rightarrow> unit prog" where
  "write_journal i j =
     bind (change (\<lambda>d. d\<lparr>d_journals := AList.update i j (d_journals d)\<rparr>)) (\<lambda>_. sync)"

section \<open>Journal validation\<close>

definition JOURNAL_SCHEMA_VERSION :: nat where
  "JOURNAL_SCHEMA_VERSION = 1"

definition validate_internal_path :: "string \<Rightarrow> string \<Rightarrow> tx_error + unit" where
  "validate_internal_path actual expected =
     try_bind (path_from_relative actual) (\<lambda>_.
       if actual \<noteq> expected then Inl ForeignPath else Inr ())"

definition validate_target_path :: "string \<Rightarrow> string \<Rightarrow> tx_error + unit" where
  "validate_target_path actual expected =
     try_bind (path_from_relative actual) (\<lambda>_.
       if actual \<noteq> expected then Inl UnexpectedTarget else Inr ())"

definition validate_agent_directory_target :: "string \<Rightarrow> tx_error + unit" where
  "validate_agent_directory_target target =
     try_bind (path_from_relative target) (\<lambda>_.
       case strip_prefix target ''agents/'' of
         None \<Rightarrow> Inl UnexpectedTarget
       | Some i \<Rightarrow> validate_leaf_id i)"

definition validate_registry_target :: "string \<Rightarrow> tx_error + unit" where
  "validate_registry_target target =
     try_bind (path_from_relative target) (\<lambda>_.
       if target = ''agents/subagents.yaml'' then Inr ()
       else validate_agent_directory_target target)"

definition validate_operation :: "string \<Rightarrow> journal_operation \<Rightarrow> tx_error + unit" where
  "validate_operation i oper =
     (case oper of
        Replace stage target backup \<Rightarrow>
          try_bind (validate_registry_target target) (\<lambda>_.
          try_bind (validate_internal_path stage (stage_path i target)) (\<lambda>_.
            validate_internal_path backup (backup_path i target)))
      | Create stage target \<Rightarrow>
          try_bind (validate_registry_target target) (\<lambda>_.
            validate_internal_path stage (stage_path i target))
      | Delete target trash \<Rightarrow>
          try_bind (if target \<noteq> LEGACY_MEMORY_DIR then validate_agent_directory_target target
                    else Inr ()) (\<lambda>_.
            validate_internal_path trash (trash_path i target)))"

fun validate_operations :: "string \<Rightarrow> journal_operation list \<Rightarrow> tx_error + unit" where
  "validate_operations i [] = Inr ()"
| "validate_operations i (x # xs) =
     try_bind (validate_operation i x) (\<lambda>_. validate_operations i xs)"

definition validate_journal :: "journal \<Rightarrow> string \<Rightarrow> tx_error + unit" where
  "validate_journal j directory_id =
     (if j_schema_version j \<noteq> JOURNAL_SCHEMA_VERSION then Inl BadSchema
      else
        try_bind (validate_leaf_id directory_id) (\<lambda>_.
        try_bind (validate_internal_path (j_index_stage j)
                    (stage_path directory_id ''agents/index.yaml'')) (\<lambda>_.
        try_bind (validate_target_path (j_index_target j) ''agents/index.yaml'') (\<lambda>_.
        try_bind (validate_internal_path (j_index_backup j)
                    (backup_path directory_id ''agents/index.yaml'')) (\<lambda>_.
          validate_operations directory_id (j_operations j))))))"

section \<open>Rollback, replay and recovery\<close>

definition rollback_operation :: "journal_operation \<Rightarrow> unit prog" where
  "rollback_operation oper =
     (case oper of
        Replace _ target backup \<Rightarrow>
          bind (checked_join target) (\<lambda>target.
          bind (checked_join backup) (\<lambda>backup.
          bind (look (\<lambda>d. path_exists d backup)) (\<lambda>b.
            if b then
              bind (look (\<lambda>d. path_exists d target)) (\<lambda>t.
              bind (if t then remove_path target else return ()) (\<lambda>_.
                rename_path backup target))
            else return ())))
      | Create _ target \<Rightarrow>
          bind (checked_join target) (\<lambda>target.
          bind (look (\<lambda>d. path_exists d target)) (\<lambda>t.
            if t then bind (remove_path target) (\<lambda>_. sync) else return ()))
      | Delete target trash \<Rightarrow>
          bind (checked_join target) (\<lambda>target.
          bind (checked_join trash) (\<lambda>trash.
          bind (look (\<lambda>d. (path_exists d target, path_exists d trash))) (\<lambda>both.
            case both of
              (False, True) \<Rightarrow> rename_path trash target
            | (True, False) \<Rightarrow> return ()
            | (True, True) \<Rightarrow> fail RollbackBoth
            | (False, False) \<Rightarrow> fail RollbackNeither))))"

definition rollback_index :: "journal \<Rightarrow> unit prog" where
  "rollback_index j =
     bind (checked_join (j_index_target j)) (\<lambda>index_target.
     bind (checked_join (j_index_backup j)) (\<lambda>index_backup.
     bind (look (\<lambda>d. path_exists d index_backup)) (\<lambda>b.
       if b then
         bind (look (\<lambda>d. path_exists d index_target)) (\<lambda>t.
         bind (if t then remove_path index_target else return ()) (\<lambda>_.
           rename_path index_backup index_target))
       else return ())))"

definition rollback_prepared :: "journal \<Rightarrow> unit prog" where
  "rollback_prepared j =
     bind (for_each (rev (j_operations j)) rollback_operation) (\<lambda>_. rollback_index j)"

definition replay_install :: "string \<Rightarrow> string \<Rightarrow> unit prog" where
  "replay_install stage target =
     bind (checked_join stage) (\<lambda>stage.
     bind (checked_join target) (\<lambda>target.
     bind (look (\<lambda>d. (path_exists d stage, path_exists d target))) (\<lambda>both.
       case both of
         (True, False) \<Rightarrow> rename_path stage target
       | (False, True) \<Rightarrow> return ()
       | (True, True) \<Rightarrow> fail ReplayBoth
       | (False, False) \<Rightarrow> fail ReplayNeither)))"

definition replay_operation :: "journal_operation \<Rightarrow> unit prog" where
  "replay_operation oper =
     (case oper of
        Replace stage target _ \<Rightarrow> replay_install stage target
      | Create stage target \<Rightarrow> replay_install stage target
      | Delete target trash \<Rightarrow>
          bind (checked_join target) (\<lambda>target.
          bind (checked_join trash) (\<lambda>trash.
          bind (look (\<lambda>d. (path_exists d target, path_exists d trash))) (\<lambda>both.
            case both of
              (False, _) \<Rightarrow> return ()
            | (True, False) \<Rightarrow> fail DeleteStillActive
            | (True, True) \<Rightarrow> fail DeleteBoth))))"

definition replay_index :: "journal \<Rightarrow> unit prog" where
  "replay_index j =
     bind (checked_join (j_index_stage j)) (\<lambda>index_stage.
     bind (look (\<lambda>d. path_exists d index_stage)) (\<lambda>staged.
       if staged then
         bind (read_file index_stage) (\<lambda>bytes.
         bind (checked_join (j_index_target j)) (\<lambda>index_target. atomic_write index_target bytes))
       else
         bind (checked_join (j_index_target j)) (\<lambda>index_target.
         bind (look (\<lambda>d. path_exists d index_target)) (\<lambda>t.
           if t then return () else fail ReplayNoIndex))))"

definition replay_committed :: "journal \<Rightarrow> unit prog" where
  "replay_committed j =
     bind (for_each (j_operations j) replay_operation) (\<lambda>_. replay_index j)"

text \<open>What recovery does with one transaction directory.\<close>

definition recover_one :: "string \<Rightarrow> (string \<times> string) list \<Rightarrow> (string \<times> string) list prog" where
  "recover_one i notices =
     bind (look (\<lambda>d. map_of (d_journals d) i)) (\<lambda>found.
       case found of
         None \<Rightarrow> bind (remove_transaction_dir i) (\<lambda>_. return notices)
       | Some j \<Rightarrow>
           bind (guarded (validate_journal j i)) (\<lambda>_.
           if i \<noteq> j_transaction_id j then fail IdMismatch
           else
             bind (case j_phase j of
                     Prepared \<Rightarrow> bind (rollback_prepared j) (\<lambda>_. return ''transaction-rolled-back'')
                   | Committed \<Rightarrow> bind (replay_committed j) (\<lambda>_. return ''transaction-replayed''))
               (\<lambda>code. bind (remove_transaction_dir i) (\<lambda>_.
                 return (notices @ [(code, j_transaction_id j)])))))"

fun recover_dirs :: "string list \<Rightarrow> (string \<times> string) list \<Rightarrow> (string \<times> string) list prog" where
  "recover_dirs [] notices = return notices"
| "recover_dirs (i # is) notices = bind (recover_one i notices) (recover_dirs is)"

definition recover_transactions :: "(string \<times> string) list prog" where
  "recover_transactions =
     bind (look (\<lambda>d. sort (d_txdirs d))) (\<lambda>dirs. recover_dirs dirs [])"

section \<open>The registry generation\<close>

text \<open>The hash function, from bytes to the printed digest, is the argument \<open>sha256\<close>.\<close>

definition hashed_file :: "string \<Rightarrow> node option \<Rightarrow> tx_error + string" where
  "hashed_file label n =
     (case n of
        Some (FileN bytes) \<Rightarrow> Inr (label @ [CHR 0x00] @ bytes @ [CHR 0x00])
      | None \<Rightarrow> Inr (label @ [CHR 0x00] @ [CHR 0xFF] @ [CHR 0x00])
      | Some (DirN _) \<Rightarrow> Inl ReadFailed)"

definition agent_dirs :: "disk \<Rightarrow> (string \<times> (string \<times> node) list) list" where
  "agent_dirs d =
     sort_key fst (List.map_filter
       (\<lambda>(p, n). case strip_prefix p ''agents/'' of
            None \<Rightarrow> None
          | Some i \<Rightarrow>
              (case n of
                 DirN es \<Rightarrow> if CHR ''/'' \<notin> set i \<and> i \<noteq> ''.transactions'' then Some (i, es) else None
               | FileN _ \<Rightarrow> None))
       (d_nodes d))"

fun hash_agent_dirs :: "(string \<times> (string \<times> node) list) list \<Rightarrow> tx_error + string" where
  "hash_agent_dirs [] = Inr []"
| "hash_agent_dirs ((i, es) # dirs) =
     try_bind (hashed_file (i @ ''/agent.yaml'') (map_of es ''agent.yaml'')) (\<lambda>h.
     try_bind (hash_agent_dirs dirs) (\<lambda>hs. Inr (h @ hs)))"

definition registry_generation :: "(string \<Rightarrow> string) \<Rightarrow> disk \<Rightarrow> tx_error + string" where
  "registry_generation sha256 d =
     try_bind (hashed_file ''index.yaml'' (node_at d ''agents/index.yaml'')) (\<lambda>a.
     try_bind (hashed_file ''subagents.yaml'' (node_at d ''agents/subagents.yaml'')) (\<lambda>b.
     try_bind (hash_agent_dirs (agent_dirs d)) (\<lambda>c. Inr (sha256 (a @ b @ c)))))"

section \<open>Preparing\<close>

record disk_image =
  di_index_yaml :: string
  di_subagents_yaml :: string
  di_agents :: "(string \<times> string) list"
  di_deleted :: "string list"

definition agent_path :: "string \<Rightarrow> string" where
  "agent_path a = ''agents/'' @ a"

text \<open>The staged directory of an agent: the present one, with its profile replaced.\<close>

definition stage_agent :: "string \<Rightarrow> string \<times> string \<Rightarrow> journal_operation prog" where
  "stage_agent i agent =
     (let (a, yaml) = agent;
          target = agent_path a;
          stage = stage_path i (agent_path a);
          backup = backup_path i (agent_path a)
      in bind (guarded (validate_leaf_id a)) (\<lambda>_.
         bind (checked_join target) (\<lambda>target_path.
         bind (checked_join stage) (\<lambda>stage_path.
         bind (look (\<lambda>d. node_at d target_path)) (\<lambda>cur.
           case cur of
             Some (DirN es) \<Rightarrow>
               bind (write_synced stage_path (DirN (AList.update ''agent.yaml'' (FileN yaml) es)))
                 (\<lambda>_. return (Replace stage target backup))
           | Some (FileN _) \<Rightarrow> fail ReadFailed
           | None \<Rightarrow>
               bind (write_synced stage_path (DirN [(''agent.yaml'', FileN yaml)]))
                 (\<lambda>_. return (Create stage target)))))))"

fun stage_agents :: "string \<Rightarrow> (string \<times> string) list \<Rightarrow> journal_operation list prog" where
  "stage_agents i [] = return []"
| "stage_agents i (a # as) =
     bind (stage_agent i a) (\<lambda>oper. bind (stage_agents i as) (\<lambda>ops. return (oper # ops)))"

definition stage_subagents :: "string \<Rightarrow> string \<Rightarrow> journal_operation prog" where
  "stage_subagents i yaml =
     (let target = ''agents/subagents.yaml'';
          stage = stage_path i ''agents/subagents.yaml'';
          backup = backup_path i ''agents/subagents.yaml''
      in bind (checked_join stage) (\<lambda>stage_path.
         bind (write_synced stage_path (FileN yaml)) (\<lambda>_.
         bind (look (\<lambda>d. path_exists d target)) (\<lambda>t.
           return (if t then Replace stage target backup else Create stage target)))))"

fun deletions :: "string \<Rightarrow> string list \<Rightarrow> journal_operation list prog" where
  "deletions i [] = return []"
| "deletions i (a # as) =
     bind (guarded (validate_leaf_id a)) (\<lambda>_.
     bind (deletions i as) (\<lambda>ops.
       return (Delete (agent_path a) (trash_path i (agent_path a)) # ops)))"

definition legacy_deletion :: "string \<Rightarrow> bool \<Rightarrow> journal_operation list prog" where
  "legacy_deletion i delete_legacy_memory =
     bind (look (\<lambda>d. path_exists d LEGACY_MEMORY_DIR)) (\<lambda>there.
       return (if delete_legacy_memory \<and> there
               then [Delete LEGACY_MEMORY_DIR (trash_path i LEGACY_MEMORY_DIR)]
               else []))"

text \<open>The index is staged last, and the journal of the operations closes the preparation.\<close>

definition seal :: "string \<Rightarrow> string \<Rightarrow> journal_operation list \<Rightarrow> journal prog" where
  "seal i yaml ops =
     (let index_stage = stage_path i ''agents/index.yaml'';
          j = \<lparr>j_schema_version = JOURNAL_SCHEMA_VERSION, j_transaction_id = i,
               j_phase = Prepared, j_operations = ops,
               j_index_stage = index_stage, j_index_target = ''agents/index.yaml'',
               j_index_backup = backup_path i ''agents/index.yaml''\<rparr>
      in bind (checked_join index_stage) (\<lambda>index_path.
         bind (write_synced index_path (FileN yaml)) (\<lambda>_.
         bind (write_journal i j) (\<lambda>_.
         bind sync (\<lambda>_. bind sync (\<lambda>_. return j))))))"

definition stage_all :: "string \<Rightarrow> disk_image \<Rightarrow> bool \<Rightarrow> journal prog" where
  "stage_all i cand delete_legacy_memory =
     bind (stage_agents i (di_agents cand)) (\<lambda>agents.
     bind (stage_subagents i (di_subagents_yaml cand)) (\<lambda>subagents.
     bind (deletions i (di_deleted cand)) (\<lambda>deletes.
     bind (legacy_deletion i delete_legacy_memory) (\<lambda>legacy.
       seal i (di_index_yaml cand) (agents @ [subagents] @ deletes @ legacy)))))"

text \<open>
  \<open>i\<close> is the fresh identifier. A failure while staging drops the incomplete directory again.
\<close>

definition prepare ::
    "(string \<Rightarrow> string) \<Rightarrow> string \<Rightarrow> disk_image \<Rightarrow> string option \<Rightarrow> bool \<Rightarrow> journal prog" where
  "prepare sha256 i cand expected_generation delete_legacy_memory =
     bind (look (registry_generation sha256)) (\<lambda>actual.
     bind (case expected_generation of
             None \<Rightarrow> return ()
           | Some expected \<Rightarrow>
               bind (guarded actual) (\<lambda>g. if g \<noteq> expected then fail GenerationChanged else return ()))
       (\<lambda>_.
     bind (checked_join (tx_root i)) (\<lambda>_.
     bind (change (\<lambda>d. d\<lparr>d_txdirs := d_txdirs d @ [i]\<rparr>)) (\<lambda>_.
     bind (attempt (stage_all i cand delete_legacy_memory)) (\<lambda>r.
       case r of
         Inr j \<Rightarrow> return j
       | Inl e \<Rightarrow> bind (attempt (remove_dir_all i)) (\<lambda>_. fail e))))))"

section \<open>Committing\<close>

definition move_out :: "journal_operation \<Rightarrow> unit prog" where
  "move_out oper =
     (case oper of
        Replace _ target backup \<Rightarrow> move_path target backup
      | Delete target trash \<Rightarrow> move_path target trash
      | Create _ _ \<Rightarrow> return ())"

definition move_in :: "journal_operation \<Rightarrow> unit prog" where
  "move_in oper =
     (case oper of
        Replace stage target _ \<Rightarrow> move_path stage target
      | Create stage target \<Rightarrow> move_path stage target
      | Delete _ _ \<Rightarrow> return ())"

definition install_index :: "journal \<Rightarrow> unit prog" where
  "install_index j =
     bind (checked_join (j_index_target j)) (\<lambda>index_target.
     bind (checked_join (j_index_backup j)) (\<lambda>index_backup.
     bind (look (\<lambda>d. path_exists d index_target)) (\<lambda>t.
     bind (if t then rename_path index_target index_backup else return ()) (\<lambda>_.
     bind (checked_join (j_index_stage j)) (\<lambda>index_stage.
     bind (read_file index_stage) (\<lambda>staged.
     bind (atomic_write index_target staged) (\<lambda>_. sync)))))))"

definition commit_before_marker :: "journal \<Rightarrow> unit prog" where
  "commit_before_marker j =
     bind (for_each (j_operations j) move_out) (\<lambda>_.
     bind (for_each (j_operations j) move_in) (\<lambda>_. install_index j))"

definition rollback_after_failure :: "journal \<Rightarrow> tx_error \<Rightarrow> 'a prog" where
  "rollback_after_failure j commit_error =
     bind (attempt (rollback_prepared j)) (\<lambda>r.
       case r of
         Inr _ \<Rightarrow> bind (remove_transaction_dir (j_transaction_id j)) (\<lambda>_. fail commit_error)
       | Inl rollback_error \<Rightarrow> fail rollback_error)"

definition cleanup_committed :: "journal \<Rightarrow> unit prog" where
  "cleanup_committed j =
     bind (replay_committed j) (\<lambda>_. remove_transaction_dir (j_transaction_id j))"

definition commit :: "(string \<Rightarrow> string) \<Rightarrow> journal \<Rightarrow> string prog" where
  "commit sha256 j =
     bind (attempt (commit_before_marker j)) (\<lambda>r.
       case r of
         Inl e \<Rightarrow> rollback_after_failure j e
       | Inr _ \<Rightarrow>
           (let committed = j\<lparr>j_phase := Committed\<rparr>
            in bind (attempt (bind (write_journal (j_transaction_id j) committed) (\<lambda>_. sync))) (\<lambda>m.
               case m of
                 Inl e \<Rightarrow> rollback_after_failure j e
               | Inr _ \<Rightarrow>
                   bind (look (registry_generation sha256)) (\<lambda>g.
                   bind (guarded g) (\<lambda>generation.
                   bind (attempt (cleanup_committed committed)) (\<lambda>_. return generation))))))"

text \<open>
  What the bootstrap and \<open>AgentRegistry::commit_disk_image\<close> do to the disk: prepare the image,
  the latter against the generation last seen, and commit it.
\<close>

definition prepare_and_commit ::
    "(string \<Rightarrow> string) \<Rightarrow> string \<Rightarrow> disk_image \<Rightarrow> string option \<Rightarrow> bool \<Rightarrow> string prog" where
  "prepare_and_commit sha256 i cand expected_generation delete_legacy_memory =
     bind (prepare sha256 i cand expected_generation delete_legacy_memory) (commit sha256)"

end
