(* ===== verification/TransactionSafety.thy ===== *)
theory TransactionSafety
  imports Transaction
begin

text \<open>
  The transactions of \<open>Transaction\<close> are atomic under crashes. A small program logic (\<open>triple\<close>)
  says what holds when a program returns, fails, or is cut off. The state of every operation
  of the journal is then followed through the commit, and two invariants cover all the points
  at which the power can go: one from which the rollback restores the old registry, one from
  which the replay confirms the new one.
\<close>

section \<open>A program logic with failures and crashes\<close>

text \<open>
  From a disk with \<open>P\<close>, and flushes that do not fail: \<open>Q\<close> when the program returns, \<open>F\<close> when it
  fails, \<open>X\<close> when it is cut off.
\<close>

definition triple ::
    "(disk \<Rightarrow> bool) \<Rightarrow> 'a prog \<Rightarrow> ('a \<Rightarrow> disk \<Rightarrow> bool) \<Rightarrow> (tx_error \<Rightarrow> disk \<Rightarrow> bool) \<Rightarrow> (disk \<Rightarrow> bool)
     \<Rightarrow> bool" where
  "triple P m Q F X \<longleftrightarrow>
     (\<forall>es d. SyncFault \<notin> set es \<longrightarrow> P d \<longrightarrow>
        (case m (es, d) of (oc, es', d') \<Rightarrow>
           SyncFault \<notin> set es'
           \<and> (case oc of Done a \<Rightarrow> Q a d' | Failed e \<Rightarrow> F e d' | Crashed \<Rightarrow> X d')))"

lemma tripleD:
  assumes "triple P m Q F X" "SyncFault \<notin> set es" "P d" "m (es, d) = (oc, es', d')"
  shows "SyncFault \<notin> set es'" "oc = Done a \<Longrightarrow> Q a d'" "oc = Failed e \<Longrightarrow> F e d'"
    "oc = Crashed \<Longrightarrow> X d'"
proof -
  have "SyncFault \<notin> set es'
      \<and> (case oc of Done a \<Rightarrow> Q a d' | Failed e \<Rightarrow> F e d' | Crashed \<Rightarrow> X d')"
    using assms(1) [unfolded triple_def, rule_format, OF assms(2,3)] by (simp add: assms(4))
  then show "SyncFault \<notin> set es'" "oc = Done a \<Longrightarrow> Q a d'" "oc = Failed e \<Longrightarrow> F e d'"
    "oc = Crashed \<Longrightarrow> X d'" by simp_all
qed

lemma tripleI:
  assumes "\<And>es d oc es' d'. SyncFault \<notin> set es \<Longrightarrow> P d \<Longrightarrow> m (es, d) = (oc, es', d') \<Longrightarrow>
    SyncFault \<notin> set es' \<and> (case oc of Done a \<Rightarrow> Q a d' | Failed e \<Rightarrow> F e d' | Crashed \<Rightarrow> X d')"
  shows "triple P m Q F X"
  unfolding triple_def using assms by blast

lemma triple_return [intro]: "(\<And>d. P d \<Longrightarrow> Q a d) \<Longrightarrow> triple P (return a) Q F X"
  by (simp add: triple_def return_def)

lemma triple_fail: "(\<And>d. P d \<Longrightarrow> F e d) \<Longrightarrow> triple P (fail e) Q F X"
  by (simp add: triple_def fail_def)

lemma triple_pre: "triple P m Q F X \<Longrightarrow> (\<And>d. P' d \<Longrightarrow> P d) \<Longrightarrow> triple P' m Q F X"
  by (simp add: triple_def)

lemma triple_conseq:
  assumes "triple P m Q F X" "\<And>d. P' d \<Longrightarrow> P d" "\<And>a d. Q a d \<Longrightarrow> Q' a d"
    "\<And>e d. F e d \<Longrightarrow> F' e d" "\<And>d. X d \<Longrightarrow> X' d"
  shows "triple P' m Q' F' X'"
proof (rule tripleI)
  fix es d oc es' d'
  assume "SyncFault \<notin> set es" "P' d" and m: "m (es, d) = (oc, es', d')"
  then have "SyncFault \<notin> set es" "P d" using assms(2) by simp_all
  note t = tripleD [OF assms(1) this m]
  show "SyncFault \<notin> set es' \<and> (case oc of Done a \<Rightarrow> Q' a d' | Failed e \<Rightarrow> F' e d' | Crashed \<Rightarrow> X' d')"
    using t assms(3-5) by (cases oc) simp_all
qed

lemma triple_bind:
  assumes "triple P m R F X" "\<And>a. triple (R a) (f a) Q F X"
  shows "triple P (bind m f) Q F X"
proof (rule tripleI)
  fix es d oc es' d'
  assume p: "SyncFault \<notin> set es" "P d" and b: "bind m f (es, d) = (oc, es', d')"
  obtain oc1 es1 d1 where m: "m (es, d) = (oc1, es1, d1)" by (cases "m (es, d)")
  note t = tripleD [OF assms(1) p m]
  show "SyncFault \<notin> set es' \<and> (case oc of Done a \<Rightarrow> Q a d' | Failed e \<Rightarrow> F e d' | Crashed \<Rightarrow> X d')"
  proof (cases oc1)
    case (Done a)
    then have "f a (es1, d1) = (oc, es', d')" using b m by (simp add: bind_def)
    note u = tripleD [OF assms(2) t(1) t(2) [OF Done] this]
    show ?thesis using u by (cases oc) simp_all
  next
    case (Failed e)
    then show ?thesis using b m t by (auto simp: bind_def)
  next
    case Crashed
    then show ?thesis using b m t by (auto simp: bind_def)
  qed
qed

lemma triple_look: "(\<And>a. triple P (g a) Q F X) \<Longrightarrow> triple P (bind (look f) g) Q F X"
  by (simp add: triple_def bind_def look_def)

lemma triple_change:
  "(\<And>d. P d \<Longrightarrow> Q () (f d)) \<Longrightarrow> (\<And>d. P d \<Longrightarrow> F IoError d) \<Longrightarrow> (\<And>d. P d \<Longrightarrow> X d) \<Longrightarrow>
   triple P (change f) Q F X"
  by (auto simp: triple_def change_def split: list.splits fate.splits)

lemma triple_sync:
  "(\<And>d. P d \<Longrightarrow> Q () d) \<Longrightarrow> (\<And>d. P d \<Longrightarrow> X d) \<Longrightarrow> triple P sync Q F X"
  by (auto simp: triple_def sync_def split: list.splits fate.splits)

lemma triple_attempt:
  assumes "triple P m Q F X"
  shows "triple P (attempt m) (\<lambda>r d. case r of Inr a \<Rightarrow> Q a d | Inl e \<Rightarrow> F e d) F' X"
proof (rule tripleI)
  fix es d oc es' d'
  assume p: "SyncFault \<notin> set es" "P d" and b: "attempt m (es, d) = (oc, es', d')"
  obtain oc1 es1 d1 where m: "m (es, d) = (oc1, es1, d1)" by (cases "m (es, d)")
  note t = tripleD [OF assms p m]
  show "SyncFault \<notin> set es' \<and> (case oc of
      Done r \<Rightarrow> (case r of Inr a \<Rightarrow> Q a d' | Inl e \<Rightarrow> F e d') | Failed e \<Rightarrow> F' e d' | Crashed \<Rightarrow> X d')"
    using t b m by (cases oc1) (auto simp: attempt_def)
qed

lemma triple_for_each:
  assumes "\<And>fin x todo. xs = fin @ x # todo \<Longrightarrow>
    triple (Inv fin (x # todo)) (f x) (\<lambda>_. Inv (fin @ [x]) todo) F X"
  shows "triple (Inv [] xs) (for_each xs f) (\<lambda>_. Inv xs []) F X"
proof -
  have "xs = fin @ todo \<Longrightarrow> triple (Inv fin todo) (for_each todo f) (\<lambda>_. Inv xs []) F X" for fin todo
  proof (induction todo arbitrary: fin)
    case Nil
    then show ?case by auto
  next
    case (Cons x todo)
    then have "triple (Inv (fin @ [x]) todo) (for_each todo f) (\<lambda>_. Inv xs []) F X" by simp
    with assms [OF Cons.prems] show ?case by (auto intro: triple_bind)
  qed
  from this [of "[]" xs] show ?thesis by simp
qed

subsection \<open>Symbolic execution\<close>

text \<open>
  From one disk: \<open>Q\<close> holds when the program returns, and \<open>X\<close> wherever it can be cut off or the
  system can fail it; it never fails by itself. The rules are equations, so the simplifier
  executes a program.
\<close>

definition runs ::
    "disk \<Rightarrow> 'a prog \<Rightarrow> ('a \<Rightarrow> disk \<Rightarrow> bool) \<Rightarrow> (disk \<Rightarrow> bool) \<Rightarrow> bool" where
  "runs d m Q X \<longleftrightarrow> triple (\<lambda>d'. d' = d) m Q (\<lambda>e d. e = IoError \<and> X d) X"

lemma triple_runs:
  "(\<And>d. P d \<Longrightarrow> runs d m Q X) \<Longrightarrow> triple P m Q (\<lambda>e d. e = IoError \<and> X d) X"
  by (simp add: runs_def triple_def)

lemma runs_triple: "triple P m Q (\<lambda>e d. e = IoError \<and> X d) X \<Longrightarrow> P d \<Longrightarrow> runs d m Q X"
  by (simp add: runs_def triple_def)

lemma bind_assoc [simp]: "bind (bind m f) g = bind m (\<lambda>a. bind (f a) g)"
  by (rule ext) (simp add: bind_def split: prod.split outcome.split)

lemma bind_basic [simp]:
  "bind (return a) f = f a" "bind (fail e) g = fail e"
  "bind (if b then m else m') h = (if b then bind m h else bind m' h)"
  by (rule ext; simp add: bind_def return_def fail_def split: prod.split)+

lemma guarded_simps [simp]: "guarded (Inl e) = fail e" "guarded (Inr a) = return a"
  by (simp_all add: guarded_def)

lemma runs_basic [simp]:
  "runs d (return a) Q X = Q a d"
  "runs d (bind (look f) g) Q X = runs d (g (f d)) Q X"
  "runs d (if b then m else m') Q X = (if b then runs d m Q X else runs d m' Q X)"
  by (auto simp: runs_def triple_def return_def bind_def look_def intro: exI [of _ "[]"])

lemma runs_bind:
  assumes "runs d m R X" "\<And>a d'. R a d' \<Longrightarrow> runs d' (f a) Q X" shows "runs d (bind m f) Q X"
  unfolding runs_def
proof (rule triple_bind)
  show "triple (\<lambda>d'. d' = d) m R (\<lambda>e d. e = IoError \<and> X d) X" using assms(1) by (simp add: runs_def)
  show "triple (R a) (f a) Q (\<lambda>e d. e = IoError \<and> X d) X" for a
    using assms(2) by (rule triple_runs)
qed

lemma runs_change [simp]: "runs d (change f) Q X \<longleftrightarrow> Q () (f d) \<and> X d"
proof
  assume r: "runs d (change f) Q X"
  show "Q () (f d) \<and> X d"
    using tripleD(2) [OF r [unfolded runs_def], of "[]" d "Done ()" "[]" "f d" "()"]
      tripleD(4) [OF r [unfolded runs_def], of "[PowerCut]" d Crashed "[]" d]
    by (simp add: change_def)
next
  show "Q () (f d) \<and> X d \<Longrightarrow> runs d (change f) Q X"
    unfolding runs_def by (intro triple_change) auto
qed

lemma runs_bind_change [simp]:
  "runs d (bind (change f) g) Q X \<longleftrightarrow> runs (f d) (g ()) Q X \<and> X d"
proof
  assume r: "runs d (bind (change f) g) Q X"
  have "runs (f d) (g ()) Q X"
    unfolding runs_def
  proof (rule tripleI)
    fix es e oc es' d'
    assume es: "SyncFault \<notin> set es" "e = f d" and g: "g () (es, e) = (oc, es', d')"
    have w: "SyncFault \<notin> set (Works # es)" using es(1) by simp
    have "bind (change f) g (Works # es, d) = (oc, es', d')"
      using g es(2) by (simp add: bind_def change_def)
    note t = tripleD [OF r [unfolded runs_def] w refl this]
    show "SyncFault \<notin> set es' \<and>
        (case oc of Done a \<Rightarrow> Q a d' | Failed e \<Rightarrow> e = IoError \<and> X d' | Crashed \<Rightarrow> X d')"
      using t by (cases oc) simp_all
  qed
  moreover have "X d"
    using tripleD(4) [OF r [unfolded runs_def], of "[PowerCut]" d Crashed "[]" d]
    by (simp add: bind_def change_def)
  ultimately show "runs (f d) (g ()) Q X \<and> X d" by simp
next
  assume "runs (f d) (g ()) Q X \<and> X d"
  then show "runs d (bind (change f) g) Q X"
    by (intro runs_bind [where R = "\<lambda>_ d'. d' = f d"]) auto
qed

lemma runs_sync [simp]: "runs d sync Q X \<longleftrightarrow> Q () d \<and> X d"
proof
  assume r: "runs d sync Q X"
  show "Q () d \<and> X d"
    using tripleD(2) [OF r [unfolded runs_def], of "[]" d "Done ()" "[]" d "()"]
      tripleD(4) [OF r [unfolded runs_def], of "[PowerCut]" d Crashed "[]" d]
    by (simp add: sync_def)
next
  show "Q () d \<and> X d \<Longrightarrow> runs d sync Q X"
    unfolding runs_def by (intro triple_sync) auto
qed

lemma runs_bind_sync [simp]: "runs d (bind sync g) Q X \<longleftrightarrow> runs d (g ()) Q X \<and> X d"
proof
  assume r: "runs d (bind sync g) Q X"
  have "runs d (g ()) Q X"
    unfolding runs_def
  proof (rule tripleI)
    fix es e oc es' d'
    assume es: "SyncFault \<notin> set es" "e = d" and g: "g () (es, e) = (oc, es', d')"
    have w: "SyncFault \<notin> set (Works # es)" using es(1) by simp
    have "bind sync g (Works # es, d) = (oc, es', d')"
      using g es(2) by (simp add: bind_def sync_def)
    note t = tripleD [OF r [unfolded runs_def] w refl this]
    show "SyncFault \<notin> set es' \<and>
        (case oc of Done a \<Rightarrow> Q a d' | Failed e \<Rightarrow> e = IoError \<and> X d' | Crashed \<Rightarrow> X d')"
      using t by (cases oc) simp_all
  qed
  moreover have "X d"
    using tripleD(4) [OF r [unfolded runs_def], of "[PowerCut]" d Crashed "[]" d]
    by (simp add: bind_def sync_def)
  ultimately show "runs d (g ()) Q X \<and> X d" by simp
next
  assume "runs d (g ()) Q X \<and> X d"
  then show "runs d (bind sync g) Q X"
    by (intro runs_bind [where R = "\<lambda>_ d'. d' = d"]) auto
qed

lemma runs_checked [simp]:
  "path_from_relative p = Inr p \<Longrightarrow> runs d (bind (checked_join p) f) Q X = runs d (f p) Q X"
  by (simp add: checked_join_def)

lemma runs_conseq:
  "runs d m Q X \<Longrightarrow> (\<And>a d. Q a d \<Longrightarrow> Q' a d) \<Longrightarrow> (\<And>d. X d \<Longrightarrow> X' d) \<Longrightarrow> runs d m Q' X'"
  unfolding runs_def by (erule triple_conseq) auto

lemma runs_attempt:
  assumes "runs d m Q X"
  shows "runs d (attempt m) (\<lambda>r d. case r of Inr a \<Rightarrow> Q a d | Inl e \<Rightarrow> e = IoError \<and> X d) X"
  using assms unfolding runs_def by (rule triple_attempt)

text \<open>A run whose fates all work is neither cut off nor failed by the system.\<close>

definition no_crash :: "'a prog \<Rightarrow> bool" where
  "no_crash m \<longleftrightarrow> (\<forall>d. fst (m ([], d)) \<noteq> Crashed \<and> fst (m ([], d)) \<noteq> Failed IoError
     \<and> fst (snd (m ([], d))) = [])"

lemma no_crash_basic [simp]:
  "no_crash (return a)" "e \<noteq> IoError \<Longrightarrow> no_crash (fail e)" "no_crash (look f)"
  "no_crash (change g)" "no_crash sync"
  by (simp_all add: no_crash_def return_def fail_def look_def change_def sync_def)

lemma no_crash_guarded [simp]: "r \<noteq> Inl IoError \<Longrightarrow> no_crash (guarded r)"
  by (cases r) auto

lemma path_from_relative_no_io [simp]: "path_from_relative p \<noteq> Inl IoError"
  by (simp add: path_from_relative_def split: list.split)

lemma no_crash_checked [simp]: "no_crash (checked_join p)"
  by (simp add: checked_join_def)

lemma no_crash_bind [simp]:
  assumes "no_crash m" "\<And>a. no_crash (f a)" shows "no_crash (bind m f)"
  unfolding no_crash_def
proof
  fix d
  obtain oc es d' where m: "m ([], d) = (oc, es, d')" by (cases "m ([], d)")
  then have "es = []" "oc \<noteq> Crashed" "oc \<noteq> Failed IoError"
    using assms(1) unfolding no_crash_def by (auto dest: spec [of _ d])
  then show "fst (bind m f ([], d)) \<noteq> Crashed \<and> fst (bind m f ([], d)) \<noteq> Failed IoError
      \<and> fst (snd (bind m f ([], d))) = []"
    using m assms(2) by (cases oc) (simp_all add: bind_def no_crash_def)
qed

lemma no_crash_for_each [simp]: "(\<And>x. no_crash (f x)) \<Longrightarrow> no_crash (for_each xs f)"
  by (induction xs) simp_all

lemma no_crash_files [simp]:
  "no_crash (rename_path s t)" "no_crash (remove_path s)" "no_crash (atomic_write s b)"
  "no_crash (read_file s)" "no_crash (remove_transaction_dir i)" "no_crash (write_journal i j)"
  by (simp_all add: rename_path_def remove_path_def atomic_write_def read_file_def
      remove_transaction_dir_def remove_dir_all_def write_journal_def
      split: option.split node.split del: bind_assoc)

lemma no_crash_rollback [simp]: "no_crash (rollback_operation x)" "no_crash (rollback_prepared j)"
proof -
  show r: "no_crash (rollback_operation x)" for x
    by (auto simp: rollback_operation_def split: journal_operation.split prod.split bool.split)
  show "no_crash (rollback_prepared j)"
    using r by (simp add: rollback_prepared_def rollback_index_def)
qed

lemma no_crash_replay [simp]: "no_crash (replay_committed j)"
proof -
  have "no_crash (replay_install s t)" for s t
    by (auto simp: replay_install_def split: prod.split bool.split)
  then have "no_crash (replay_operation x)" for x
    by (auto simp: replay_operation_def split: journal_operation.split prod.split bool.split)
  then show ?thesis by (simp add: replay_committed_def replay_index_def)
qed

lemma try_bind_Inl: "try_bind r f = Inl e \<longleftrightarrow> r = Inl e \<or> (\<exists>a. r = Inr a \<and> f a = Inl e)"
  by (cases r) simp_all

lemma validate_parts_no_io [simp]:
  "validate_leaf_id i \<noteq> Inl IoError" "validate_internal_path a b \<noteq> Inl IoError"
  "validate_target_path a b \<noteq> Inl IoError"
proof -
  show "validate_leaf_id i \<noteq> Inl IoError" by (simp add: validate_leaf_id_def)
  show "validate_internal_path a b \<noteq> Inl IoError"
    by (simp add: validate_internal_path_def try_bind_Inl)
  show "validate_target_path a b \<noteq> Inl IoError"
    by (simp add: validate_target_path_def try_bind_Inl)
qed

lemma validate_directory_no_io [simp]: "validate_agent_directory_target t \<noteq> Inl IoError"
  by (simp add: validate_agent_directory_target_def try_bind_Inl split: option.split)

lemma validate_registry_no_io [simp]: "validate_registry_target t \<noteq> Inl IoError"
  by (simp add: validate_registry_target_def try_bind_Inl)

lemma validate_operation_no_io [simp]: "validate_operation i x \<noteq> Inl IoError"
  by (cases x) (simp_all add: validate_operation_def try_bind_Inl)

lemma validate_operations_no_io [simp]: "validate_operations i xs \<noteq> Inl IoError"
  by (induction xs) (simp_all add: try_bind_Inl)

lemma validate_no_io [simp]: "validate_journal j i \<noteq> Inl IoError"
  by (simp add: validate_journal_def try_bind_Inl)

lemma no_crash_recover [simp]: "no_crash recover_transactions"
proof -
  have one: "no_crash (recover_one i ns)" for i ns
    by (auto simp: recover_one_def split: option.split journal_phase.split)
  have "no_crash (recover_dirs is ns)" for "is" ns
    by (induction "is" arbitrary: ns) (simp_all add: one)
  then show ?thesis by (simp add: recover_transactions_def)
qed

section \<open>Disks\<close>

lemma node_at_simps [simp]:
  "node_at (put_node p n d) q = (if q = p then Some n else node_at d q)"
  "node_at (remove_node p d) q = (if q = p then None else node_at d q)"
  "node_at (d\<lparr>d_journals := js\<rparr>) q = node_at d q" "node_at (d\<lparr>d_txdirs := ts\<rparr>) q = node_at d q"
  by (simp_all add: node_at_def put_node_def remove_node_def update_conv' AList.delete_conv')

lemma node_at_rename [simp]:
  "node_at d s = Some n \<Longrightarrow> s \<noteq> t \<Longrightarrow>
   node_at (rename_node s t d) q = (if q = t then Some n else if q = s then None else node_at d q)"
  by (simp add: rename_node_def)

lemma disk_fields [simp]:
  "d_txdirs (put_node p n d) = d_txdirs d" "d_journals (put_node p n d) = d_journals d"
  "d_txdirs (remove_node p d) = d_txdirs d" "d_journals (remove_node p d) = d_journals d"
  "d_txdirs (rename_node s t d) = d_txdirs d" "d_journals (rename_node s t d) = d_journals d"
  by (simp_all add: put_node_def remove_node_def rename_node_def split: option.splits)

lemma map_of_filter_keys: "map_of (filter (\<lambda>(k, _). P k) al) k = (if P k then map_of al k else None)"
  by (induction al) auto

lemma drop_tx_simps [simp]:
  "node_at (drop_tx i d) p = (if internal i p then None else node_at d p)"
  "d_txdirs (drop_tx i d) = removeAll i (d_txdirs d)"
  "map_of (d_journals (drop_tx i d)) = (map_of (d_journals d))(i := None)"
  by (simp_all add: drop_tx_def node_at_def AList.delete_conv'
      map_of_filter_keys [of "\<lambda>p. \<not> internal i p"])

text \<open>Two disks that differ only in the nodes of \<open>S\<close>.\<close>

definition same_except :: "string set \<Rightarrow> disk \<Rightarrow> disk \<Rightarrow> bool" where
  "same_except S d d' \<longleftrightarrow>
     (\<forall>p. p \<notin> S \<longrightarrow> node_at d' p = node_at d p)
     \<and> d_txdirs d' = d_txdirs d \<and> d_journals d' = d_journals d"

lemma same_except_refl [simp]: "same_except S d d"
  by (simp add: same_except_def)

lemma same_except_change [simp]:
  "p \<in> S \<Longrightarrow> same_except S d (put_node p n d)"
  "p \<in> S \<Longrightarrow> same_except S d (remove_node p d)"
  by (auto simp: same_except_def)

lemma same_except_rename [simp]:
  "s \<in> S \<Longrightarrow> t \<in> S \<Longrightarrow> same_except S d (rename_node s t d)"
  by (auto simp: same_except_def rename_node_def split: option.splits)

section \<open>Well-formed journals\<close>

fun op_paths :: "journal_operation \<Rightarrow> string set" where
  "op_paths (Replace s t b) = {s, t, b}"
| "op_paths (Create s t) = {s, t}"
| "op_paths (Delete t tr) = {t, tr}"

text \<open>
  A journal that validates, names its directory, and whose targets are distinct and not the
  index. (An agent called \<open>index.yaml\<close> would make two operations fight over one path.)
\<close>

definition wf_journal :: "journal \<Rightarrow> string \<Rightarrow> bool" where
  "wf_journal j i \<longleftrightarrow>
     validate_journal j i = Inr () \<and> j_transaction_id j = i
     \<and> distinct (map op_target (j_operations j))
     \<and> ''agents/index.yaml'' \<notin> set (map op_target (j_operations j))"

lemma validate_operations_mem:
  "validate_operations i ops = Inr () \<Longrightarrow> x \<in> set ops \<Longrightarrow> validate_operation i x = Inr ()"
  by (induction ops) (auto simp: try_bind_Inr)

lemma validate_internal_Inr:
  "validate_internal_path a e = Inr () \<longleftrightarrow> path_from_relative a = Inr a \<and> a = e"
  by (auto simp: validate_internal_path_def try_bind_Inr path_from_relative_def
      split: list.splits if_splits)

lemma validate_target_Inr:
  "validate_target_path a e = Inr () \<longleftrightarrow> path_from_relative a = Inr a \<and> a = e"
  by (auto simp: validate_target_path_def try_bind_Inr path_from_relative_def
      split: list.splits if_splits)

lemma path_from_relative_same: "path_from_relative p = Inr q \<Longrightarrow> q = p"
  by (auto simp: path_from_relative_def split: list.splits if_splits)

lemma agent_target_Inr:
  assumes "validate_agent_directory_target t = Inr ()"
  shows "path_from_relative t = Inr t \<and> (\<exists>a. t = ''agents/'' @ a \<and> CHR ''/'' \<notin> set a)"
proof -
  obtain p a where "path_from_relative t = Inr p" "strip_prefix t ''agents/'' = Some a"
      "validate_leaf_id a = Inr ()"
    using assms
    by (auto simp: validate_agent_directory_target_def try_bind_Inr split: option.splits)
  then show ?thesis
    using path_from_relative_same strip_prefix_Some
    by (auto simp: validate_leaf_id_def split: if_splits)
qed

lemma registry_target_Inr:
  assumes "validate_registry_target t = Inr ()"
  shows "path_from_relative t = Inr t \<and> (\<exists>a. t = ''agents/'' @ a \<and> CHR ''/'' \<notin> set a)"
proof -
  have "\<exists>p. path_from_relative t = Inr p"
    and c: "t = ''agents/subagents.yaml'' \<or> validate_agent_directory_target t = Inr ()"
    using assms by (auto simp: validate_registry_target_def try_bind_Inr split: if_splits)
  then have "path_from_relative t = Inr t" using path_from_relative_same by auto
  moreover have "\<exists>a. t = ''agents/'' @ a \<and> CHR ''/'' \<notin> set a"
    using c agent_target_Inr by auto
  ultimately show ?thesis by simp
qed

lemma target_not_internal:
  "CHR ''/'' \<notin> set a \<Longrightarrow> \<not> internal i (''agents/'' @ a)" "\<not> internal i LEGACY_MEMORY_DIR"
  "\<not> internal i ''agents/index.yaml''"
  by (auto simp: internal_def tx_root_def starts_with_iff LEGACY_MEMORY_DIR_def)

lemma internal_paths [simp]:
  "internal i (stage_path i t)" "internal i (backup_path i t)"
  "internal i (trash_path i t)"
  by (auto simp: internal_def starts_with_iff stage_path_def backup_path_def trash_path_def)

lemma internal_paths_inject [simp]:
  "stage_path i t = stage_path i u \<longleftrightarrow> t = u" "backup_path i t = backup_path i u \<longleftrightarrow> t = u"
  "trash_path i t = trash_path i u \<longleftrightarrow> t = u"
  "stage_path i t \<noteq> backup_path i u" "stage_path i t \<noteq> trash_path i u"
  "backup_path i t \<noteq> stage_path i u" "backup_path i t \<noteq> trash_path i u"
  "trash_path i t \<noteq> stage_path i u" "trash_path i t \<noteq> backup_path i u"
  by (simp_all add: stage_path_def backup_path_def trash_path_def)

text \<open>The paths of one operation of a valid journal.\<close>

definition op_wf :: "string \<Rightarrow> journal_operation \<Rightarrow> bool" where
  "op_wf i x \<longleftrightarrow>
     \<not> internal i (op_target x) \<and> (\<forall>p \<in> op_paths x. path_from_relative p = Inr p)
     \<and> (case x of
          Replace s t b \<Rightarrow> s = stage_path i t \<and> b = backup_path i t
        | Create s t \<Rightarrow> s = stage_path i t
        | Delete t tr \<Rightarrow> tr = trash_path i t)"

lemma validate_operation_wf: "validate_operation i x = Inr () \<Longrightarrow> op_wf i x"
proof (cases x)
  case (Replace s t b)
  assume "validate_operation i x = Inr ()"
  then have v: "validate_registry_target t = Inr ()"
      "validate_internal_path s (stage_path i t) = Inr ()"
      "validate_internal_path b (backup_path i t) = Inr ()"
    using Replace by (auto simp: validate_operation_def try_bind_Inr)
  then show ?thesis
    using Replace registry_target_Inr [OF v(1)] target_not_internal(1) [of _ i]
    by (auto simp: op_wf_def validate_internal_Inr)
next
  case (Create s t)
  assume "validate_operation i x = Inr ()"
  then have v: "validate_registry_target t = Inr ()"
      "validate_internal_path s (stage_path i t) = Inr ()"
    using Create by (auto simp: validate_operation_def try_bind_Inr)
  then show ?thesis
    using Create registry_target_Inr [OF v(1)] target_not_internal(1) [of _ i]
    by (auto simp: op_wf_def validate_internal_Inr)
next
  case (Delete t tr)
  assume "validate_operation i x = Inr ()"
  then have v: "t = LEGACY_MEMORY_DIR \<or> validate_agent_directory_target t = Inr ()"
      "validate_internal_path tr (trash_path i t) = Inr ()"
    using Delete by (auto simp: validate_operation_def try_bind_Inr split: if_splits)
  have "path_from_relative LEGACY_MEMORY_DIR = Inr LEGACY_MEMORY_DIR" by code_simp
  then show ?thesis
    using Delete v agent_target_Inr [of t] target_not_internal(1) [of _ i] target_not_internal(2) [of i]
    by (auto simp: op_wf_def validate_internal_Inr)
qed

lemma wf_journal_op: "wf_journal j i \<Longrightarrow> x \<in> set (j_operations j) \<Longrightarrow> op_wf i x"
  by (auto simp: wf_journal_def validate_journal_def try_bind_Inr split: if_splits
      intro: validate_operation_wf dest: validate_operations_mem)

lemma wf_journal_index:
  assumes "wf_journal j i"
  shows "j_index_target j = ''agents/index.yaml''"
    "j_index_stage j = stage_path i ''agents/index.yaml''"
    "j_index_backup j = backup_path i ''agents/index.yaml''"
    "path_from_relative (j_index_target j) = Inr (j_index_target j)"
    "path_from_relative (j_index_stage j) = Inr (j_index_stage j)"
    "path_from_relative (j_index_backup j) = Inr (j_index_backup j)"
  using assms
  by (auto simp: wf_journal_def validate_journal_def try_bind_Inr validate_internal_Inr
      validate_target_Inr split: if_splits)

definition index_paths :: "string \<Rightarrow> string set" where
  "index_paths i = {''agents/index.yaml'', stage_path i ''agents/index.yaml'',
                    backup_path i ''agents/index.yaml''}"

text \<open>Operations with different targets touch different paths; none touches the index.\<close>

lemma op_paths_disjoint:
  assumes "op_wf i x" "op_wf i y" "op_target x \<noteq> op_target y"
  shows "op_paths x \<inter> op_paths y = {}"
proof -
  have n: "t \<noteq> stage_path i u" "t \<noteq> backup_path i u"
    "t \<noteq> trash_path i u" if "\<not> internal i t" for t u
    using that by auto
  show ?thesis
    using assms n [of "op_target x"] n [of "op_target y"]
    by (cases x; cases y) (auto simp: op_wf_def)
qed

lemma op_paths_index:
  assumes "op_wf i x" "op_target x \<noteq> ''agents/index.yaml''"
  shows "op_paths x \<inter> index_paths i = {}"
proof -
  have n: "t \<noteq> stage_path i u" "t \<noteq> backup_path i u"
    "t \<noteq> trash_path i u" if "\<not> internal i t" for t u
    using that by auto
  show ?thesis
    using assms n [of "op_target x"] n [of "''agents/index.yaml''"] target_not_internal(3) [of i]
    by (cases x) (auto simp: op_wf_def index_paths_def)
qed

section \<open>The state of a transaction\<close>

text \<open>
  One transaction: the registry before it, the staged nodes, the staged index, the journal and
  its directory.
\<close>

record tx_case =
  tc_old :: "string \<Rightarrow> node option"
  tc_new :: "string \<Rightarrow> node option"
  tc_index :: string
  tc_j :: journal
  tc_i :: string

abbreviation "index_yaml \<equiv> ''agents/index.yaml''"

definition wf_case :: "tx_case \<Rightarrow> bool" where
  "wf_case c \<longleftrightarrow> wf_journal (tc_j c) (tc_i c) \<and> tc_old c index_yaml \<noteq> None"

text \<open>An operation before the commit, with its target moved out, and with the stage moved in.\<close>

fun st_ready :: "tx_case \<Rightarrow> journal_operation \<Rightarrow> disk \<Rightarrow> bool" where
  "st_ready c (Replace s t b) d \<longleftrightarrow>
     tc_old c t \<noteq> None \<and> node_at d t = tc_old c t \<and> node_at d b = None
     \<and> tc_new c s \<noteq> None \<and> node_at d s = tc_new c s"
| "st_ready c (Create s t) d \<longleftrightarrow>
     tc_old c t = None \<and> node_at d t = None \<and> tc_new c s \<noteq> None \<and> node_at d s = tc_new c s"
| "st_ready c (Delete t tr) d \<longleftrightarrow>
     tc_old c t \<noteq> None \<and> node_at d t = tc_old c t \<and> node_at d tr = None"

fun st_out :: "tx_case \<Rightarrow> journal_operation \<Rightarrow> disk \<Rightarrow> bool" where
  "st_out c (Replace s t b) d \<longleftrightarrow>
     tc_old c t \<noteq> None \<and> node_at d t = None \<and> node_at d b = tc_old c t
     \<and> tc_new c s \<noteq> None \<and> node_at d s = tc_new c s"
| "st_out c (Create s t) d \<longleftrightarrow>
     tc_old c t = None \<and> node_at d t = None \<and> tc_new c s \<noteq> None \<and> node_at d s = tc_new c s"
| "st_out c (Delete t tr) d \<longleftrightarrow>
     tc_old c t \<noteq> None \<and> node_at d t = None \<and> node_at d tr = tc_old c t"

fun st_in :: "tx_case \<Rightarrow> journal_operation \<Rightarrow> disk \<Rightarrow> bool" where
  "st_in c (Replace s t b) d \<longleftrightarrow>
     tc_old c t \<noteq> None \<and> node_at d t = tc_new c s \<and> node_at d b = tc_old c t
     \<and> tc_new c s \<noteq> None \<and> node_at d s = None"
| "st_in c (Create s t) d \<longleftrightarrow>
     tc_old c t = None \<and> node_at d t = tc_new c s \<and> tc_new c s \<noteq> None \<and> node_at d s = None"
| "st_in c (Delete t tr) d \<longleftrightarrow>
     tc_old c t \<noteq> None \<and> node_at d t = None \<and> node_at d tr = tc_old c t"

text \<open>What every crash point leaves the rollback with, and what the rollback makes of it.\<close>

fun recoverable :: "tx_case \<Rightarrow> journal_operation \<Rightarrow> disk \<Rightarrow> bool" where
  "recoverable c (Replace s t b) d \<longleftrightarrow>
     tc_old c t \<noteq> None
     \<and> (node_at d b = tc_old c t \<or> node_at d b = None \<and> node_at d t = tc_old c t)"
| "recoverable c (Create s t) d \<longleftrightarrow> tc_old c t = None"
| "recoverable c (Delete t tr) d \<longleftrightarrow>
     tc_old c t \<noteq> None
     \<and> (node_at d t = tc_old c t \<and> node_at d tr = None
        \<or> node_at d t = None \<and> node_at d tr = tc_old c t)"

definition restored :: "tx_case \<Rightarrow> journal_operation \<Rightarrow> disk \<Rightarrow> bool" where
  "restored c x d \<longleftrightarrow> recoverable c x d \<and> node_at d (op_target x) = tc_old c (op_target x)"

text \<open>A replayed operation: the new content is in place (the stage and the backup may be gone).\<close>

fun installed :: "tx_case \<Rightarrow> journal_operation \<Rightarrow> disk \<Rightarrow> bool" where
  "installed c (Replace s t b) d \<longleftrightarrow>
     node_at d t = tc_new c s \<and> tc_new c s \<noteq> None \<and> node_at d s = None"
| "installed c (Create s t) d \<longleftrightarrow>
     node_at d t = tc_new c s \<and> tc_new c s \<noteq> None \<and> node_at d s = None"
| "installed c (Delete t tr) d \<longleftrightarrow> node_at d t = None"

definition ix_ready :: "tx_case \<Rightarrow> disk \<Rightarrow> bool" where
  "ix_ready c d \<longleftrightarrow>
     node_at d index_yaml = tc_old c index_yaml
     \<and> node_at d (backup_path (tc_i c) index_yaml) = None
     \<and> node_at d (stage_path (tc_i c) index_yaml) = Some (FileN (tc_index c))"

definition ix_recoverable :: "tx_case \<Rightarrow> disk \<Rightarrow> bool" where
  "ix_recoverable c d \<longleftrightarrow>
     node_at d (backup_path (tc_i c) index_yaml) = tc_old c index_yaml
     \<or> node_at d (backup_path (tc_i c) index_yaml) = None
        \<and> node_at d index_yaml = tc_old c index_yaml"

definition ix_installed :: "tx_case \<Rightarrow> disk \<Rightarrow> bool" where
  "ix_installed c d \<longleftrightarrow>
     node_at d index_yaml = Some (FileN (tc_index c))
     \<and> (node_at d (stage_path (tc_i c) index_yaml) = Some (FileN (tc_index c))
        \<or> node_at d (stage_path (tc_i c) index_yaml) = None)"

definition rest_ok :: "tx_case \<Rightarrow> disk \<Rightarrow> bool" where
  "rest_ok c d \<longleftrightarrow>
     (\<forall>p. \<not> internal (tc_i c) p \<and> p \<notin> op_target ` set (j_operations (tc_j c)) \<and> p \<noteq> index_yaml \<longrightarrow>
        node_at d p = tc_old c p)"

definition book :: "tx_case \<Rightarrow> journal_phase \<Rightarrow> disk \<Rightarrow> bool" where
  "book c ph d \<longleftrightarrow>
     d_txdirs d = [tc_i c] \<and> map_of (d_journals d) (tc_i c) = Some ((tc_j c)\<lparr>j_phase := ph\<rparr>)"

definition loop_inv ::
    "tx_case \<Rightarrow> journal_phase \<Rightarrow> (tx_case \<Rightarrow> disk \<Rightarrow> bool)
     \<Rightarrow> (tx_case \<Rightarrow> journal_operation \<Rightarrow> disk \<Rightarrow> bool) \<Rightarrow> (tx_case \<Rightarrow> journal_operation \<Rightarrow> disk \<Rightarrow> bool)
     \<Rightarrow> journal_operation list \<Rightarrow> journal_operation list \<Rightarrow> disk \<Rightarrow> bool" where
  "loop_inv c ph Ix P Q fin todo d \<longleftrightarrow>
     rest_ok c d \<and> book c ph d \<and> Ix c d
     \<and> (\<forall>x \<in> set fin. Q c x d) \<and> (\<forall>x \<in> set todo. P c x d)"

definition needs_rollback :: "tx_case \<Rightarrow> disk \<Rightarrow> bool" where
  "needs_rollback c d \<longleftrightarrow>
     rest_ok c d \<and> book c Prepared d \<and> ix_recoverable c d
     \<and> (\<forall>x \<in> set (j_operations (tc_j c)). recoverable c x d)"

definition needs_replay :: "tx_case \<Rightarrow> disk \<Rightarrow> bool" where
  "needs_replay c d \<longleftrightarrow>
     rest_ok c d \<and> book c Committed d \<and> ix_installed c d
     \<and> (\<forall>x \<in> set (j_operations (tc_j c)). installed c x d)"

lemma st_ready_recoverable: "st_ready c x d \<Longrightarrow> recoverable c x d"
  by (cases x) simp_all

lemma st_out_recoverable: "st_out c x d \<Longrightarrow> recoverable c x d"
  by (cases x) simp_all

lemma st_in_recoverable: "st_in c x d \<Longrightarrow> recoverable c x d"
  by (cases x) simp_all

lemma restored_recoverable: "restored c x d \<Longrightarrow> recoverable c x d"
  by (simp add: restored_def)

lemmas st_recoverable =
  st_ready_recoverable st_out_recoverable st_in_recoverable restored_recoverable

lemma st_in_installed: "st_in c x d \<Longrightarrow> installed c x d"
  by (cases x) simp_all

lemma ix_ready_recoverable: "ix_ready c d \<Longrightarrow> ix_recoverable c d"
  by (simp add: ix_ready_def ix_recoverable_def)

subsection \<open>A step of one operation leaves the others alone\<close>

definition local_op :: "(tx_case \<Rightarrow> journal_operation \<Rightarrow> disk \<Rightarrow> bool) \<Rightarrow> bool" where
  "local_op P \<longleftrightarrow>
     (\<forall>c y d d'. (\<forall>p \<in> op_paths y. node_at d' p = node_at d p) \<longrightarrow> P c y d' = P c y d)"

definition local_ix :: "(tx_case \<Rightarrow> disk \<Rightarrow> bool) \<Rightarrow> bool" where
  "local_ix P \<longleftrightarrow>
     (\<forall>c d d'. (\<forall>p \<in> index_paths (tc_i c). node_at d' p = node_at d p) \<longrightarrow> P c d' = P c d)"

lemma local_op_states [simp]: "local_op st_ready" "local_op st_out" "local_op st_in"
  unfolding local_op_def
  by (intro allI impI, case_tac y, simp_all only: st_ready.simps st_out.simps st_in.simps
      op_paths.simps ball_simps simp_thms)+

lemma local_op_goals [simp]: "local_op recoverable" "local_op installed"
  unfolding local_op_def
  by (intro allI impI, case_tac y, simp_all)+

lemma local_op_restored [simp]: "local_op restored"
proof -
  have "node_at d' (op_target y) = node_at d (op_target y)"
    if "\<forall>p \<in> op_paths y. node_at d' p = node_at d p" for y d d'
    using that by (cases y) simp_all
  then show ?thesis
    using local_op_goals(1) unfolding local_op_def restored_def by metis
qed

lemma local_ix_ready [simp]: "local_ix ix_ready"
  by (simp add: local_ix_def ix_ready_def index_paths_def)

lemma local_ix_recoverable [simp]: "local_ix ix_recoverable"
  by (simp add: local_ix_def ix_recoverable_def index_paths_def)

lemma local_ix_installed [simp]: "local_ix ix_installed"
  by (simp add: local_ix_def ix_installed_def index_paths_def)

lemma local_opD:
  "local_op P \<Longrightarrow> \<forall>p \<in> op_paths y. node_at d' p = node_at d p \<Longrightarrow> P c y d \<Longrightarrow> P c y d'"
  unfolding local_op_def by blast

lemma local_ixD:
  "local_ix P \<Longrightarrow> \<forall>p \<in> index_paths (tc_i c). node_at d' p = node_at d p \<Longrightarrow> P c d \<Longrightarrow> P c d'"
  unfolding local_ix_def by blast

lemma op_paths_owned:
  assumes "op_wf i x" "p \<in> op_paths x" shows "internal i p \<or> p = op_target x"
proof (cases x)
  case (Replace s t b)
  then show ?thesis using assms by (simp add: op_wf_def) (elim disjE; simp)
next
  case (Create s t)
  then show ?thesis using assms by (simp add: op_wf_def) (elim disjE; simp)
next
  case (Delete t tr)
  then show ?thesis using assms by (simp add: op_wf_def) (elim disjE; simp)
qed

lemma loop_step:
  assumes wf: "wf_case c" and ops: "set (fin @ x # todo) = set (j_operations (tc_j c))"
    and dist: "distinct (map op_target (fin @ x # todo))"
    and local: "local_ix Ix" "local_op P" "local_op Q"
    and inv: "loop_inv c ph Ix P Q fin (x # todo) d"
    and step: "same_except (op_paths x) d d'" and new: "Q c x d'"
  shows "loop_inv c ph Ix P Q (fin @ [x]) todo d'"
proof -
  let ?i = "tc_i c"
  have wfj: "wf_journal (tc_j c) ?i" using wf by (simp add: wf_case_def)
  have wfx: "op_wf ?i y" if "y \<in> set (fin @ x # todo)" for y
    using wf_journal_op [OF wfj] that ops by blast
  have "x \<in> set (j_operations (tc_j c))" unfolding ops [symmetric] by simp
  then have "op_target x \<in> op_target ` set (j_operations (tc_j c))" by (rule imageI)
  then have notix: "op_target x \<noteq> index_yaml"
    using wfj unfolding wf_journal_def set_map by (elim conjE) (rule notI, simp only: simp_thms)
  have agree: "node_at d' p = node_at d p" if "p \<notin> op_paths x" for p
    using step that by (simp add: same_except_def)
  have other: "\<forall>p \<in> op_paths y. node_at d' p = node_at d p" if "y \<in> set fin \<union> set todo" for y
  proof
    fix p assume p: "p \<in> op_paths y"
    have "op_target x \<noteq> op_target y" using that dist by force
    then have "op_paths x \<inter> op_paths y = {}" using op_paths_disjoint wfx that by auto
    with p show "node_at d' p = node_at d p" using agree by blast
  qed
  have "rest_ok c d'"
  proof -
    have "p \<notin> op_paths x" if "\<not> internal ?i p" "p \<notin> op_target ` set (j_operations (tc_j c))" for p
      using op_paths_owned [OF wfx] that ops [symmetric] by fastforce
    then show ?thesis using inv agree by (simp add: loop_inv_def rest_ok_def)
  qed
  moreover have "Ix c d'"
  proof -
    have "\<forall>p \<in> index_paths ?i. node_at d' p = node_at d p"
      using op_paths_index [OF wfx notix] agree by auto
    then show ?thesis using local_ixD [OF local(1)] inv unfolding loop_inv_def by blast
  qed
  moreover have "book c ph d'" using inv step by (simp add: loop_inv_def book_def same_except_def)
  moreover have "Q c y d'" if "y \<in> set fin" for y
    using local_opD [OF local(3)] other [of y] inv that unfolding loop_inv_def by blast
  moreover have "P c y d'" if "y \<in> set todo" for y
    using local_opD [OF local(2) other [of y]] inv that unfolding loop_inv_def by simp
  ultimately show ?thesis using new by (simp add: loop_inv_def)
qed

subsection \<open>Steps and loops\<close>

definition op_step ::
    "tx_case \<Rightarrow> journal_operation \<Rightarrow> unit prog \<Rightarrow> (tx_case \<Rightarrow> journal_operation \<Rightarrow> disk \<Rightarrow> bool)
     \<Rightarrow> (tx_case \<Rightarrow> journal_operation \<Rightarrow> disk \<Rightarrow> bool) \<Rightarrow> (tx_case \<Rightarrow> journal_operation \<Rightarrow> disk \<Rightarrow> bool)
     \<Rightarrow> bool" where
  "op_step c x m P Q M \<longleftrightarrow>
     (\<forall>d. P c x d \<longrightarrow>
        runs d m (\<lambda>_ d'. same_except (op_paths x) d d' \<and> Q c x d')
                 (\<lambda>d'. same_except (op_paths x) d d' \<and> M c x d'))"

lemma loop_inv_weaken:
  "loop_inv c ph Ix P Q fin todo d \<Longrightarrow> (\<And>x. P c x d \<Longrightarrow> M c x d) \<Longrightarrow> (\<And>x. Q c x d \<Longrightarrow> M c x d) \<Longrightarrow>
   loop_inv c ph Ix M M fin todo d"
  by (simp add: loop_inv_def)

lemma loop_runs:
  assumes wf: "wf_case c" and ops: "set xs = set (j_operations (tc_j c))"
    and dist: "distinct (map op_target xs)"
    and local: "local_ix Ix" "local_op P" "local_op Q" "local_op M"
    and step: "\<And>x. x \<in> set xs \<Longrightarrow> op_step c x (f x) P Q M"
    and weak: "\<And>x d. P c x d \<Longrightarrow> M c x d" "\<And>x d. Q c x d \<Longrightarrow> M c x d"
    and inv: "loop_inv c ph Ix P Q [] xs d"
  shows "runs d (for_each xs f) (\<lambda>_. loop_inv c ph Ix P Q xs []) (loop_inv c ph Ix M M [] xs)"
proof (rule runs_triple [where P = "loop_inv c ph Ix P Q [] xs"])
  show "triple (loop_inv c ph Ix P Q [] xs) (for_each xs f) (\<lambda>_. loop_inv c ph Ix P Q xs [])
      (\<lambda>e d. e = IoError \<and> loop_inv c ph Ix M M [] xs d) (loop_inv c ph Ix M M [] xs)"
  proof (rule triple_for_each, rule triple_runs)
    fix fin x todo d
    assume xs: "xs = fin @ x # todo" and i: "loop_inv c ph Ix P Q fin (x # todo) d"
    have o: "set (fin @ x # todo) = set (j_operations (tc_j c))" using xs ops by simp
    have dd: "distinct (map op_target (fin @ x # todo))" using xs dist by simp
    have "P c x d" using i by (simp add: loop_inv_def)
    then have r: "runs d (f x) (\<lambda>_ d'. same_except (op_paths x) d d' \<and> Q c x d')
                 (\<lambda>d'. same_except (op_paths x) d d' \<and> M c x d')"
      using step [of x] xs by (simp add: op_step_def)
    show "runs d (f x) (\<lambda>_. loop_inv c ph Ix P Q (fin @ [x]) todo) (loop_inv c ph Ix M M [] xs)"
    proof (rule runs_conseq [OF r])
      show "loop_inv c ph Ix P Q (fin @ [x]) todo d'"
        if "same_except (op_paths x) d d' \<and> Q c x d'" for d'
        using loop_step [OF wf o dd local(1,2,3) i] that by simp
      show "loop_inv c ph Ix M M [] xs d'" if "same_except (op_paths x) d d' \<and> M c x d'" for d'
      proof -
        have "loop_inv c ph Ix M M fin (x # todo) d"
          using i weak by (rule loop_inv_weaken)
        then have "loop_inv c ph Ix M M (fin @ [x]) todo d'"
          using loop_step [OF wf o dd local(1,4,4)] that by simp
        then show ?thesis using xs by (auto simp: loop_inv_def)
      qed
    qed
  qed
  show "loop_inv c ph Ix P Q [] xs d" by (rule inv)
qed

end
