(* ===== verification/CrashAtomicity.thy ===== *)
theory CrashAtomicity
  imports TransactionSafety
begin

text \<open>
  The registry transactions are atomic: whatever the change after which the power is cut, in
  the commit and in any number of interrupted recoveries, the next complete recovery leaves the
  old registry or the new one.
\<close>

section \<open>The steps of the operations\<close>

lemma rename_pair:
  assumes "node_at d s = Some n" "s \<noteq> t"
  shows "runs d (rename_path s t) Q X \<longleftrightarrow> Q () (rename_node s t d) \<and> X (rename_node s t d) \<and> X d"
  using assms by (auto simp: rename_path_def path_exists_def)

lemma not_internal_distinct:
  "\<not> internal i t \<Longrightarrow> t \<noteq> stage_path i u \<and> stage_path i u \<noteq> t \<and> t \<noteq> backup_path i u
     \<and> backup_path i u \<noteq> t \<and> t \<noteq> trash_path i u \<and> trash_path i u \<noteq> t"
  by auto

lemma op_wf_Replace:
  assumes "op_wf i (Replace s t b)"
  shows "path_from_relative s = Inr s" "path_from_relative t = Inr t"
    "path_from_relative b = Inr b" "s \<noteq> t" "t \<noteq> s" "b \<noteq> t" "t \<noteq> b" "s \<noteq> b" "b \<noteq> s"
  using assms not_internal_distinct [of i t] by (auto simp: op_wf_def)

lemma op_wf_Create:
  assumes "op_wf i (Create s t)"
  shows "path_from_relative s = Inr s" "path_from_relative t = Inr t" "s \<noteq> t" "t \<noteq> s"
  using assms not_internal_distinct [of i t] by (auto simp: op_wf_def)

lemma op_wf_Delete:
  assumes "op_wf i (Delete t tr)"
  shows "path_from_relative tr = Inr tr" "path_from_relative t = Inr t" "tr \<noteq> t" "t \<noteq> tr"
  using assms not_internal_distinct [of i t] by (auto simp: op_wf_def)

lemma move_path_runs:
  assumes "path_from_relative s = Inr s" "path_from_relative t = Inr t"
    "node_at d s = Some n" "node_at d t = None"
  shows "runs d (move_path s t) Q X \<longleftrightarrow> Q () (rename_node s t d) \<and> X (rename_node s t d) \<and> X d"
proof -
  have "s \<noteq> t" using assms(3,4) by auto
  then show ?thesis
    using assms by (simp add: move_path_def path_exists_def rename_pair)
qed

lemma move_out_step:
  assumes "op_wf i x" shows "op_step c x (move_out x) st_ready st_out recoverable"
proof (cases x)
  case (Replace s t b)
  show ?thesis
    unfolding op_step_def
  proof (intro allI impI)
    fix d assume r: "st_ready c x d"
    then obtain n where "node_at d t = Some n" "tc_old c t = Some n" "node_at d b = None" using Replace by auto
    then show "runs d (move_out x) (\<lambda>_ d'. same_except (op_paths x) d d' \<and> st_out c x d')
        (\<lambda>d'. same_except (op_paths x) d d' \<and> recoverable c x d')"
      using r Replace op_wf_Replace [OF assms [unfolded Replace]]
      by (simp add: move_out_def move_path_runs)
  qed
next
  case (Create s t)
  then show ?thesis by (simp add: op_step_def move_out_def)
next
  case (Delete t tr)
  show ?thesis
    unfolding op_step_def
  proof (intro allI impI)
    fix d assume r: "st_ready c x d"
    then obtain n where "node_at d t = Some n" "tc_old c t = Some n" "node_at d tr = None" using Delete by auto
    then show "runs d (move_out x) (\<lambda>_ d'. same_except (op_paths x) d d' \<and> st_out c x d')
        (\<lambda>d'. same_except (op_paths x) d d' \<and> recoverable c x d')"
      using r Delete op_wf_Delete [OF assms [unfolded Delete]]
      by (simp add: move_out_def move_path_runs)
  qed
qed

lemma move_in_step:
  assumes "op_wf i x" shows "op_step c x (move_in x) st_out st_in recoverable"
proof (cases x)
  case (Replace s t b)
  show ?thesis
    unfolding op_step_def
  proof (intro allI impI)
    fix d assume r: "st_out c x d"
    then obtain n where "node_at d s = Some n" "tc_new c s = Some n" "node_at d t = None" using Replace by auto
    then show "runs d (move_in x) (\<lambda>_ d'. same_except (op_paths x) d d' \<and> st_in c x d')
        (\<lambda>d'. same_except (op_paths x) d d' \<and> recoverable c x d')"
      using r Replace op_wf_Replace [OF assms [unfolded Replace]]
      by (simp add: move_in_def move_path_runs)
  qed
next
  case (Create s t)
  show ?thesis
    unfolding op_step_def
  proof (intro allI impI)
    fix d assume r: "st_out c x d"
    then obtain n where "node_at d s = Some n" "tc_new c s = Some n" "node_at d t = None" using Create by auto
    then show "runs d (move_in x) (\<lambda>_ d'. same_except (op_paths x) d d' \<and> st_in c x d')
        (\<lambda>d'. same_except (op_paths x) d d' \<and> recoverable c x d')"
      using r Create op_wf_Create [OF assms [unfolded Create]]
      by (simp add: move_in_def move_path_runs)
  qed
next
  case (Delete t tr)
  then show ?thesis by (simp add: op_step_def move_in_def)
qed

lemma rollback_step:
  assumes "op_wf i x" shows "op_step c x (rollback_operation x) recoverable restored recoverable"
proof (cases x)
  case (Replace s t b)
  note w = op_wf_Replace [OF assms [unfolded Replace]]
  show ?thesis
    unfolding op_step_def
  proof (intro allI impI)
    fix d assume r: "recoverable c x d"
    show "runs d (rollback_operation x) (\<lambda>_ d'. same_except (op_paths x) d d' \<and> restored c x d')
        (\<lambda>d'. same_except (op_paths x) d d' \<and> recoverable c x d')"
    proof (cases "node_at d b")
      case None
      then show ?thesis
        using r Replace w by (auto simp: rollback_operation_def path_exists_def restored_def)
    next
      case (Some n)
      have "same_except {s, t, b} d (rename_node b t (remove_node t d))"
        by (auto simp: same_except_def rename_node_def split: option.splits)
      moreover have at: "node_at (remove_node t d) b = Some n" using Some w by simp
      moreover have "node_at (rename_node b t (remove_node t d)) t = Some n"
          "node_at (rename_node b t (remove_node t d)) b = None"
          "node_at (rename_node b t d) t = Some n" "node_at (rename_node b t d) b = None"
        using w by (simp_all add: node_at_rename [OF at] node_at_rename [OF Some])
      moreover have "tc_old c t = Some n" using r Some Replace by auto
      ultimately show ?thesis
        using r Replace w Some
        by (auto simp: rollback_operation_def path_exists_def restored_def rename_pair
            remove_path_def)
    qed
  qed
next
  case (Create s t)
  then show ?thesis
    using op_wf_Create [OF assms [unfolded Create]]
    by (simp add: op_step_def rollback_operation_def remove_path_def restored_def path_exists_def)
next
  case (Delete t tr)
  note w = op_wf_Delete [OF assms [unfolded Delete]]
  show ?thesis
    unfolding op_step_def
  proof (intro allI impI)
    fix d assume r: "recoverable c x d"
    show "runs d (rollback_operation x) (\<lambda>_ d'. same_except (op_paths x) d d' \<and> restored c x d')
        (\<lambda>d'. same_except (op_paths x) d d' \<and> recoverable c x d')"
    proof (cases "node_at d t")
      case (Some n)
      then show ?thesis
        using r Delete w by (simp add: rollback_operation_def path_exists_def restored_def)
    next
      case None
      then obtain n where "node_at d tr = Some n" "tc_old c t = Some n" using r Delete by auto
      then show ?thesis
        using r Delete w None
        by (simp add: rollback_operation_def path_exists_def restored_def rename_pair)
    qed
  qed
qed

lemma replay_step:
  assumes "op_wf i x" shows "op_step c x (replay_operation x) installed installed installed"
proof (cases x)
  case (Replace s t b)
  then show ?thesis
    using op_wf_Replace [OF assms [unfolded Replace]]
    by (auto simp: op_step_def replay_operation_def replay_install_def path_exists_def)
next
  case (Create s t)
  then show ?thesis
    using op_wf_Create [OF assms [unfolded Create]]
    by (auto simp: op_step_def replay_operation_def replay_install_def path_exists_def)
next
  case (Delete t tr)
  then show ?thesis
    using op_wf_Delete [OF assms [unfolded Delete]]
    by (auto simp: op_step_def replay_operation_def path_exists_def)
qed

section \<open>The loops\<close>

lemma wf_case_simps:
  assumes "wf_case c"
  shows "wf_journal (tc_j c) (tc_i c)" "distinct (map op_target (j_operations (tc_j c)))"
    "x \<in> set (j_operations (tc_j c)) \<Longrightarrow> op_wf (tc_i c) x" "j_transaction_id (tc_j c) = tc_i c"
proof -
  show w: "wf_journal (tc_j c) (tc_i c)" using assms by (simp add: wf_case_def)
  show "x \<in> set (j_operations (tc_j c)) \<Longrightarrow> op_wf (tc_i c) x" using wf_journal_op [OF w] .
  show "distinct (map op_target (j_operations (tc_j c)))" "j_transaction_id (tc_j c) = tc_i c"
    using w by (simp_all add: wf_journal_def)
qed

lemma loop_inv_swap: "loop_inv c ph Ix P Q xs [] d \<longleftrightarrow> loop_inv c ph Ix Q R [] xs d"
  by (auto simp: loop_inv_def)

lemma loop_inv_rev: "loop_inv c ph Ix P Q [] (rev xs) d \<longleftrightarrow> loop_inv c ph Ix P Q [] xs d"
  "loop_inv c ph Ix P Q (rev xs) [] d \<longleftrightarrow> loop_inv c ph Ix P Q xs [] d"
  by (auto simp: loop_inv_def)

lemma needs_rollback_loop:
  "needs_rollback c = loop_inv c Prepared ix_recoverable recoverable recoverable [] (j_operations (tc_j c))"
  by (rule ext) (simp add: needs_rollback_def loop_inv_def)

lemma needs_replay_loop:
  "needs_replay c = loop_inv c Committed ix_installed installed installed [] (j_operations (tc_j c))"
  by (rule ext) (simp add: needs_replay_def loop_inv_def)

lemma ready_needs_rollback:
  "loop_inv c Prepared ix_ready recoverable recoverable [] (j_operations (tc_j c)) d \<Longrightarrow>
   needs_rollback c d"
  by (simp add: needs_rollback_def loop_inv_def ix_ready_recoverable)

definition at_start :: "tx_case \<Rightarrow> disk \<Rightarrow> bool" where
  "at_start c d \<longleftrightarrow> loop_inv c Prepared ix_ready st_ready st_out [] (j_operations (tc_j c)) d"

lemma move_out_loop:
  assumes "wf_case c" "at_start c d"
  shows "runs d (for_each (j_operations (tc_j c)) move_out)
    (\<lambda>_. loop_inv c Prepared ix_ready st_out st_in [] (j_operations (tc_j c))) (needs_rollback c)"
proof (rule runs_conseq [OF loop_runs [where f = move_out and P = st_ready and Q = st_out
      and M = recoverable and Ix = ix_ready and ph = Prepared]])
  show "wf_case c" "distinct (map op_target (j_operations (tc_j c)))"
    "loop_inv c Prepared ix_ready st_ready st_out [] (j_operations (tc_j c)) d"
    using assms wf_case_simps by (simp_all add: at_start_def)
  show "op_step c x (move_out x) st_ready st_out recoverable"
    if "x \<in> set (j_operations (tc_j c))" for x
    using move_out_step wf_case_simps(3) [OF assms(1) that] .
qed (auto simp: loop_inv_swap [where R = st_in] st_recoverable ready_needs_rollback)

lemma move_in_loop:
  assumes "wf_case c" "loop_inv c Prepared ix_ready st_out st_in [] (j_operations (tc_j c)) d"
  shows "runs d (for_each (j_operations (tc_j c)) move_in)
    (\<lambda>_. loop_inv c Prepared ix_ready st_in st_in [] (j_operations (tc_j c))) (needs_rollback c)"
proof (rule runs_conseq [OF loop_runs [where f = move_in and P = st_out and Q = st_in
      and M = recoverable and Ix = ix_ready and ph = Prepared]])
  show "wf_case c" "distinct (map op_target (j_operations (tc_j c)))"
    "loop_inv c Prepared ix_ready st_out st_in [] (j_operations (tc_j c)) d"
    using assms wf_case_simps by simp_all
  show "op_step c x (move_in x) st_out st_in recoverable"
    if "x \<in> set (j_operations (tc_j c))" for x
    using move_in_step wf_case_simps(3) [OF assms(1) that] .
qed (auto simp: loop_inv_swap [where R = st_in] st_recoverable ready_needs_rollback)

lemma rollback_loop:
  assumes "wf_case c" "needs_rollback c d"
  shows "runs d (for_each (rev (j_operations (tc_j c))) rollback_operation)
    (\<lambda>_. loop_inv c Prepared ix_recoverable restored restored [] (j_operations (tc_j c)))
    (needs_rollback c)"
proof (rule runs_conseq [OF loop_runs [where f = rollback_operation and P = recoverable
      and Q = restored and M = recoverable and Ix = ix_recoverable and ph = Prepared]])
  show "wf_case c" "distinct (map op_target (rev (j_operations (tc_j c))))"
    "loop_inv c Prepared ix_recoverable recoverable restored [] (rev (j_operations (tc_j c))) d"
    using assms wf_case_simps by (simp_all add: needs_rollback_def loop_inv_def rev_map [symmetric])
  show "op_step c x (rollback_operation x) recoverable restored recoverable"
    if "x \<in> set (rev (j_operations (tc_j c)))" for x
    using rollback_step wf_case_simps(3) [OF assms(1)] that unfolding set_rev by blast
qed (auto simp: loop_inv_rev loop_inv_swap [where R = restored] st_recoverable needs_rollback_loop)

lemma replay_loop:
  assumes "wf_case c" "needs_replay c d"
  shows "runs d (for_each (j_operations (tc_j c)) replay_operation) (\<lambda>_. needs_replay c)
    (needs_replay c)"
proof (rule runs_conseq [OF loop_runs [where f = replay_operation and P = installed
      and Q = installed and M = installed and Ix = ix_installed and ph = Committed]])
  show "wf_case c" "distinct (map op_target (j_operations (tc_j c)))"
    "loop_inv c Committed ix_installed installed installed [] (j_operations (tc_j c)) d"
    using assms wf_case_simps by (simp_all add: needs_replay_loop)
  show "op_step c x (replay_operation x) installed installed installed"
    if "x \<in> set (j_operations (tc_j c))" for x
    using replay_step wf_case_simps(3) [OF assms(1) that] .
qed (auto simp: loop_inv_swap [where R = installed] needs_replay_loop)

section \<open>The index\<close>

lemma index_step:
  assumes wf: "wf_case c" and inv: "loop_inv c ph Ix P Q [] (j_operations (tc_j c)) d"
    and local: "local_op P" and step: "same_except (index_paths (tc_i c)) d d'" and new: "Ix' c d'"
  shows "loop_inv c ph Ix' P Q [] (j_operations (tc_j c)) d'"
proof -
  have agree: "node_at d' p = node_at d p" if "p \<notin> index_paths (tc_i c)" for p
    using step that by (simp add: same_except_def)
  have "P c y d'" if y: "y \<in> set (j_operations (tc_j c))" for y
  proof -
    have "op_target y \<noteq> index_yaml"
      using wf imageI [OF y, of op_target] unfolding wf_case_def wf_journal_def set_map
      by (elim conjE) (rule notI, simp only: simp_thms)
    then have "op_paths y \<inter> index_paths (tc_i c) = {}"
      using op_paths_index wf_case_simps(3) [OF wf y] by blast
    then have "\<forall>p \<in> op_paths y. node_at d' p = node_at d p" using agree by blast
    then show ?thesis
      using local_opD [OF local] inv y unfolding loop_inv_def by blast
  qed
  moreover have "rest_ok c d'"
    unfolding rest_ok_def
  proof (intro allI impI)
    fix p
    assume p: "\<not> internal (tc_i c) p \<and> p \<notin> op_target ` set (j_operations (tc_j c)) \<and> p \<noteq> index_yaml"
    then have "p \<notin> index_paths (tc_i c)"
      using not_internal_distinct [of "tc_i c" p] by (simp add: index_paths_def)
    then have "node_at d' p = node_at d p" by (rule agree)
    also have "node_at d p = tc_old c p" using inv p unfolding loop_inv_def rest_ok_def by blast
    finally show "node_at d' p = tc_old c p" .
  qed
  moreover have "book c ph d'" using inv step by (simp add: loop_inv_def book_def same_except_def)
  ultimately show ?thesis using new by (simp add: loop_inv_def)
qed

lemma index_distinct [simp]:
  "index_yaml \<noteq> stage_path i u" "stage_path i u \<noteq> index_yaml"
  "index_yaml \<noteq> backup_path i u" "backup_path i u \<noteq> index_yaml"
  using not_internal_distinct [OF target_not_internal(3) [of i], of u] by simp_all

lemma index_paths_mem [simp]:
  "index_yaml \<in> index_paths i" "stage_path i index_yaml \<in> index_paths i"
  "backup_path i index_yaml \<in> index_paths i"
  by (simp_all add: index_paths_def)

lemma same_except_trans:
  "same_except S d d' \<Longrightarrow> same_except S d' d'' \<Longrightarrow> same_except S d d''"
  by (simp add: same_except_def)

lemma install_index_runs:
  assumes wf: "wf_case c" and ix: "ix_ready c d"
  shows "runs d (install_index (tc_j c))
    (\<lambda>_ d'. same_except (index_paths (tc_i c)) d d' \<and> ix_recoverable c d' \<and> ix_installed c d')
    (\<lambda>d'. same_except (index_paths (tc_i c)) d d' \<and> ix_recoverable c d')"
proof -
  let ?b = "backup_path (tc_i c) index_yaml"
  obtain n where old: "tc_old c index_yaml = Some n" using wf by (auto simp: wf_case_def)
  then have at: "node_at d index_yaml = Some n" using ix by (simp add: ix_ready_def)
  have same: "same_except (index_paths (tc_i c)) d (rename_node index_yaml ?b d)" by simp
  have "same_except (index_paths (tc_i c)) d
      (put_node index_yaml (FileN (tc_index c)) (rename_node index_yaml ?b d))"
    by (rule same_except_trans [OF same]) simp
  moreover have "node_at (rename_node index_yaml ?b d) p
      = (if p = ?b then Some n else if p = index_yaml then None else node_at d p)" for p
    by (simp add: node_at_rename [OF at])
  ultimately show ?thesis
    using ix old at same wf_journal_index [OF wf_case_simps(1) [OF wf]]
    by (simp add: install_index_def path_exists_def rename_pair [OF at] rename_path_def
        read_file_def atomic_write_def ix_ready_def ix_recoverable_def ix_installed_def
        del: node_at_rename)
qed

lemma rollback_index_runs:
  assumes wf: "wf_case c" and ix: "ix_recoverable c d"
  shows "runs d (rollback_index (tc_j c))
    (\<lambda>_ d'. same_except (index_paths (tc_i c)) d d' \<and> ix_recoverable c d'
            \<and> node_at d' index_yaml = tc_old c index_yaml)
    (\<lambda>d'. same_except (index_paths (tc_i c)) d d' \<and> ix_recoverable c d')"
proof -
  let ?b = "backup_path (tc_i c) index_yaml" and ?r = "remove_node index_yaml d"
  note j = wf_journal_index [OF wf_case_simps(1) [OF wf]]
  show ?thesis
  proof (cases "node_at d ?b")
    case None
    moreover have "tc_old c index_yaml \<noteq> None" using wf by (simp add: wf_case_def)
    ultimately show ?thesis
      using ix j by (auto simp: rollback_index_def path_exists_def ix_recoverable_def)
  next
    case (Some n)
    then have at: "node_at ?r ?b = Some n" by simp
    have same: "same_except (index_paths (tc_i c)) d ?r" by simp
    have "same_except (index_paths (tc_i c)) d (rename_node ?b index_yaml ?r)"
      by (rule same_except_trans [OF same]) simp
    then show ?thesis
      using ix j Some at node_at_rename [OF at] node_at_rename [OF Some]
      by (auto simp: rollback_index_def path_exists_def rename_path_def remove_path_def
          ix_recoverable_def)
  qed
qed

lemma replay_index_runs:
  assumes wf: "wf_case c" and ix: "ix_installed c d"
  shows "runs d (replay_index (tc_j c))
    (\<lambda>_ d'. same_except (index_paths (tc_i c)) d d' \<and> ix_installed c d')
    (\<lambda>d'. same_except (index_paths (tc_i c)) d d' \<and> ix_installed c d')"
proof -
  have d: "node_at d (stage_path (tc_i c) index_yaml) = Some (FileN (tc_index c))
      \<or> node_at d (stage_path (tc_i c) index_yaml) = None"
    using ix by (simp add: ix_installed_def)
  show ?thesis
    using d
  proof
    assume "node_at d (stage_path (tc_i c) index_yaml) = Some (FileN (tc_index c))"
    then show ?thesis
      using ix wf_journal_index [OF wf_case_simps(1) [OF wf]]
      by (simp add: replay_index_def path_exists_def read_file_def atomic_write_def ix_installed_def)
  next
    assume "node_at d (stage_path (tc_i c) index_yaml) = None"
    then show ?thesis
      using ix wf_journal_index [OF wf_case_simps(1) [OF wf]]
      by (simp add: replay_index_def path_exists_def ix_installed_def)
  qed
qed

section \<open>Commit and recovery\<close>

fun op_result :: "tx_case \<Rightarrow> journal_operation \<Rightarrow> node option" where
  "op_result c (Replace s t b) = tc_new c s"
| "op_result c (Create s t) = tc_new c s"
| "op_result c (Delete t tr) = None"

text \<open>What the transaction is to leave at each path of the registry.\<close>

definition new_image :: "tx_case \<Rightarrow> string \<Rightarrow> node option" where
  "new_image c p =
     (if p = index_yaml then Some (FileN (tc_index c))
      else (case find (\<lambda>x. op_target x = p) (j_operations (tc_j c)) of
              Some x \<Rightarrow> op_result c x
            | None \<Rightarrow> tc_old c p))"

definition settled :: "tx_case \<Rightarrow> (string \<Rightarrow> node option) \<Rightarrow> disk \<Rightarrow> bool" where
  "settled c img d \<longleftrightarrow>
     d_txdirs d = [] \<and> (\<forall>p. \<not> internal (tc_i c) p \<longrightarrow> node_at d p = img p)"

abbreviation "settled_old c \<equiv> settled c (tc_old c)"
abbreviation "settled_new c \<equiv> settled c (new_image c)"

definition rolled_back :: "tx_case \<Rightarrow> disk \<Rightarrow> bool" where
  "rolled_back c d \<longleftrightarrow>
     loop_inv c Prepared ix_recoverable restored restored [] (j_operations (tc_j c)) d
     \<and> node_at d index_yaml = tc_old c index_yaml"

lemma rollback_prepared_runs:
  assumes wf: "wf_case c" and inv: "needs_rollback c d"
  shows "runs d (rollback_prepared (tc_j c)) (\<lambda>_. rolled_back c) (needs_rollback c)"
  unfolding rollback_prepared_def
proof (rule runs_bind [OF rollback_loop [OF wf inv]])
  fix d' assume d': "loop_inv c Prepared ix_recoverable restored restored [] (j_operations (tc_j c)) d'"
  then have ix: "ix_recoverable c d'" by (simp add: loop_inv_def)
  show "runs d' (rollback_index (tc_j c)) (\<lambda>_. rolled_back c) (needs_rollback c)"
  proof (rule runs_conseq [OF rollback_index_runs [OF wf ix]])
    fix e assume "same_except (index_paths (tc_i c)) d' e \<and> ix_recoverable c e
            \<and> node_at e index_yaml = tc_old c index_yaml"
    then show "rolled_back c e"
      using index_step [OF wf d' local_op_restored] by (simp add: rolled_back_def)
  next
    fix e assume "same_except (index_paths (tc_i c)) d' e \<and> ix_recoverable c e"
    then have "loop_inv c Prepared ix_recoverable restored restored [] (j_operations (tc_j c)) e"
      using index_step [OF wf d' local_op_restored] by simp
    then show "needs_rollback c e"
      unfolding needs_rollback_loop
      by (rule loop_inv_weaken) (simp_all add: restored_recoverable)
  qed
qed

lemma replay_committed_runs:
  assumes wf: "wf_case c" and inv: "needs_replay c d"
  shows "runs d (replay_committed (tc_j c)) (\<lambda>_. needs_replay c) (needs_replay c)"
  unfolding replay_committed_def
proof (rule runs_bind [OF replay_loop [OF wf inv]])
  fix d' assume d': "needs_replay c d'"
  then have ix: "ix_installed c d'" by (simp add: needs_replay_def)
  show "runs d' (replay_index (tc_j c)) (\<lambda>_. needs_replay c) (needs_replay c)"
    by (rule runs_conseq [OF replay_index_runs [OF wf ix]])
      (use index_step [OF wf d' [unfolded needs_replay_loop] local_op_goals(2)]
       in \<open>simp_all add: needs_replay_loop\<close>)
qed

lemma rolled_back_needs: "rolled_back c d \<Longrightarrow> needs_rollback c d"
  unfolding rolled_back_def needs_rollback_loop
  by (elim conjE loop_inv_weaken) (simp_all add: restored_recoverable)

lemma rest_elsewhere:
  "rest_ok c d \<Longrightarrow> \<not> internal (tc_i c) p \<Longrightarrow> p \<notin> op_target ` set (j_operations (tc_j c)) \<Longrightarrow>
   p \<noteq> index_yaml \<Longrightarrow> node_at d p = tc_old c p"
  unfolding rest_ok_def by blast

lemma drop_rolled_back:
  assumes "rolled_back c d" shows "settled_old c (drop_tx (tc_i c) d)"
  unfolding settled_def
proof (intro conjI allI impI)
  have inv: "rest_ok c d" "book c Prepared d" "node_at d index_yaml = tc_old c index_yaml"
      "\<And>x. x \<in> set (j_operations (tc_j c)) \<Longrightarrow> restored c x d"
    using assms by (auto simp: rolled_back_def loop_inv_def)
  show "d_txdirs (drop_tx (tc_i c) d) = []" using inv(2) by (simp add: book_def)
  fix p assume p: "\<not> internal (tc_i c) p"
  have "node_at d p = tc_old c p"
  proof (cases "p \<in> op_target ` set (j_operations (tc_j c))")
    case True
    then show ?thesis using inv(4) by (auto simp: restored_def)
  next
    case False
    then show ?thesis using rest_elsewhere [OF inv(1) p] inv(3) by (cases "p = index_yaml") simp_all
  qed
  then show "node_at (drop_tx (tc_i c) d) p = tc_old c p" using p by simp
qed

lemma installed_result: "installed c x d \<Longrightarrow> node_at d (op_target x) = op_result c x"
  by (cases x) simp_all

lemma drop_replayed:
  assumes "needs_replay c d" shows "settled_new c (drop_tx (tc_i c) d)"
  unfolding settled_def
proof (intro conjI allI impI)
  have inv: "rest_ok c d" "book c Committed d" "ix_installed c d"
      "\<And>x. x \<in> set (j_operations (tc_j c)) \<Longrightarrow> installed c x d"
    using assms by (auto simp: needs_replay_def)
  show "d_txdirs (drop_tx (tc_i c) d) = []" using inv(2) by (simp add: book_def)
  fix p assume p: "\<not> internal (tc_i c) p"
  have "node_at d p = new_image c p"
  proof (cases "p = index_yaml")
    case True
    then show ?thesis using inv(3) by (simp add: new_image_def ix_installed_def)
  next
    case ne: False
    show ?thesis
    proof (cases "find (\<lambda>x. op_target x = p) (j_operations (tc_j c))")
      case None
      then have "p \<notin> op_target ` set (j_operations (tc_j c))" by (auto simp: find_None_iff)
      then show ?thesis using rest_elsewhere [OF inv(1) p] ne None by (simp add: new_image_def)
    next
      case (Some x)
      then have "x \<in> set (j_operations (tc_j c))" "op_target x = p"
        by (auto simp: find_Some_iff)
      then show ?thesis
        using installed_result [OF inv(4)] ne Some by (auto simp: new_image_def)
    qed
  qed
  then show "node_at (drop_tx (tc_i c) d) p = new_image c p" using p by simp
qed

subsection \<open>Removing a transaction directory\<close>

text \<open>A state that losing internal nodes does not disturb survives the removal up to its end.\<close>

lemma remove_dir_all_runs:
  assumes d: "P d" and shrink: "\<And>e p. P e \<Longrightarrow> internal i p \<Longrightarrow> P (remove_node p e)"
    and fin: "\<And>e. P e \<Longrightarrow> Q () (drop_tx i e)" and cut: "\<And>e. P e \<Longrightarrow> X e"
  shows "runs d (remove_dir_all i) Q X"
proof -
  let ?ps = "filter (internal i) (map fst (d_nodes d))"
  have "triple P (for_each ?ps (\<lambda>p. change (remove_node p))) (\<lambda>_. P) (\<lambda>e d. e = IoError \<and> X d) X"
  proof (rule triple_for_each [where Inv = "\<lambda>_ _. P"])
    fix as p bs assume "?ps = as @ p # bs"
    then have "p \<in> set ?ps" by simp
    then have "internal i p" by simp
    then show "triple P (change (remove_node p)) (\<lambda>_. P) (\<lambda>e d. e = IoError \<and> X d) X"
      using shrink cut by (intro triple_change) simp_all
  qed
  then have "runs d (for_each ?ps (\<lambda>p. change (remove_node p))) (\<lambda>_. P) X"
    using d by (rule runs_triple)
  then have "runs d (bind (for_each ?ps (\<lambda>p. change (remove_node p))) (\<lambda>_. change (drop_tx i))) Q X"
    by (rule runs_bind) (simp add: fin cut)
  then show ?thesis by (simp add: remove_dir_all_def)
qed

lemma remove_dir_runs:
  assumes d: "P d" "i \<in> set (d_txdirs d)"
    and shrink: "\<And>e p. P e \<Longrightarrow> internal i p \<Longrightarrow> P (remove_node p e)"
    and fin: "\<And>e. P e \<Longrightarrow> Q () (drop_tx i e) \<and> X (drop_tx i e)" and cut: "\<And>e. P e \<Longrightarrow> X e"
  shows "runs d (remove_transaction_dir i) Q X"
proof -
  have "runs d (remove_dir_all i) (\<lambda>_ e. Q () e \<and> X e) X"
    using d(1) shrink fin cut by (rule remove_dir_all_runs)
  then have "runs d (bind (remove_dir_all i) (\<lambda>_. sync)) Q X"
    by (rule runs_bind) simp
  then show ?thesis using d(2) by (simp add: remove_transaction_dir_def)
qed

lemma restored_shrink:
  assumes "op_wf i x" "restored c x d" "internal i p"
  shows "restored c x (remove_node p d)"
proof -
  have "op_target x \<noteq> p" using assms(1,3) by (auto simp: op_wf_def)
  then show ?thesis using assms(2) by (cases x) (auto simp: restored_def)
qed

lemma installed_shrink:
  assumes "op_wf i x" "installed c x d" "internal i p"
  shows "installed c x (remove_node p d)"
proof -
  have "op_target x \<noteq> p" using assms(1,3) by (auto simp: op_wf_def)
  then show ?thesis using assms(2) by (cases x) auto
qed

lemma rest_shrink: "rest_ok c d \<Longrightarrow> internal (tc_i c) p \<Longrightarrow> rest_ok c (remove_node p d)"
  by (auto simp: rest_ok_def)

lemma book_shrink: "book c ph (remove_node p d) = book c ph d"
  by (simp add: book_def)

lemma rolled_back_shrink:
  assumes wf: "wf_case c" and d: "rolled_back c d" and p: "internal (tc_i c) p"
  shows "rolled_back c (remove_node p d)"
proof -
  have "p \<noteq> index_yaml" using p target_not_internal(3) [of "tc_i c"] by auto
  then show ?thesis
    using d p restored_shrink [OF wf_case_simps(3) [OF wf]] rest_shrink
    by (auto simp: rolled_back_def loop_inv_def book_shrink ix_recoverable_def)
qed

lemma needs_replay_shrink:
  assumes wf: "wf_case c" and d: "needs_replay c d" and p: "internal (tc_i c) p"
  shows "needs_replay c (remove_node p d)"
proof -
  have "p \<noteq> index_yaml" using p target_not_internal(3) [of "tc_i c"] by auto
  then show ?thesis
    using d p installed_shrink [OF wf_case_simps(3) [OF wf]] rest_shrink
    by (auto simp: needs_replay_def book_shrink ix_installed_def)
qed

text \<open>The directory is there, and its journal is not yet.\<close>

definition staging :: "tx_case \<Rightarrow> disk \<Rightarrow> bool" where
  "staging c d \<longleftrightarrow>
     d_txdirs d = [tc_i c] \<and> (\<forall>p. \<not> internal (tc_i c) p \<longrightarrow> node_at d p = tc_old c p)
     \<and> map_of (d_journals d) (tc_i c) = None"

text \<open>The states that a power cut can leave: before the marker, after it, and all of them.\<close>

definition uncommitted :: "tx_case \<Rightarrow> disk \<Rightarrow> bool" where
  "uncommitted c d \<longleftrightarrow> staging c d \<or> needs_rollback c d \<or> settled_old c d"

definition committed_state :: "tx_case \<Rightarrow> disk \<Rightarrow> bool" where
  "committed_state c d \<longleftrightarrow> needs_replay c d \<or> settled_new c d"

definition safe :: "tx_case \<Rightarrow> disk \<Rightarrow> bool" where
  "safe c d \<longleftrightarrow> uncommitted c d \<or> committed_state c d"

lemma safe_intros:
  "needs_rollback c d \<Longrightarrow> safe c d" "needs_replay c d \<Longrightarrow> safe c d" "settled_old c d \<Longrightarrow> safe c d"
  "settled_new c d \<Longrightarrow> safe c d" "committed_state c d \<Longrightarrow> safe c d" "uncommitted c d \<Longrightarrow> safe c d"
  by (auto simp: safe_def committed_state_def uncommitted_def)

lemma remove_rolled_back_runs:
  assumes wf: "wf_case c" and d: "rolled_back c d"
  shows "runs d (remove_transaction_dir (tc_i c)) (\<lambda>_. settled_old c)
    (\<lambda>e. needs_rollback c e \<or> settled_old c e)"
proof (rule remove_dir_runs [where P = "rolled_back c", OF d])
  show "tc_i c \<in> set (d_txdirs d)" using d by (simp add: rolled_back_def loop_inv_def book_def)
qed (auto simp: rolled_back_shrink [OF wf] drop_rolled_back rolled_back_needs)

lemma remove_replayed_runs:
  assumes wf: "wf_case c" and d: "needs_replay c d"
  shows "runs d (remove_transaction_dir (tc_i c)) (\<lambda>_. settled_new c)
    (\<lambda>e. needs_replay c e \<or> settled_new c e)"
proof (rule remove_dir_runs [where P = "needs_replay c", OF d])
  show "tc_i c \<in> set (d_txdirs d)" using d by (simp add: needs_replay_def book_def)
qed (auto simp: needs_replay_shrink [OF wf] drop_replayed)

definition marked_or_not :: "tx_case \<Rightarrow> disk \<Rightarrow> bool" where
  "marked_or_not c d \<longleftrightarrow> needs_rollback c d \<and> ix_installed c d
     \<and> (\<forall>x \<in> set (j_operations (tc_j c)). installed c x d)"

lemma commit_before_marker_runs:
  assumes wf: "wf_case c" and start: "at_start c d"
  shows "runs d (commit_before_marker (tc_j c)) (\<lambda>_. marked_or_not c) (needs_rollback c)"
  unfolding commit_before_marker_def
proof (rule runs_bind [OF move_out_loop [OF wf start]], rule runs_bind [OF move_in_loop [OF wf]])
  fix d assume d: "loop_inv c Prepared ix_ready st_in st_in [] (j_operations (tc_j c)) d"
  then have ix: "ix_ready c d" by (simp add: loop_inv_def)
  have weaker: "needs_rollback c e"
    if "loop_inv c Prepared ix_recoverable st_in st_in [] (j_operations (tc_j c)) e" for e
    using that unfolding needs_rollback_loop
    by (rule loop_inv_weaken) (simp_all add: st_in_recoverable)
  show "runs d (install_index (tc_j c)) (\<lambda>_. marked_or_not c) (needs_rollback c)"
  proof (rule runs_conseq [OF install_index_runs [OF wf ix]])
    fix e assume e: "same_except (index_paths (tc_i c)) d e \<and> ix_recoverable c e \<and> ix_installed c e"
    then have "loop_inv c Prepared ix_recoverable st_in st_in [] (j_operations (tc_j c)) e"
      using index_step [OF wf d local_op_states(3)] by simp
    then show "marked_or_not c e"
      using e weaker by (simp add: marked_or_not_def loop_inv_def st_in_installed)
  next
    fix e assume "same_except (index_paths (tc_i c)) d e \<and> ix_recoverable c e"
    then show "needs_rollback c e"
      using index_step [OF wf d local_op_states(3)] weaker by simp
  qed
qed

lemma phase_irrelevant [simp]:
  "rollback_prepared (j\<lparr>j_phase := ph\<rparr>) = rollback_prepared j"
  "replay_committed (j\<lparr>j_phase := ph\<rparr>) = replay_committed j"
  "validate_journal (j\<lparr>j_phase := ph\<rparr>) i = validate_journal j i"
  by (simp_all add: rollback_prepared_def rollback_index_def replay_committed_def
      replay_index_def validate_journal_def cong: if_cong)

lemma cleanup_runs:
  assumes wf: "wf_case c" and inv: "needs_replay c d"
  shows "runs d (cleanup_committed ((tc_j c)\<lparr>j_phase := Committed\<rparr>)) (\<lambda>_. settled_new c)
    (\<lambda>e. needs_replay c e \<or> settled_new c e)"
proof -
  have "j_transaction_id ((tc_j c)\<lparr>j_phase := Committed\<rparr>) = tc_i c"
    using wf_case_simps(4) [OF wf] by simp
  moreover have "runs d (replay_committed (tc_j c)) (\<lambda>_. needs_replay c)
      (\<lambda>e. needs_replay c e \<or> settled_new c e)"
    using replay_committed_runs [OF wf inv] by (rule runs_conseq) simp_all
  ultimately show ?thesis
    unfolding cleanup_committed_def phase_irrelevant
    by (simp only: runs_bind [OF _ remove_replayed_runs [OF wf]])
qed

lemma mark_committed:
  assumes wf: "wf_case c" and d: "marked_or_not c d"
  shows "needs_replay c (d\<lparr>d_journals :=
    AList.update (j_transaction_id (tc_j c)) ((tc_j c)\<lparr>j_phase := Committed\<rparr>) (d_journals d)\<rparr>)"
    (is "needs_replay c ?d")
proof -
  have n: "node_at ?d p = node_at d p" for p by simp
  have "installed c x ?d = installed c x d" for x
    by (cases x) simp_all
  then show ?thesis
    using d wf_case_simps(4) [OF wf]
    by (simp add: marked_or_not_def needs_replay_def needs_rollback_def rest_ok_def
        ix_installed_def book_def update_conv')
qed

lemma rollback_after_failure_triple:
  assumes wf: "wf_case c"
  shows "triple (needs_rollback c) (rollback_after_failure (tc_j c) e) Q
    (\<lambda>_ d. needs_rollback c d \<or> settled_old c d) (\<lambda>d. needs_rollback c d \<or> settled_old c d)"
    (is "triple _ _ _ ?F ?X")
  unfolding rollback_after_failure_def
proof (rule triple_bind)
  show "triple (needs_rollback c) (attempt (rollback_prepared (tc_j c)))
      (\<lambda>r d. case r of Inr _ \<Rightarrow> rolled_back c d | Inl e \<Rightarrow> e = IoError \<and> needs_rollback c d) ?F ?X"
  proof (rule triple_conseq [OF triple_attempt])
    show "triple (needs_rollback c) (rollback_prepared (tc_j c)) (\<lambda>_. rolled_back c)
        (\<lambda>e d. e = IoError \<and> needs_rollback c d) (needs_rollback c)"
      using rollback_prepared_runs [OF wf] by (rule triple_runs)
  qed simp_all
  fix r :: "tx_error + unit"
  have "triple (rolled_back c) (bind (remove_transaction_dir (tc_i c)) (\<lambda>_. fail e)) Q ?F ?X"
  proof (rule triple_bind)
    show "triple (rolled_back c) (remove_transaction_dir (tc_i c)) (\<lambda>_. settled_old c) ?F ?X"
    proof (rule triple_conseq [OF triple_runs])
      show "runs d (remove_transaction_dir (tc_i c)) (\<lambda>_. settled_old c)
          (\<lambda>e. needs_rollback c e \<or> settled_old c e)" if "rolled_back c d" for d
        using remove_rolled_back_runs [OF wf that] .
    qed simp_all
  qed (simp add: triple_fail)
  then show "triple (\<lambda>d. case r of Inr _ \<Rightarrow> rolled_back c d | Inl e \<Rightarrow> e = IoError \<and> needs_rollback c d)
      (case r of Inr _ \<Rightarrow> bind (remove_transaction_dir (j_transaction_id (tc_j c))) (\<lambda>_. fail e)
       | Inl x \<Rightarrow> fail x) Q ?F ?X"
    using wf_case_simps(4) [OF wf] by (cases r) (auto intro!: triple_fail)
qed

lemma write_marker_triple:
  assumes wf: "wf_case c"
  shows "triple (marked_or_not c)
    (bind (write_journal (j_transaction_id (tc_j c)) ((tc_j c)\<lparr>j_phase := Committed\<rparr>)) (\<lambda>_. sync))
    (\<lambda>_. needs_replay c) (\<lambda>_. needs_rollback c) (safe c)"
  unfolding write_journal_def
  by (intro triple_bind [where R = "\<lambda>_. needs_replay c"] triple_change triple_sync
      mark_committed [OF wf])
    (auto simp: marked_or_not_def intro: safe_intros)

lemma finish_commit_triple:
  assumes wf: "wf_case c"
  shows "triple (needs_replay c) (bind (look (registry_generation sha256)) (\<lambda>g.
      bind (guarded g) (\<lambda>generation.
      bind (attempt (cleanup_committed ((tc_j c)\<lparr>j_phase := Committed\<rparr>))) (\<lambda>_. return generation))))
    (\<lambda>_. committed_state c) (\<lambda>_. safe c) (safe c)"
proof (rule triple_look)
  let ?j = "(tc_j c)\<lparr>j_phase := Committed\<rparr>"
  fix g :: "tx_error + string"
  have "runs d (cleanup_committed ?j) (\<lambda>_. settled_new c) (committed_state c)"
    if "needs_replay c d" for d
    using cleanup_runs [OF wf that] by (rule runs_conseq) (simp_all add: committed_state_def)
  then have "triple (needs_replay c) (cleanup_committed ?j) (\<lambda>_. settled_new c)
      (\<lambda>e d. e = IoError \<and> committed_state c d) (committed_state c)"
    by (rule triple_runs)
  then have at: "triple (needs_replay c) (attempt (cleanup_committed ?j)) (\<lambda>_. committed_state c)
      (\<lambda>_. safe c) (safe c)"
    by (rule triple_conseq [OF triple_attempt])
      (auto simp: committed_state_def intro: safe_intros split: sum.splits)
  have "triple (needs_replay c) (bind (attempt (cleanup_committed ?j)) (\<lambda>_. return (a :: string)))
      (\<lambda>_. committed_state c) (\<lambda>_. safe c) (safe c)" for a
    by (rule triple_bind [OF at]) auto
  then show "triple (needs_replay c) (bind (guarded g) (\<lambda>generation.
      bind (attempt (cleanup_committed ?j)) (\<lambda>_. return generation)))
      (\<lambda>_. committed_state c) (\<lambda>_. safe c) (safe c)"
    by (cases g) (auto intro!: triple_fail intro: safe_intros(2))
qed

lemma commit_triple:
  assumes wf: "wf_case c"
  shows "triple (at_start c) (commit sha256 (tc_j c)) (\<lambda>_. committed_state c) (\<lambda>_. safe c) (safe c)"
  unfolding commit_def
proof (rule triple_bind)
  let ?j = "(tc_j c)\<lparr>j_phase := Committed\<rparr>"
  have "triple (at_start c) (commit_before_marker (tc_j c)) (\<lambda>_. marked_or_not c)
      (\<lambda>e d. e = IoError \<and> needs_rollback c d) (needs_rollback c)"
    using commit_before_marker_runs [OF wf] by (rule triple_runs)
  then show "triple (at_start c) (attempt (commit_before_marker (tc_j c)))
      (\<lambda>r d. case r of Inr _ \<Rightarrow> marked_or_not c d | Inl _ \<Rightarrow> needs_rollback c d)
      (\<lambda>_. safe c) (safe c)"
    by (rule triple_conseq [OF triple_attempt]) (auto intro: safe_intros split: sum.splits)
  have undo: "triple (needs_rollback c) (rollback_after_failure (tc_j c) e)
      (\<lambda>_. committed_state c) (\<lambda>_. safe c) (safe c)" for e
    by (rule triple_conseq [OF rollback_after_failure_triple [OF wf]]) (auto intro: safe_intros)
  have mark: "triple (marked_or_not c)
      (attempt (bind (write_journal (j_transaction_id (tc_j c)) ?j) (\<lambda>_. sync)))
      (\<lambda>r d. case r of Inr _ \<Rightarrow> needs_replay c d | Inl _ \<Rightarrow> needs_rollback c d) (\<lambda>_. safe c) (safe c)"
    using write_marker_triple [OF wf] by (rule triple_attempt)
  have "triple (marked_or_not c)
      (bind (attempt (bind (write_journal (j_transaction_id (tc_j c)) ?j) (\<lambda>_. sync))) (\<lambda>m. case m of
         Inl e \<Rightarrow> rollback_after_failure (tc_j c) e
       | Inr _ \<Rightarrow> bind (look (registry_generation sha256)) (\<lambda>g. bind (guarded g) (\<lambda>generation.
           bind (attempt (cleanup_committed ?j)) (\<lambda>_. return generation)))))
      (\<lambda>_. committed_state c) (\<lambda>_. safe c) (safe c)"
  proof (rule triple_bind [OF mark])
    fix m :: "tx_error + unit"
    show "triple (\<lambda>d. case m of Inr _ \<Rightarrow> needs_replay c d | Inl _ \<Rightarrow> needs_rollback c d)
        (case m of Inl e \<Rightarrow> rollback_after_failure (tc_j c) e
         | Inr _ \<Rightarrow> bind (look (registry_generation sha256)) (\<lambda>g. bind (guarded g) (\<lambda>generation.
             bind (attempt (cleanup_committed ?j)) (\<lambda>_. return generation))))
        (\<lambda>_. committed_state c) (\<lambda>_. safe c) (safe c)"
      using undo finish_commit_triple [OF wf] by (cases m) simp_all
  qed
  then show "triple (\<lambda>d. case r of Inr _ \<Rightarrow> marked_or_not c d | Inl _ \<Rightarrow> needs_rollback c d)
      (case r of Inl e \<Rightarrow> rollback_after_failure (tc_j c) e
       | Inr _ \<Rightarrow> (let committed = ?j in
           bind (attempt (bind (write_journal (j_transaction_id (tc_j c)) committed) (\<lambda>_. sync))) (\<lambda>m.
             case m of Inl e \<Rightarrow> rollback_after_failure (tc_j c) e
             | Inr _ \<Rightarrow> bind (look (registry_generation sha256)) (\<lambda>g. bind (guarded g) (\<lambda>generation.
                 bind (attempt (cleanup_committed committed)) (\<lambda>_. return generation))))))
      (\<lambda>_. committed_state c) (\<lambda>_. safe c) (safe c)" for r :: "tx_error + unit"
    using undo by (cases r) (simp_all only: Let_def sum.case)
qed

subsection \<open>Recovery\<close>

lemma recover_rollback:
  assumes wf: "wf_case c" and inv: "needs_rollback c d"
  shows "runs d recover_transactions
    (\<lambda>ns e. settled_old c e \<and> ns = [(''transaction-rolled-back'', tc_i c)])
    (\<lambda>e. needs_rollback c e \<or> settled_old c e)"
proof -
  have b: "book c Prepared d" using inv by (simp add: needs_rollback_def)
  have v: "validate_journal (tc_j c) (tc_i c) = Inr ()"
    using wf by (simp add: wf_case_def wf_journal_def)
  have "runs d (bind (rollback_prepared (tc_j c)) (\<lambda>_. bind (remove_transaction_dir (tc_i c)) (\<lambda>_.
      return [(''transaction-rolled-back'', tc_i c)])))
    (\<lambda>ns e. settled_old c e \<and> ns = [(''transaction-rolled-back'', tc_i c)])
    (\<lambda>e. needs_rollback c e \<or> settled_old c e)"
  proof (rule runs_bind, rule runs_conseq [OF rollback_prepared_runs [OF wf inv]])
    show "runs e (bind (remove_transaction_dir (tc_i c)) (\<lambda>_.
        return [(''transaction-rolled-back'', tc_i c)]))
      (\<lambda>ns e. settled_old c e \<and> ns = [(''transaction-rolled-back'', tc_i c)])
      (\<lambda>e. needs_rollback c e \<or> settled_old c e)" if "rolled_back c e" for e
      by (rule runs_bind [OF remove_rolled_back_runs [OF wf that]]) simp
  qed simp_all
  then show ?thesis
    using b v wf_case_simps(4) [OF wf]
    by (simp add: recover_transactions_def recover_one_def book_def)
qed

lemma recover_replay:
  assumes wf: "wf_case c" and inv: "needs_replay c d"
  shows "runs d recover_transactions
    (\<lambda>ns e. settled_new c e \<and> ns = [(''transaction-replayed'', tc_i c)]) (committed_state c)"
proof -
  have b: "book c Committed d" using inv by (simp add: needs_replay_def)
  have v: "validate_journal (tc_j c) (tc_i c) = Inr ()"
    using wf by (simp add: wf_case_def wf_journal_def)
  have "runs d (bind (replay_committed (tc_j c)) (\<lambda>_. bind (remove_transaction_dir (tc_i c)) (\<lambda>_.
      return [(''transaction-replayed'', tc_i c)])))
    (\<lambda>ns e. settled_new c e \<and> ns = [(''transaction-replayed'', tc_i c)]) (committed_state c)"
  proof (rule runs_bind, rule runs_conseq [OF replay_committed_runs [OF wf inv]])
    show "runs e (bind (remove_transaction_dir (tc_i c)) (\<lambda>_.
        return [(''transaction-replayed'', tc_i c)]))
      (\<lambda>ns e. settled_new c e \<and> ns = [(''transaction-replayed'', tc_i c)]) (committed_state c)"
      if "needs_replay c e" for e
      using remove_replayed_runs [OF wf that] unfolding committed_state_def
      by (rule runs_bind) simp
  qed (simp_all add: committed_state_def)
  then show ?thesis
    using b v wf_case_simps(4) [OF wf]
    by (simp add: recover_transactions_def recover_one_def book_def)
qed

lemma recover_settled:
  "settled c img d \<Longrightarrow> runs d recover_transactions (\<lambda>ns e. e = d \<and> ns = []) X"
  by (simp add: recover_transactions_def settled_def)

lemma staging_shrink:
  "staging c d \<Longrightarrow> internal (tc_i c) p \<Longrightarrow> staging c (remove_node p d)"
  by (auto simp: staging_def)

lemma drop_staging: "staging c d \<Longrightarrow> settled_old c (drop_tx (tc_i c) d)"
  by (simp add: staging_def settled_def)

lemma recover_staging:
  assumes d: "staging c d"
  shows "runs d recover_transactions (\<lambda>ns e. settled_old c e \<and> ns = []) (uncommitted c)"
proof -
  have "runs d (remove_transaction_dir (tc_i c)) (\<lambda>_. settled_old c) (uncommitted c)"
    by (rule remove_dir_runs [where P = "staging c", OF d])
      (use d in \<open>auto simp: staging_shrink drop_staging uncommitted_def staging_def [of c d]\<close>)
  then have "runs d (bind (remove_transaction_dir (tc_i c)) (\<lambda>_. return []))
      (\<lambda>ns e. settled_old c e \<and> ns = []) (uncommitted c)"
    by (rule runs_bind) simp
  then show ?thesis
    using d by (simp add: recover_transactions_def recover_one_def staging_def)
qed

text \<open>Recovery never changes its mind: what is not committed goes back, what is goes through.\<close>

lemma recover_uncommitted:
  assumes wf: "wf_case c" and d: "uncommitted c d"
  shows "runs d recover_transactions (\<lambda>_. settled_old c) (uncommitted c)"
proof -
  consider "staging c d" | "needs_rollback c d" | "settled_old c d"
    using d unfolding uncommitted_def by blast
  then show ?thesis
  proof cases
  assume "staging c d"
  then show ?thesis by (rule runs_conseq [OF recover_staging]) simp_all
next
  assume d: "needs_rollback c d"
  show ?thesis
    by (rule runs_conseq [OF recover_rollback [OF wf d]]) (auto simp: uncommitted_def)
next
  assume d: "settled_old c d"
  show ?thesis
    by (rule runs_conseq [OF recover_settled [OF d, where X = "uncommitted c"]])
      (use \<open>uncommitted c d\<close> d in simp_all)
  qed
qed

lemma recover_committed:
  assumes wf: "wf_case c" and d: "committed_state c d"
  shows "runs d recover_transactions (\<lambda>_. settled_new c) (committed_state c)"
proof -
  consider "needs_replay c d" | "settled_new c d"
    using d unfolding committed_state_def by blast
  then show ?thesis
  proof cases
  assume d: "needs_replay c d"
  show ?thesis
    by (rule runs_conseq [OF recover_replay [OF wf d]]) (auto simp: committed_state_def)
next
  assume d: "settled_new c d"
  show ?thesis
    by (rule runs_conseq [OF recover_settled [OF d, where X = "committed_state c"]])
      (use \<open>committed_state c d\<close> d in simp_all)
  qed
qed

section \<open>Any number of interrupted recoveries\<close>

text \<open>The disk after recoveries with the given fates, one after the other.\<close>

fun power_cycles :: "fate list list \<Rightarrow> disk \<Rightarrow> disk" where
  "power_cycles [] d = d"
| "power_cycles (es # ess) d = power_cycles ess (snd (snd (recover_transactions (es, d))))"

abbreviation flushed :: "fate list list \<Rightarrow> bool" where
  "flushed \<equiv> list_all (\<lambda>es. SyncFault \<notin> set es)"

lemma runs_final:
  assumes r: "runs d m Q X" and es: "SyncFault \<notin> set es"
  shows "(\<exists>a. Q a (snd (snd (m (es, d))))) \<or> X (snd (snd (m (es, d))))"
proof -
  obtain oc es' d' where m: "m (es, d) = (oc, es', d')" by (cases "m (es, d)")
  note t = tripleD [OF r [unfolded runs_def] es refl m]
  show ?thesis using t m by (cases oc) auto
qed

lemma power_cycles_keep:
  assumes step: "\<And>e. P e \<Longrightarrow> runs e recover_transactions (\<lambda>_. Q) P" and weak: "\<And>e. Q e \<Longrightarrow> P e"
  shows "flushed ess \<Longrightarrow> P d \<Longrightarrow> P (power_cycles ess d)"
proof (induction ess arbitrary: d)
  case (Cons es ess)
  have "P (snd (snd (recover_transactions (es, d))))"
    using runs_final [OF step [OF Cons.prems(2)]] Cons.prems(1) weak by auto
  then show ?case using Cons by simp
qed simp

lemma complete_recovery:
  assumes "runs d recover_transactions (\<lambda>_. Q) X"
  shows "\<exists>ns d'. recover_transactions ([], d) = (Done ns, [], d') \<and> Q d'"
proof -
  obtain oc es' d' where m: "recover_transactions ([], d) = (oc, es', d')"
    by (cases "recover_transactions ([], d)")
  have n: "oc \<noteq> Crashed" "oc \<noteq> Failed IoError" "es' = []"
    using no_crash_recover m unfolding no_crash_def by (auto dest: spec [of _ d])
  note t = tripleD [OF assms [unfolded runs_def] _ refl m]
  show ?thesis using n t m by (cases oc) auto
qed

lemma recovered:
  assumes wf: "wf_case c" and ess: "flushed ess"
  shows "uncommitted c d \<Longrightarrow>
      \<exists>ns d'. recover_transactions ([], power_cycles ess d) = (Done ns, [], d') \<and> settled_old c d'"
    "committed_state c d \<Longrightarrow>
      \<exists>ns d'. recover_transactions ([], power_cycles ess d) = (Done ns, [], d') \<and> settled_new c d'"
proof -
  assume "uncommitted c d"
  then have "uncommitted c (power_cycles ess d)"
    using power_cycles_keep [OF recover_uncommitted [OF wf]] ess by (auto simp: uncommitted_def)
  then show "\<exists>ns d'. recover_transactions ([], power_cycles ess d) = (Done ns, [], d') \<and> settled_old c d'"
    using complete_recovery recover_uncommitted [OF wf] by blast
next
  assume "committed_state c d"
  then have "committed_state c (power_cycles ess d)"
    using power_cycles_keep [OF recover_committed [OF wf]] ess by (auto simp: committed_state_def)
  then show "\<exists>ns d'. recover_transactions ([], power_cycles ess d) = (Done ns, [], d') \<and> settled_new c d'"
    using complete_recovery recover_committed [OF wf] by blast
qed

end
