(* ===== verification/RegistryUpdate.thy ===== *)
theory RegistryUpdate
  imports CrashAtomicity
begin

text \<open>
  A whole update of the registry, \<open>prepare\<close> followed by \<open>commit\<close>, from a disk without pending
  transactions: what it stages, that the journal it writes is one the crash lemmas apply to,
  and the image it leaves.
\<close>

section \<open>Names and paths\<close>









lemma agent_path_simps [simp]:
  "agent_path a = agent_path b \<longleftrightarrow> a = b" "agent_path a = index_yaml \<longleftrightarrow> a = ''index.yaml''"
  "agent_path a = ''agents/subagents.yaml'' \<longleftrightarrow> a = ''subagents.yaml''"
  "index_yaml = agent_path a \<longleftrightarrow> a = ''index.yaml''"
  "''agents/subagents.yaml'' = agent_path a \<longleftrightarrow> a = ''subagents.yaml''"
  "agent_path a \<noteq> LEGACY_MEMORY_DIR" "LEGACY_MEMORY_DIR \<noteq> agent_path a"
  "LEGACY_MEMORY_DIR \<noteq> index_yaml" "LEGACY_MEMORY_DIR \<noteq> ''agents/subagents.yaml''"
  "index_yaml \<noteq> LEGACY_MEMORY_DIR" "''agents/subagents.yaml'' \<noteq> LEGACY_MEMORY_DIR"
  "strip_prefix (agent_path a) ''agents/'' = Some a"
  by (auto simp: agent_path_def LEGACY_MEMORY_DIR_def strip_prefix_def starts_with_def)








section \<open>A well-formed update\<close>



definition staged_dir :: "disk \<Rightarrow> string \<times> string \<Rightarrow> node" where
  "staged_dir d0 agent =
     (case node_at d0 (agent_path (fst agent)) of
        Some (DirN es) \<Rightarrow> DirN (AList.update ''agent.yaml'' (FileN (snd agent)) es)
      | _ \<Rightarrow> DirN [(''agent.yaml'', FileN (snd agent))])"

definition agent_op :: "disk \<Rightarrow> string \<Rightarrow> string \<times> string \<Rightarrow> journal_operation" where
  "agent_op d0 i agent =
     (let t = agent_path (fst agent)
      in if path_exists d0 t then Replace (stage_path i t) t (backup_path i t)
         else Create (stage_path i t) t)"

definition subagents_op :: "disk \<Rightarrow> string \<Rightarrow> journal_operation" where
  "subagents_op d0 i =
     (let t = ''agents/subagents.yaml''
      in if path_exists d0 t then Replace (stage_path i t) t (backup_path i t)
         else Create (stage_path i t) t)"

definition delete_op :: "string \<Rightarrow> string \<Rightarrow> journal_operation" where
  "delete_op i a = Delete (agent_path a) (trash_path i (agent_path a))"

definition legacy_ops :: "disk \<Rightarrow> string \<Rightarrow> bool \<Rightarrow> journal_operation list" where
  "legacy_ops d0 i legacy =
     (if legacy \<and> path_exists d0 LEGACY_MEMORY_DIR
      then [Delete LEGACY_MEMORY_DIR (trash_path i LEGACY_MEMORY_DIR)] else [])"

definition update_ops :: "disk \<Rightarrow> string \<Rightarrow> disk_image \<Rightarrow> bool \<Rightarrow> journal_operation list" where
  "update_ops d0 i cand legacy =
     map (agent_op d0 i) (di_agents cand) @ [subagents_op d0 i]
     @ map (delete_op i) (di_deleted cand) @ legacy_ops d0 i legacy"

definition update_journal :: "disk \<Rightarrow> string \<Rightarrow> disk_image \<Rightarrow> bool \<Rightarrow> journal" where
  "update_journal d0 i cand legacy =
     \<lparr>j_schema_version = JOURNAL_SCHEMA_VERSION, j_transaction_id = i, j_phase = Prepared,
      j_operations = update_ops d0 i cand legacy,
      j_index_stage = stage_path i index_yaml, j_index_target = index_yaml,
      j_index_backup = backup_path i index_yaml\<rparr>"

definition agent_entries :: "disk \<Rightarrow> string \<Rightarrow> (string \<times> string) list \<Rightarrow> (string \<times> node) list" where
  "agent_entries d0 i agents =
     rev (map (\<lambda>agent. (stage_path i (agent_path (fst agent)), staged_dir d0 agent)) agents)"

definition update_entries :: "disk \<Rightarrow> string \<Rightarrow> disk_image \<Rightarrow> (string \<times> node) list" where
  "update_entries d0 i cand =
     (stage_path i index_yaml, FileN (di_index_yaml cand))
     # (stage_path i ''agents/subagents.yaml'', FileN (di_subagents_yaml cand))
     # agent_entries d0 i (di_agents cand)"

definition update_case :: "disk \<Rightarrow> string \<Rightarrow> disk_image \<Rightarrow> bool \<Rightarrow> tx_case" where
  "update_case d0 i cand legacy =
     \<lparr>tc_old = node_at d0, tc_new = map_of (update_entries d0 i cand),
      tc_index = di_index_yaml cand, tc_j = update_journal d0 i cand legacy, tc_i = i\<rparr>"

lemma update_case_simps [simp]:
  "tc_old (update_case d0 i cand legacy) = node_at d0"
  "tc_new (update_case d0 i cand legacy) = map_of (update_entries d0 i cand)"
  "tc_index (update_case d0 i cand legacy) = di_index_yaml cand"
  "tc_j (update_case d0 i cand legacy) = update_journal d0 i cand legacy"
  "tc_i (update_case d0 i cand legacy) = i"
  by (simp_all add: update_case_def)

subsection \<open>Its journal is well formed\<close>

lemma op_targets [simp]:
  "op_target (agent_op d0 i agent) = agent_path (fst agent)"
  "op_target (subagents_op d0 i) = ''agents/subagents.yaml''"
  "op_target (delete_op i a) = agent_path a"
  by (simp_all add: agent_op_def subagents_op_def delete_op_def Let_def)











section \<open>Preparing\<close>
























subsection \<open>The prepared disk is one the commit can start from\<close>

lemma stage_neq [simp]:
  "stage_path i index_yaml \<noteq> stage_path i (agent_path a) \<longleftrightarrow> a \<noteq> ''index.yaml''"
  "stage_path i (agent_path a) \<noteq> stage_path i ''agents/subagents.yaml'' \<longleftrightarrow> a \<noteq> ''subagents.yaml''"
  by auto








section \<open>The image an update leaves\<close>






section \<open>Properties\<close>

text \<open>A small registry and an update of it, for the concrete runs.\<close>

definition sample_disk :: disk where
  "sample_disk =
     \<lparr>d_nodes = [(''agents/index.yaml'', FileN ''i0''), (''agents/subagents.yaml'', FileN ''s0''),
                 (''agents/a'', DirN [(''agent.yaml'', FileN ''a0''), (''notes'', FileN ''n'')]),
                 (''agents/b'', DirN [(''agent.yaml'', FileN ''b0'')])],
      d_txdirs = [], d_journals = []\<rparr>"

definition sample_image :: disk_image where
  "sample_image =
     \<lparr>di_index_yaml = ''i1'', di_subagents_yaml = ''s1'',
      di_agents = [(''a'', ''a1''), (''c'', ''c1'')], di_deleted = [''b'']\<rparr>"




text \<open>An update prepared against another generation than the one on disk changes nothing.\<close>

theorem stale_update_refused:
  assumes "registry_generation sha256 d = Inr actual" "actual \<noteq> expected"
  shows "prepare_and_commit sha256 i cand (Some expected) legacy (es, d) = (Failed GenerationChanged, es, d)"
  using assms
  by (simp add: prepare_and_commit_def prepare_def bind_def look_def guarded_def return_def fail_def)



theorem stale_update_refused_witness:
  "prepare_and_commit (\<lambda>s. ''h'') ''t'' sample_image (Some ''g'') False ([PowerCut], sample_disk)
     = (Failed GenerationChanged, [PowerCut], sample_disk)"
proof (rule stale_update_refused)
  show "registry_generation (\<lambda>s. ''h'') sample_disk = Inr ''h''" by code_simp
qed simp

text \<open>The rollback restores the index only from its backup: when the update creates the first
  index, a power cut between its write and the marker leaves it behind after recovery, although
  the agents it names are rolled back.\<close>

theorem first_index_survives_rollback:
  "let d1 = snd (snd (prepare_and_commit (\<lambda>s. ''h'') ''t''
           (sample_image\<lparr>di_deleted := []\<rparr>) None False
           (replicate 25 Works @ [PowerCut], \<lparr>d_nodes = [], d_txdirs = [], d_journals = []\<rparr>)));
       d2 = snd (snd (recover_transactions ([], d1)))
   in fst (recover_transactions ([], d1)) = Done [(''transaction-rolled-back'', ''t'')]
      \<and> d_nodes d2 = [(''agents/index.yaml'', FileN ''i1'')]"
  by code_simp

text \<open>When the flush of the committed marker fails, the commit rolls back under a journal that
  already says committed; if the power is cut in that rollback, every later recovery fails.\<close>

theorem marker_flush_failure_blocks_recovery:
  "let d1 = snd (snd (prepare_and_commit (\<lambda>s. ''h'') ''t'' sample_image None False
           (replicate 38 Works @ [SyncFault] @ replicate 4 Works @ [PowerCut], sample_disk)))
   in recover_transactions ([], d1) = (Failed ReplayNeither, [], d1)"
  by code_simp

end
