(* ===== verification/LearningQueue.thy ===== *)
theory LearningQueue
  imports Interfaces
begin

text \<open>
  \<open>agents/learning_queue.rs\<close>: the durable queue of learning events, one strictly ordered line
  per agent. The two tables are lists of rows; every operation is one database transaction, a
  function of the tables. The payload is stored as the value it serialises, so reading it back
  cannot fail; identifiers and times are arguments.
\<close>

section \<open>Rows\<close>

datatype queue_status = QPending | QClaimed | QDelivered

record 'p queue_row =
  q_event_id :: string
  q_agent_id :: string
  q_sequence :: int
  q_payload :: 'p
  q_status :: queue_status
  q_claimed_by :: "string option"
  q_claimed_at :: "int option"
  q_attempts :: nat
  q_last_error :: "string option"
  q_created_at :: int
  q_delivered_at :: "int option"

record agent_state =
  as_next_sequence :: int
  as_enqueue_blocked :: bool

record 'p queue =
  lq_rows :: "'p queue_row list"
  lq_states :: "(string \<times> agent_state) list"

record 'p learning_event =
  le_event_id :: string
  le_agent_id :: string
  le_sequence :: int
  le_payload :: 'p
  le_attempts :: nat

datatype queue_error =
    InvalidAgentId
  | BlankWorker
  | EnqueueBlocked
  | UniqueViolation
  | EventIs queue_status
  | EventNotFound
  | NotClaimed

definition DEFAULT_STALE_AFTER_MS :: int where
  "DEFAULT_STALE_AFTER_MS = 5 * 60 * 1000"

definition MAX_LAST_ERROR_CHARS :: nat where
  "MAX_LAST_ERROR_CHARS = 500"

definition is_ascii_lower :: "char \<Rightarrow> bool" where
  "is_ascii_lower c \<longleftrightarrow> 97 \<le> byte c \<and> byte c \<le> 122"

definition validate_agent_id :: "string \<Rightarrow> queue_error + unit" where
  "validate_agent_id value =
     (if value \<noteq> [] \<and> length value \<le> 64 \<and> is_ascii_lower (hd value)
         \<and> list_all (\<lambda>c. is_ascii_lower c \<or> is_ascii_digit c \<or> c = CHR ''-'') value
         \<and> \<not> ends_with value ''-''
      then Inr () else Inl InvalidAgentId)"

definition default_state :: agent_state where
  "default_state = \<lparr>as_next_sequence = 1, as_enqueue_blocked = False\<rparr>"

definition agent_state_of :: "'p queue \<Rightarrow> string \<Rightarrow> agent_state option" where
  "agent_state_of q a = map_of (lq_states q) a"

section \<open>Operations\<close>

text \<open>The blocked gate aborts the transaction, so that not even the state row appears.\<close>

definition enqueue ::
    "'p queue \<Rightarrow> string \<Rightarrow> 'p \<Rightarrow> string \<Rightarrow> int \<Rightarrow> queue_error + ('p learning_event \<times> 'p queue)" where
  "enqueue q agent payload event_id now =
     try_bind (validate_agent_id agent) (\<lambda>_.
       (let st = (case agent_state_of q agent of Some s \<Rightarrow> s | None \<Rightarrow> default_state);
            sequence = as_next_sequence st
        in if as_enqueue_blocked st then Inl EnqueueBlocked
           else if list_ex (\<lambda>r. q_event_id r = event_id
                     \<or> (q_agent_id r = agent \<and> q_sequence r = sequence)) (lq_rows q)
           then Inl UniqueViolation
           else Inr
             (\<lparr>le_event_id = event_id, le_agent_id = agent, le_sequence = sequence,
               le_payload = payload, le_attempts = 0\<rparr>,
              \<lparr>lq_rows = lq_rows q @
                 [\<lparr>q_event_id = event_id, q_agent_id = agent, q_sequence = sequence,
                   q_payload = payload, q_status = QPending, q_claimed_by = None,
                   q_claimed_at = None, q_attempts = 0, q_last_error = None,
                   q_created_at = now, q_delivered_at = None\<rparr>],
               lq_states = AList.update agent (st\<lparr>as_next_sequence := sequence + 1\<rparr>) (lq_states q)\<rparr>)))"

definition unclaim :: "'p queue_row \<Rightarrow> 'p queue_row" where
  "unclaim r = r\<lparr>q_status := QPending, q_claimed_by := None, q_claimed_at := None\<rparr>"

definition claim_is_stale :: "int \<Rightarrow> 'p queue_row \<Rightarrow> bool" where
  "claim_is_stale cutoff r \<longleftrightarrow>
     q_status r = QClaimed \<and> (case q_claimed_at r of Some t \<Rightarrow> t \<le> cutoff | None \<Rightarrow> False)"

text \<open>\<open>i64::saturating_sub\<close>, for a window that is not negative.\<close>

definition stale_cutoff :: "int \<Rightarrow> int" where
  "stale_cutoff now = max (now - DEFAULT_STALE_AFTER_MS) (- (2 ^ 63))"

definition reset_stale :: "(string \<Rightarrow> bool) \<Rightarrow> int \<Rightarrow> 'p queue \<Rightarrow> 'p queue" where
  "reset_stale agents cutoff q =
     q\<lparr>lq_rows := map (\<lambda>r. if agents (q_agent_id r) \<and> claim_is_stale cutoff r then unclaim r else r)
                   (lq_rows q)\<rparr>"

definition undelivered :: "'p queue_row \<Rightarrow> bool" where
  "undelivered r \<longleftrightarrow> q_status r = QPending \<or> q_status r = QClaimed"

definition head_row :: "'p queue \<Rightarrow> string \<Rightarrow> 'p queue_row option" where
  "head_row q agent =
     (case sort_key q_sequence (filter (\<lambda>r. q_agent_id r = agent \<and> undelivered r) (lq_rows q)) of
        [] \<Rightarrow> None
      | r # _ \<Rightarrow> Some r)"

definition set_claim :: "string \<Rightarrow> string \<Rightarrow> int \<Rightarrow> 'p queue \<Rightarrow> 'p queue" where
  "set_claim event_id worker now q =
     q\<lparr>lq_rows := map (\<lambda>r. if q_event_id r = event_id \<and> q_status r = QPending
         then r\<lparr>q_status := QClaimed, q_claimed_by := Some worker, q_claimed_at := Some now,
                q_attempts := q_attempts r + 1\<rparr>
         else r) (lq_rows q)\<rparr>"

definition claim_next ::
    "'p queue \<Rightarrow> string \<Rightarrow> string \<Rightarrow> int \<Rightarrow> queue_error + ('p learning_event option \<times> 'p queue)" where
  "claim_next q agent worker now =
     try_bind (validate_agent_id agent) (\<lambda>_.
       if trim worker = [] then Inl BlankWorker
       else if map_option as_enqueue_blocked (agent_state_of q agent) = Some True then Inr (None, q)
       else
         (let q1 = reset_stale (\<lambda>a. a = agent) (stale_cutoff now) q
          in case head_row q1 agent of
               None \<Rightarrow> Inr (None, q1)
             | Some r \<Rightarrow>
                 if q_status r \<noteq> QPending then Inr (None, q1)
                 else Inr (Some \<lparr>le_event_id = q_event_id r, le_agent_id = agent,
                                 le_sequence = q_sequence r, le_payload = q_payload r,
                                 le_attempts = min (q_attempts r + 1) (2 ^ 32 - 1)\<rparr>,
                           set_claim (q_event_id r) worker now q1)))"

text \<open>Agents by the creation time of their oldest pending event.\<close>

definition pending_agents :: "'p queue \<Rightarrow> string list" where
  "pending_agents q =
     map q_agent_id (sort_key (\<lambda>r. (q_created_at r, q_agent_id r))
       (filter (\<lambda>r. q_status r = QPending
          \<and> list_all (\<lambda>s. q_agent_id s = q_agent_id r \<and> q_status s = QPending
                        \<longrightarrow> q_sequence r \<le> q_sequence s) (lq_rows q)) (lq_rows q)))"

definition is_blocked :: "'p queue \<Rightarrow> string \<Rightarrow> bool" where
  "is_blocked q agent \<longleftrightarrow>
     (case agent_state_of q agent of Some s \<Rightarrow> as_enqueue_blocked s | None \<Rightarrow> False)"

definition event_status :: "'p queue \<Rightarrow> string \<Rightarrow> queue_status option" where
  "event_status q event_id =
     map_option q_status (find (\<lambda>r. q_event_id r = event_id) (lq_rows q))"

definition claimed_event :: "string \<Rightarrow> 'p queue_row \<Rightarrow> bool" where
  "claimed_event event_id r \<longleftrightarrow> q_event_id r = event_id \<and> q_status r = QClaimed"

definition mark_delivered :: "'p queue \<Rightarrow> string \<Rightarrow> int \<Rightarrow> queue_error + 'p queue" where
  "mark_delivered q event_id now =
     (if list_ex (claimed_event event_id) (lq_rows q) then
        Inr (q\<lparr>lq_rows := map (\<lambda>r. if claimed_event event_id r
               then r\<lparr>q_status := QDelivered, q_delivered_at := Some now,
                      q_claimed_by := None, q_claimed_at := None\<rparr>
               else r) (lq_rows q)\<rparr>)
      else (case event_status q event_id of
              Some QDelivered \<Rightarrow> Inr q
            | Some other \<Rightarrow> Inl (EventIs other)
            | None \<Rightarrow> Inl EventNotFound))"

definition truncate_chars :: "string \<Rightarrow> nat \<Rightarrow> string" where
  "truncate_chars value limit = concat (take limit (chars value))"

definition release :: "'p queue \<Rightarrow> string \<Rightarrow> string \<Rightarrow> queue_error + 'p queue" where
  "release q event_id error =
     (if list_ex (claimed_event event_id) (lq_rows q) then
        Inr (q\<lparr>lq_rows := map (\<lambda>r. if claimed_event event_id r
               then (unclaim r)\<lparr>q_last_error := Some (truncate_chars error MAX_LAST_ERROR_CHARS)\<rparr>
               else r) (lq_rows q)\<rparr>)
      else Inl NotClaimed)"

definition reclaim_stale :: "'p queue \<Rightarrow> int \<Rightarrow> nat \<times> 'p queue" where
  "reclaim_stale q now =
     (length (filter (claim_is_stale (stale_cutoff now)) (lq_rows q)),
      reset_stale (\<lambda>_. True) (stale_cutoff now) q)"

definition blocked_agents :: "'p queue \<Rightarrow> string list" where
  "blocked_agents q = sort (map fst (filter (\<lambda>(_, s). as_enqueue_blocked s) (lq_states q)))"

definition set_blocked :: "'p queue \<Rightarrow> string \<Rightarrow> bool \<Rightarrow> queue_error + 'p queue" where
  "set_blocked q agent blocked =
     try_bind (validate_agent_id agent) (\<lambda>_.
       (let st = (case agent_state_of q agent of Some s \<Rightarrow> s | None \<Rightarrow> default_state)
        in Inr (q\<lparr>lq_states := AList.update agent (st\<lparr>as_enqueue_blocked := blocked\<rparr>) (lq_states q)\<rparr>)))"

definition discard_unconsumed :: "'p queue \<Rightarrow> string \<Rightarrow> queue_error + 'p queue" where
  "discard_unconsumed q agent =
     try_bind (validate_agent_id agent) (\<lambda>_.
       Inr (q\<lparr>lq_rows := filter (\<lambda>r. \<not> (q_agent_id r = agent \<and> undelivered r)) (lq_rows q)\<rparr>))"

section \<open>The tables keep the lines strict\<close>

text \<open>
  Identifiers and (agent, sequence) pairs are unique and below the next sequence; in the line of
  an agent every delivered event comes before every undelivered one, and a claimed event is the
  first of the undelivered.
\<close>

definition queue_inv :: "'p queue \<Rightarrow> bool" where
  "queue_inv q \<longleftrightarrow>
     distinct (map q_event_id (lq_rows q))
     \<and> (\<forall>r \<in> set (lq_rows q). \<exists>s. agent_state_of q (q_agent_id r) = Some s
          \<and> q_sequence r < as_next_sequence s)
     \<and> (\<forall>r \<in> set (lq_rows q). \<forall>s \<in> set (lq_rows q). q_agent_id r = q_agent_id s \<longrightarrow>
          (q_sequence r = q_sequence s \<longrightarrow> r = s)
          \<and> (q_status r \<noteq> QPending \<longrightarrow> undelivered s \<longrightarrow> r \<noteq> s \<longrightarrow> q_sequence r < q_sequence s))"

text \<open>Updates that keep identity and place of every row.\<close>

definition same_place :: "('p queue_row \<Rightarrow> 'p queue_row) \<Rightarrow> bool" where
  "same_place f \<longleftrightarrow>
     (\<forall>r. q_event_id (f r) = q_event_id r \<and> q_agent_id (f r) = q_agent_id r
        \<and> q_sequence (f r) = q_sequence r)"

lemma queue_invD:
  assumes "queue_inv q" "r \<in> set (lq_rows q)"
  shows "\<exists>s. agent_state_of q (q_agent_id r) = Some s \<and> q_sequence r < as_next_sequence s"
    "s \<in> set (lq_rows q) \<Longrightarrow> q_agent_id r = q_agent_id s \<Longrightarrow> q_sequence r = q_sequence s \<Longrightarrow> r = s"
    "s \<in> set (lq_rows q) \<Longrightarrow> q_agent_id r = q_agent_id s \<Longrightarrow> q_status r \<noteq> QPending \<Longrightarrow> undelivered s \<Longrightarrow>
      r \<noteq> s \<Longrightarrow> q_sequence r < q_sequence s"
    "s \<in> set (lq_rows q) \<Longrightarrow> q_event_id r = q_event_id s \<Longrightarrow> r = s"
proof -
  have d: "distinct (map q_event_id (lq_rows q))"
    and a: "\<forall>r \<in> set (lq_rows q). \<exists>s. agent_state_of q (q_agent_id r) = Some s
          \<and> q_sequence r < as_next_sequence s"
    and b: "\<forall>r \<in> set (lq_rows q). \<forall>s \<in> set (lq_rows q). q_agent_id r = q_agent_id s \<longrightarrow>
          (q_sequence r = q_sequence s \<longrightarrow> r = s)
          \<and> (q_status r \<noteq> QPending \<longrightarrow> undelivered s \<longrightarrow> r \<noteq> s \<longrightarrow> q_sequence r < q_sequence s)"
    using assms(1) by (simp_all add: queue_inv_def)
  show "\<exists>s. agent_state_of q (q_agent_id r) = Some s \<and> q_sequence r < as_next_sequence s"
    using a assms(2) by blast
  show "s \<in> set (lq_rows q) \<Longrightarrow> q_agent_id r = q_agent_id s \<Longrightarrow> q_sequence r = q_sequence s \<Longrightarrow> r = s"
    using b assms(2) by blast
  show "s \<in> set (lq_rows q) \<Longrightarrow> q_agent_id r = q_agent_id s \<Longrightarrow> q_status r \<noteq> QPending \<Longrightarrow> undelivered s \<Longrightarrow>
      r \<noteq> s \<Longrightarrow> q_sequence r < q_sequence s"
    using b assms(2) by blast
  show "s \<in> set (lq_rows q) \<Longrightarrow> q_event_id r = q_event_id s \<Longrightarrow> r = s"
    using d assms(2) by (auto simp: distinct_map inj_on_def)
qed

text \<open>No event is undone, and only the first of a line leaves \<open>QPending\<close>.\<close>

lemma queue_inv_map:
  assumes inv: "queue_inv q" and place: "same_place f"
    and undo: "\<And>r. r \<in> set (lq_rows q) \<Longrightarrow> undelivered (f r) \<Longrightarrow> undelivered r"
    and first: "\<And>r s. r \<in> set (lq_rows q) \<Longrightarrow> q_status (f r) \<noteq> QPending \<Longrightarrow> q_status r = QPending \<Longrightarrow>
      s \<in> set (lq_rows q) \<Longrightarrow> q_agent_id s = q_agent_id r \<Longrightarrow> undelivered s \<Longrightarrow> q_sequence r \<le> q_sequence s"
  shows "queue_inv (q\<lparr>lq_rows := map f (lq_rows q)\<rparr>)"
proof -
  have p: "q_event_id (f r) = q_event_id r" "q_agent_id (f r) = q_agent_id r"
    "q_sequence (f r) = q_sequence r" for r
    using place by (simp_all add: same_place_def)
  have "map q_event_id (map f (lq_rows q)) = map q_event_id (lq_rows q)" using p by simp
  then have d: "distinct (map q_event_id (map f (lq_rows q)))"
    using inv unfolding queue_inv_def by metis
  have lt: "q_sequence r < q_sequence s"
    if "r \<in> set (lq_rows q)" "s \<in> set (lq_rows q)" "q_agent_id r = q_agent_id s"
      "q_status (f r) \<noteq> QPending" "undelivered (f s)" "f r \<noteq> f s" for r s
  proof (cases "q_status r = QPending")
    case True
    then have "q_sequence r \<le> q_sequence s" using first undo that by metis
    moreover have "q_sequence r \<noteq> q_sequence s" using queue_invD(2) [OF inv] that by metis
    ultimately show ?thesis by simp
  next
    case False
    then show ?thesis using queue_invD(3) [OF inv] undo that by metis
  qed
  show ?thesis
    unfolding queue_inv_def
  proof (intro conjI ballI impI)
    show "distinct (map q_event_id (lq_rows (q\<lparr>lq_rows := map f (lq_rows q)\<rparr>)))" using d by simp
  next
    fix r assume "r \<in> set (lq_rows (q\<lparr>lq_rows := map f (lq_rows q)\<rparr>))"
    then show "\<exists>s. agent_state_of (q\<lparr>lq_rows := map f (lq_rows q)\<rparr>) (q_agent_id r) = Some s
        \<and> q_sequence r < as_next_sequence s"
      using queue_invD(1) [OF inv] p by (auto simp: agent_state_of_def)
  next
    fix r s
    assume rs: "r \<in> set (lq_rows (q\<lparr>lq_rows := map f (lq_rows q)\<rparr>))"
      "s \<in> set (lq_rows (q\<lparr>lq_rows := map f (lq_rows q)\<rparr>))" "q_agent_id r = q_agent_id s"
    then obtain r0 s0 where 0: "r = f r0" "s = f s0" "r0 \<in> set (lq_rows q)" "s0 \<in> set (lq_rows q)"
      by auto
    show "r = s" if "q_sequence r = q_sequence s"
      using queue_invD(2) [OF inv 0(3,4)] that rs(3) p 0(1,2) by simp
    show "q_sequence r < q_sequence s" if "q_status r \<noteq> QPending" "undelivered s" "r \<noteq> s"
      using lt [OF 0(3,4)] that rs(3) p 0(1,2) by simp
  qed
qed

lemma queue_inv_filter:
  assumes "queue_inv q" shows "queue_inv (q\<lparr>lq_rows := filter P (lq_rows q)\<rparr>)"
  using assms by (auto simp: queue_inv_def agent_state_of_def distinct_map_filter)

lemma unclaim_place [simp]:
  "q_event_id (unclaim r) = q_event_id r" "q_agent_id (unclaim r) = q_agent_id r"
  "q_sequence (unclaim r) = q_sequence r" "q_status (unclaim r) = QPending"
  by (simp_all add: unclaim_def)

lemma reset_stale_inv [inv_intros]: "queue_inv q \<Longrightarrow> queue_inv (reset_stale agents cutoff q)"
  unfolding reset_stale_def
  by (rule queue_inv_map)
    (auto simp: same_place_def undelivered_def claim_is_stale_def split: if_splits)

lemma head_row_Some:
  assumes "head_row q agent = Some r"
  shows "r \<in> set (lq_rows q)" "q_agent_id r = agent" "undelivered r"
    "s \<in> set (lq_rows q) \<Longrightarrow> q_agent_id s = agent \<Longrightarrow> undelivered s \<Longrightarrow> q_sequence r \<le> q_sequence s"
proof -
  let ?l = "filter (\<lambda>r. q_agent_id r = agent \<and> undelivered r) (lq_rows q)"
  obtain rest where l: "sort_key q_sequence ?l = r # rest"
    using assms by (auto simp: head_row_def split: list.splits)
  have mem: "set (r # rest) = set ?l" using l by (metis set_sort)
  have "r \<in> set ?l" using mem by auto
  then show "r \<in> set (lq_rows q)" "q_agent_id r = agent" "undelivered r" by simp_all
  assume "s \<in> set (lq_rows q)" "q_agent_id s = agent" "undelivered s"
  then have "s \<in> set (r # rest)" using mem by simp
  moreover have "sorted (map q_sequence (r # rest))" using l by (metis sorted_sort_key)
  ultimately show "q_sequence r \<le> q_sequence s" by auto
qed

lemma set_claim_inv:
  assumes inv: "queue_inv q" and head: "head_row q agent = Some r"
  shows "queue_inv (set_claim (q_event_id r) worker now q)"
  unfolding set_claim_def
proof (rule queue_inv_map [OF inv])
  fix x s
  assume x: "x \<in> set (lq_rows q)" "s \<in> set (lq_rows q)" "q_agent_id s = q_agent_id x" "undelivered s"
    and "q_status (if q_event_id x = q_event_id r \<and> q_status x = QPending
         then x\<lparr>q_status := QClaimed, q_claimed_by := Some worker, q_claimed_at := Some now,
                q_attempts := q_attempts x + 1\<rparr> else x) \<noteq> QPending" "q_status x = QPending"
  then have "q_event_id x = q_event_id r" by (auto split: if_splits)
  then have "x = r" using queue_invD(4) [OF inv x(1) head_row_Some(1) [OF head]] by simp
  then show "q_sequence x \<le> q_sequence s" using head_row_Some(2,4) [OF head] x by simp
qed (auto simp: same_place_def undelivered_def split: if_splits)

lemma claim_next_inv [inv_intros]:
  "queue_inv q \<Longrightarrow> claim_next q agent worker now = Inr (ev, q') \<Longrightarrow> queue_inv q'"
  by (auto simp: claim_next_def Let_def try_bind_Inr intro: reset_stale_inv set_claim_inv
      split: if_splits option.splits)

lemma mark_delivered_inv [inv_intros]:
  "queue_inv q \<Longrightarrow> mark_delivered q event_id now = Inr q' \<Longrightarrow> queue_inv q'"
  by (auto simp: mark_delivered_def same_place_def undelivered_def claimed_event_def
      intro!: queue_inv_map split: if_splits option.splits queue_status.splits)

lemma release_inv [inv_intros]:
  "queue_inv q \<Longrightarrow> release q event_id error = Inr q' \<Longrightarrow> queue_inv q'"
  by (auto simp: release_def same_place_def undelivered_def claimed_event_def
      intro!: queue_inv_map split: if_splits)

lemma discard_inv [inv_intros]:
  "queue_inv q \<Longrightarrow> discard_unconsumed q agent = Inr q' \<Longrightarrow> queue_inv q'"
  by (auto simp: discard_unconsumed_def try_bind_Inr queue_inv_filter)

lemma set_blocked_inv [inv_intros]:
  assumes "queue_inv q" "set_blocked q agent blocked = Inr q'" shows "queue_inv q'"
proof -
  have rows: "lq_rows q' = lq_rows q"
    and st: "\<exists>t. agent_state_of q' a = Some t \<and> as_next_sequence t = as_next_sequence u"
      if "agent_state_of q a = Some u" for a u
    using assms(2) that
    by (auto simp: set_blocked_def try_bind_Inr Let_def agent_state_of_def update_conv')
  have "\<exists>s. agent_state_of q' (q_agent_id r) = Some s \<and> q_sequence r < as_next_sequence s"
    if "r \<in> set (lq_rows q)" for r
    using queue_invD(1) [OF assms(1) that] st by metis
  moreover have "lq_rows q' = lq_rows q"
    using assms(2) by (auto simp: set_blocked_def try_bind_Inr Let_def)
  ultimately show ?thesis using assms(1) unfolding queue_inv_def by simp
qed

text \<open>The next sequence of a line is beyond all its rows.\<close>

lemma queue_inv_next:
  assumes "queue_inv q" "r \<in> set (lq_rows q)" "agent_state_of q (q_agent_id r) = Some st"
  shows "q_sequence r < as_next_sequence st"
  using queue_invD(1) [OF assms(1,2)] assms(3) by auto

lemma enqueue_Inr:
  assumes "enqueue q agent payload event_id now = Inr (ev, q')"
  obtains st where
    "st = (case agent_state_of q agent of Some s \<Rightarrow> s | None \<Rightarrow> default_state)"
    "\<not> as_enqueue_blocked st"
    "list_all (\<lambda>r. q_event_id r \<noteq> event_id) (lq_rows q)"
    "ev = \<lparr>le_event_id = event_id, le_agent_id = agent, le_sequence = as_next_sequence st,
       le_payload = payload, le_attempts = 0\<rparr>"
    "lq_rows q' = lq_rows q @
       [\<lparr>q_event_id = event_id, q_agent_id = agent, q_sequence = as_next_sequence st,
         q_payload = payload, q_status = QPending, q_claimed_by = None, q_claimed_at = None,
         q_attempts = 0, q_last_error = None, q_created_at = now, q_delivered_at = None\<rparr>]"
    "lq_states q' = AList.update agent (st\<lparr>as_next_sequence := as_next_sequence st + 1\<rparr>) (lq_states q)"
  using assms
  by (auto simp: enqueue_def try_bind_Inr Let_def list_ex_iff list_all_iff split: if_splits)

lemma no_row_before_first_enqueue:
  "queue_inv q \<Longrightarrow> agent_state_of q a = None \<Longrightarrow> r \<in> set (lq_rows q) \<Longrightarrow> q_agent_id r \<noteq> a"
  using queue_invD(1) by fastforce

lemma enqueue_inv [inv_intros]:
  assumes inv: "queue_inv q" and enq: "enqueue q agent payload event_id now = Inr (ev, q')"
  shows "queue_inv q'"
  using enq
proof (cases rule: enqueue_Inr)
  case (1 st)
  have lt: "q_sequence r < as_next_sequence st" if "r \<in> set (lq_rows q)" "q_agent_id r = agent" for r
    using 1(1) queue_inv_next [OF inv that(1)] no_row_before_first_enqueue [OF inv _ that(1)] that(2)
    by (cases "agent_state_of q agent") auto
  have state: "agent_state_of q' a =
      (if a = agent then Some (st\<lparr>as_next_sequence := as_next_sequence st + 1\<rparr>) else agent_state_of q a)" for a
    using 1(6) by (simp add: agent_state_of_def update_conv')
  have d: "distinct (map q_event_id (lq_rows q))" using inv by (simp add: queue_inv_def)
  show ?thesis
    unfolding queue_inv_def
  proof (intro conjI)
    show "distinct (map q_event_id (lq_rows q'))"
      using d 1(3,5) by (auto simp: list_all_iff)
    show "\<forall>r \<in> set (lq_rows q'). \<exists>s. agent_state_of q' (q_agent_id r) = Some s
        \<and> q_sequence r < as_next_sequence s"
      using queue_invD(1) [OF inv] lt by (force simp: 1(5) state)
    show "\<forall>r \<in> set (lq_rows q'). \<forall>s \<in> set (lq_rows q'). q_agent_id r = q_agent_id s \<longrightarrow>
          (q_sequence r = q_sequence s \<longrightarrow> r = s)
          \<and> (q_status r \<noteq> QPending \<longrightarrow> undelivered s \<longrightarrow> r \<noteq> s \<longrightarrow> q_sequence r < q_sequence s)"
      using queue_invD(2,3) [OF inv] lt by (force simp: 1(5))
  qed
qed

section \<open>What operations may change\<close>

text \<open>
  Apart from the rows of new identifiers, whose sequences are at or beyond the next sequence,
  every row was there before at the same place, and a delivered row stays delivered.
\<close>

definition same_row :: "'p queue_row \<Rightarrow> 'p queue_row \<Rightarrow> bool" where
  "same_row r s \<longleftrightarrow> q_event_id s = q_event_id r \<and> q_agent_id s = q_agent_id r
     \<and> q_sequence s = q_sequence r \<and> (q_status r = QDelivered \<longrightarrow> q_status s = QDelivered)"

definition evolves :: "string set \<Rightarrow> 'p queue \<Rightarrow> 'p queue \<Rightarrow> bool" where
  "evolves ids q q' \<longleftrightarrow>
     (\<forall>s \<in> set (lq_rows q'). (\<exists>r \<in> set (lq_rows q). same_row r s)
        \<or> (q_event_id s \<in> ids \<and> (\<forall>st. agent_state_of q (q_agent_id s) = Some st \<longrightarrow>
              as_next_sequence st \<le> q_sequence s)))
     \<and> (\<forall>a st. agent_state_of q a = Some st \<longrightarrow>
          (\<exists>st'. agent_state_of q' a = Some st' \<and> as_next_sequence st \<le> as_next_sequence st'))"

lemma same_row_refl [simp]: "same_row r r"
  by (simp add: same_row_def)

lemma evolves_refl [simp]: "evolves ids q q"
  unfolding evolves_def using same_row_refl by blast

lemma evolvesD:
  assumes "evolves ids q q'"
  shows "s \<in> set (lq_rows q') \<Longrightarrow> (\<exists>r \<in> set (lq_rows q). same_row r s)
        \<or> (q_event_id s \<in> ids \<and> (\<forall>st. agent_state_of q (q_agent_id s) = Some st \<longrightarrow>
              as_next_sequence st \<le> q_sequence s))"
    and "agent_state_of q a = Some st \<Longrightarrow>
      \<exists>st'. agent_state_of q' a = Some st' \<and> as_next_sequence st \<le> as_next_sequence st'"
  using assms unfolding evolves_def by blast+

lemma same_row_trans: "same_row r t \<Longrightarrow> same_row t s \<Longrightarrow> same_row r s"
  by (auto simp: same_row_def)

lemma evolves_trans:
  assumes "evolves {} q q1" "evolves {} q1 q2" shows "evolves {} q q2"
  unfolding evolves_def
proof (intro conjI ballI allI impI)
  fix s assume "s \<in> set (lq_rows q2)"
  then obtain t where t: "t \<in> set (lq_rows q1)" "same_row t s" using evolvesD(1) [OF assms(2)] by blast
  then obtain r where "r \<in> set (lq_rows q)" "same_row r t" using evolvesD(1) [OF assms(1)] by blast
  with t show "(\<exists>r \<in> set (lq_rows q). same_row r s) \<or> (q_event_id s \<in> {} \<and>
      (\<forall>st. agent_state_of q (q_agent_id s) = Some st \<longrightarrow> as_next_sequence st \<le> q_sequence s))"
    using same_row_trans by blast
next
  fix a st assume "agent_state_of q a = Some st"
  then show "\<exists>st'. agent_state_of q2 a = Some st' \<and> as_next_sequence st \<le> as_next_sequence st'"
    using evolvesD(2) [OF assms(1)] evolvesD(2) [OF assms(2)] by (meson order_trans)
qed

lemma evolves_map:
  "(\<And>r. r \<in> set (lq_rows q) \<Longrightarrow> same_row r (f r)) \<Longrightarrow> evolves {} q (q\<lparr>lq_rows := map f (lq_rows q)\<rparr>)"
  by (force simp: evolves_def agent_state_of_def)

lemma evolves_filter: "evolves {} q (q\<lparr>lq_rows := filter P (lq_rows q)\<rparr>)"
  by (auto simp: evolves_def agent_state_of_def intro: same_row_refl)

lemma evolves_enqueue:
  assumes inv: "queue_inv q" and enq: "enqueue q agent payload event_id now = Inr (ev, q')"
  shows "evolves {event_id} q q'"
  using enq
  by (cases rule: enqueue_Inr)
    (auto simp: evolves_def agent_state_of_def update_conv' intro: same_row_refl)

lemma evolves_reset_stale: "evolves {} q (reset_stale agents cutoff q)"
  unfolding reset_stale_def
  by (rule evolves_map) (auto simp: same_row_def claim_is_stale_def)

lemma evolves_claim_next:
  "claim_next q agent worker now = Inr (ev, q') \<Longrightarrow> evolves {} q q'"
proof -
  have "evolves {} q1 (set_claim e worker now q1)" for q1 :: "'a queue" and e
    unfolding set_claim_def by (rule evolves_map) (auto simp: same_row_def)
  then show "claim_next q agent worker now = Inr (ev, q') \<Longrightarrow> evolves {} q q'"
    by (auto simp: claim_next_def Let_def try_bind_Inr
        intro: evolves_reset_stale evolves_trans [OF evolves_reset_stale]
        split: if_splits option.splits)
qed

lemma evolves_mark_delivered: "mark_delivered q event_id now = Inr q' \<Longrightarrow> evolves {} q q'"
  by (auto simp: mark_delivered_def same_row_def intro!: evolves_map
      split: if_splits option.splits queue_status.splits)

lemma evolves_release: "release q event_id error = Inr q' \<Longrightarrow> evolves {} q q'"
  by (auto simp: release_def same_row_def claimed_event_def intro!: evolves_map split: if_splits)

lemma evolves_set_blocked: "set_blocked q agent blocked = Inr q' \<Longrightarrow> evolves {} q q'"
  by (auto simp: set_blocked_def try_bind_Inr Let_def evolves_def agent_state_of_def update_conv'
      intro: same_row_refl)

lemma evolves_discard: "discard_unconsumed q agent = Inr q' \<Longrightarrow> evolves {} q q'"
  by (auto simp: discard_unconsumed_def try_bind_Inr evolves_filter)

text \<open>
  The place of an event in its line: its sequence has been given out, no other row has its
  identifier or its sequence, and every row before it is delivered.
\<close>

definition at_place :: "'p queue \<Rightarrow> 'p learning_event \<Rightarrow> bool" where
  "at_place q e \<longleftrightarrow>
     (\<exists>st. agent_state_of q (le_agent_id e) = Some st \<and> le_sequence e < as_next_sequence st)
     \<and> (\<forall>r \<in> set (lq_rows q).
          (q_event_id r = le_event_id e \<longleftrightarrow> q_agent_id r = le_agent_id e \<and> q_sequence r = le_sequence e)
          \<and> (q_agent_id r = le_agent_id e \<longrightarrow> q_sequence r < le_sequence e \<longrightarrow> q_status r = QDelivered))"

lemma at_place_evolves:
  assumes "at_place q e" "evolves ids q q'" "le_event_id e \<notin> ids"
  shows "at_place q' e"
proof -
  obtain st where st: "agent_state_of q (le_agent_id e) = Some st" "le_sequence e < as_next_sequence st"
    using assms(1) by (auto simp: at_place_def)
  have "\<exists>st'. agent_state_of q' (le_agent_id e) = Some st' \<and> le_sequence e < as_next_sequence st'"
    using evolvesD(2) [OF assms(2) st(1)] st(2) by fastforce
  moreover have "(q_event_id s = le_event_id e \<longleftrightarrow> q_agent_id s = le_agent_id e \<and> q_sequence s = le_sequence e)
      \<and> (q_agent_id s = le_agent_id e \<longrightarrow> q_sequence s < le_sequence e \<longrightarrow> q_status s = QDelivered)"
    if s: "s \<in> set (lq_rows q')" for s
  proof -
    consider r where "r \<in> set (lq_rows q)" "same_row r s"
      | "q_event_id s \<in> ids" "\<forall>st. agent_state_of q (q_agent_id s) = Some st \<longrightarrow> as_next_sequence st \<le> q_sequence s"
      using evolvesD(1) [OF assms(2) s] by blast
    then show ?thesis
    proof cases
      case (1 r)
      then show ?thesis using assms(1) by (auto simp: at_place_def same_row_def)
    next
      case 2
      then show ?thesis using assms(3) st by force
    qed
  qed
  ultimately show ?thesis by (auto simp: at_place_def)
qed

lemma claim_next_Some:
  assumes inv: "queue_inv q" and claim: "claim_next q agent worker now = Inr (Some ev, q')"
  shows "\<exists>r \<in> set (lq_rows q'). q_event_id r = le_event_id ev \<and> q_agent_id r = le_agent_id ev
      \<and> q_sequence r = le_sequence ev \<and> q_status r = QClaimed"
    and "at_place q' ev" and "le_agent_id ev = agent" and "\<not> is_blocked q agent"
proof -
  let ?q1 = "reset_stale (\<lambda>a. a = agent) (stale_cutoff now) q"
  obtain r where head: "head_row ?q1 agent = Some r" and pend: "q_status r = QPending"
    and ev: "le_event_id ev = q_event_id r" "le_agent_id ev = agent" "le_sequence ev = q_sequence r"
    and q': "q' = set_claim (q_event_id r) worker now ?q1" and nb: "\<not> is_blocked q agent"
    using claim by (auto simp: claim_next_def Let_def try_bind_Inr is_blocked_def
        split: if_splits option.splits)
  have inv1: "queue_inv ?q1" by (rule reset_stale_inv [OF inv])
  note r = head_row_Some [OF head]
  show "le_agent_id ev = agent" "\<not> is_blocked q agent" by fact+
  let ?r = "r\<lparr>q_status := QClaimed, q_claimed_by := Some worker, q_claimed_at := Some now,
                q_attempts := q_attempts r + 1\<rparr>"
  have "?r \<in> set (lq_rows q')"
    unfolding q' set_claim_def using r(1) pend by (auto simp: image_iff intro!: bexI [of _ r])
  then show "\<exists>r \<in> set (lq_rows q'). q_event_id r = le_event_id ev \<and> q_agent_id r = le_agent_id ev
      \<and> q_sequence r = le_sequence ev \<and> q_status r = QClaimed"
    by (rule bexI [rotated]) (simp add: ev r(2))
  have "q_status s = QDelivered"
    if "s \<in> set (lq_rows ?q1)" "q_agent_id s = agent" "q_sequence s < q_sequence r" for s
    using r(4) [OF that(1,2)] that(3) by (cases "q_status s") (auto simp: undelivered_def)
  moreover have "q_event_id s = q_event_id r \<longleftrightarrow> q_agent_id s = agent \<and> q_sequence s = q_sequence r"
    if "s \<in> set (lq_rows ?q1)" for s
    using queue_invD(2,4) [OF inv1 that r(1)] r(2) by metis
  ultimately have "at_place ?q1 ev"
    using queue_invD(1) [OF inv1 r(1)] r(2) by (simp add: at_place_def ev)
  then show "at_place q' ev"
    by (rule at_place_evolves [where ids = "{}"])
      (auto simp: q' set_claim_def same_row_def intro: evolves_map)
qed

section \<open>What operations leave alone\<close>

text \<open>Nothing is delivered that was not, and every identifier stays in the table.\<close>

definition keeps_rows :: "'p queue \<Rightarrow> 'p queue \<Rightarrow> bool" where
  "keeps_rows q q' \<longleftrightarrow>
     (\<forall>s \<in> set (lq_rows q'). q_status s = QDelivered \<longrightarrow>
        (\<exists>r \<in> set (lq_rows q). q_status r = QDelivered \<and> q_event_id r = q_event_id s))
     \<and> q_event_id ` set (lq_rows q) \<subseteq> q_event_id ` set (lq_rows q')"

definition keeps_gates :: "'p queue \<Rightarrow> 'p queue \<Rightarrow> bool" where
  "keeps_gates q q' \<longleftrightarrow> is_blocked q' = is_blocked q"

lemma keeps_rows_refl [simp]: "keeps_rows q q"
  by (auto simp: keeps_rows_def)

lemma keeps_rowsD:
  assumes "keeps_rows q q'"
  shows "s \<in> set (lq_rows q') \<Longrightarrow> q_status s = QDelivered \<Longrightarrow>
      \<exists>r \<in> set (lq_rows q). q_status r = QDelivered \<and> q_event_id r = q_event_id s"
    and "q_event_id ` set (lq_rows q) \<subseteq> q_event_id ` set (lq_rows q')"
  using assms unfolding keeps_rows_def by blast+

lemma keeps_rows_trans:
  assumes "keeps_rows q q1" "keeps_rows q1 q2" shows "keeps_rows q q2"
  unfolding keeps_rows_def
proof (intro conjI ballI impI)
  fix s assume "s \<in> set (lq_rows q2)" "q_status s = QDelivered"
  then obtain t where "t \<in> set (lq_rows q1)" "q_status t = QDelivered" "q_event_id t = q_event_id s"
    using keeps_rowsD(1) [OF assms(2)] by blast
  then show "\<exists>r \<in> set (lq_rows q). q_status r = QDelivered \<and> q_event_id r = q_event_id s"
    using keeps_rowsD(1) [OF assms(1)] by metis
qed (use keeps_rowsD(2) [OF assms(1)] keeps_rowsD(2) [OF assms(2)] in blast)

lemma event_ids_map: "(\<And>r. q_event_id (f r) = q_event_id r) \<Longrightarrow> q_event_id ` set (map f rs) = q_event_id ` set rs"
  by (simp add: image_image)

lemma keeps_rows_map:
  assumes "\<And>r. q_event_id (f r) = q_event_id r" "\<And>r. q_status (f r) = QDelivered \<Longrightarrow> q_status r = QDelivered"
  shows "keeps_rows q (q\<lparr>lq_rows := map f (lq_rows q)\<rparr>)"
  unfolding keeps_rows_def
proof (intro conjI ballI impI)
  fix s assume "s \<in> set (lq_rows (q\<lparr>lq_rows := map f (lq_rows q)\<rparr>))" "q_status s = QDelivered"
  then obtain r where "r \<in> set (lq_rows q)" "s = f r" "q_status (f r) = QDelivered" by auto
  then show "\<exists>r \<in> set (lq_rows q). q_status r = QDelivered \<and> q_event_id r = q_event_id s"
    using assms by metis
qed (simp add: assms image_image)

lemma keeps_gates_states: "lq_states q' = lq_states q \<Longrightarrow> keeps_gates q q'"
  by (auto simp: keeps_gates_def is_blocked_def agent_state_of_def)

lemma keeps_enqueue:
  assumes "enqueue q a p i now = Inr (ev, q')" shows "keeps_rows q q'" "keeps_gates q q'"
proof -
  show "keeps_rows q q'" using assms by (cases rule: enqueue_Inr) (auto simp: keeps_rows_def)
  show "keeps_gates q q'"
    using assms
    by (cases rule: enqueue_Inr)
      (auto simp: keeps_gates_def is_blocked_def agent_state_of_def update_conv' default_state_def
        fun_eq_iff split: option.splits)
qed

lemma keeps_reset_stale: "keeps_rows q (reset_stale agents cutoff q)" "keeps_gates q (reset_stale agents cutoff q)"
proof -
  show "keeps_rows q (reset_stale agents cutoff q)"
    unfolding reset_stale_def by (rule keeps_rows_map) (auto split: if_splits)
qed (simp add: reset_stale_def keeps_gates_states)

lemma keeps_claim_next:
  assumes "claim_next q a worker now = Inr (ev, q')" shows "keeps_rows q q'" "keeps_gates q q'"
proof -
  have "keeps_rows q1 (set_claim e worker now q1)" for q1 :: "'a queue" and e
    unfolding set_claim_def by (rule keeps_rows_map) (auto split: if_splits)
  then show "keeps_rows q q'"
    using assms
    by (auto simp: claim_next_def Let_def try_bind_Inr
        intro: keeps_reset_stale keeps_rows_trans [OF keeps_reset_stale(1)]
        split: if_splits option.splits)
  show "keeps_gates q q'"
    using assms
    by (auto simp: claim_next_def Let_def try_bind_Inr set_claim_def reset_stale_def
        intro!: keeps_gates_states split: if_splits option.splits)
qed

lemma keeps_release:
  assumes "release q i message = Inr q'" shows "keeps_rows q q'" "keeps_gates q q'"
proof -
  show "keeps_rows q q'"
    using assms by (auto simp: release_def intro!: keeps_rows_map split: if_splits)
  show "keeps_gates q q'"
    using assms by (auto simp: release_def intro!: keeps_gates_states split: if_splits)
qed

lemma mark_delivered_keeps:
  assumes "mark_delivered q i now = Inr q'"
  shows "keeps_gates q q'" "q_event_id ` set (lq_rows q) \<subseteq> q_event_id ` set (lq_rows q')"
    "s \<in> set (lq_rows q') \<Longrightarrow> q_status s = QDelivered \<Longrightarrow>
      q_event_id s = i \<or> (\<exists>r \<in> set (lq_rows q). q_status r = QDelivered \<and> q_event_id r = q_event_id s)"
proof -
  have "lq_states q' = lq_states q"
    using assms by (auto simp: mark_delivered_def split: if_splits option.splits queue_status.splits)
  then show "keeps_gates q q'" by (rule keeps_gates_states)
  show "q_event_id ` set (lq_rows q) \<subseteq> q_event_id ` set (lq_rows q')"
  proof (cases "list_ex (claimed_event i) (lq_rows q)")
    case True
    let ?f = "\<lambda>r. if claimed_event i r then r\<lparr>q_status := QDelivered, q_delivered_at := Some now,
      q_claimed_by := None, q_claimed_at := None\<rparr> else r"
    have "lq_rows q' = map ?f (lq_rows q)" using True assms by (auto simp: mark_delivered_def)
    moreover have "q_event_id ` set (map ?f (lq_rows q)) = q_event_id ` set (lq_rows q)"
      by (rule event_ids_map) simp
    ultimately show ?thesis by (metis order_refl)
  next
    case False
    then show ?thesis
      using assms by (auto simp: mark_delivered_def split: option.splits queue_status.splits)
  qed
  show "q_event_id s = i \<or> (\<exists>r \<in> set (lq_rows q). q_status r = QDelivered \<and> q_event_id r = q_event_id s)"
    if "s \<in> set (lq_rows q')" "q_status s = QDelivered"
    using assms that
    by (auto simp: mark_delivered_def claimed_event_def split: if_splits option.splits queue_status.splits)
qed

lemma set_blocked_keeps:
  assumes "set_blocked q a blocked = Inr q'"
  shows "lq_rows q' = lq_rows q" "is_blocked q' = (is_blocked q)(a := blocked)"
  using assms
  by (auto simp: set_blocked_def try_bind_Inr Let_def is_blocked_def agent_state_of_def update_conv' fun_eq_iff)

lemma discard_keeps:
  assumes "discard_unconsumed q a = Inr q'"
  shows "keeps_gates q q'" "set (lq_rows q') \<subseteq> set (lq_rows q)"
    "r \<in> set (lq_rows q) \<Longrightarrow> q_agent_id r \<noteq> a \<Longrightarrow> r \<in> set (lq_rows q')"
proof -
  have q': "lq_states q' = lq_states q"
    "lq_rows q' = filter (\<lambda>r. \<not> (q_agent_id r = a \<and> undelivered r)) (lq_rows q)"
    using assms by (auto simp: discard_unconsumed_def try_bind_Inr)
  show "keeps_gates q q'" by (rule keeps_gates_states) fact
  show "set (lq_rows q') \<subseteq> set (lq_rows q)"
    "r \<in> set (lq_rows q) \<Longrightarrow> q_agent_id r \<noteq> a \<Longrightarrow> r \<in> set (lq_rows q')"
    by (auto simp: q')
qed

end
