(* ===== verification/Knowledge.thy ===== *)
theory Knowledge
  imports Base
begin

text \<open>
  What a learning event does to the knowledge bundle of an agent: \<open>agents/okf.rs\<close> (the concept
  documents and their paths), the planning half of \<open>agents/learning_queue.rs\<close>, the budget of
  \<open>harness/native/memory.rs\<close>, and \<open>apply_learning_event_fenced\<close> of \<open>agents/knowledge.rs\<close>.

  A document is stored as the concept it prints, its body without the newlines around it, which
  the printer trims; the YAML codec is not modelled. The generated \<open>index.md\<close> and \<open>log.md\<close>
  are no concepts and are left out. The staged directory swap of the bundle is one step. The
  clock and the fresh identifier of a new memory are arguments.
\<close>

section \<open>Concepts and paths\<close>

datatype knowledge_scope = Global | User | Project string

datatype ext_value = ENumber nat | EString string | ESequence "string list" | EOther string

record concept =
  k_id :: string
  k_relative_path :: string
  k_concept_type :: string
  k_title :: string
  k_description :: string
  k_timestamp :: int
  k_body :: string
  k_scope :: "knowledge_scope option"
  k_agent_id :: "string option"
  k_event_id :: "string option"
  k_tags :: "string list"
  k_extensions :: "(string \<times> ext_value) list"

datatype knowledge_error =
    BadComponent
  | BadPath
  | ReservedName
  | MissingProject
  | EmptyText
  | OverBudget
  | EmptyMatcher
  | NoMatch
  | ManyMatches nat
  | BlankSkillId
  | MissingSnapshot
  | BlankTitle
  | BlankDescription
  | BlankEventId
  | ForeignEvent

definition RESERVED_FILE_NAMES :: "string list" where
  "RESERVED_FILE_NAMES = [''index.md'', ''log.md'']"

definition validate_path_component :: "string \<Rightarrow> knowledge_error + unit" where
  "validate_path_component value =
     (if value = [] \<or> length value > 128 then Inl BadComponent
      else if value = ''.'' \<or> value = ''..'' then Inl BadComponent
      else if \<not> list_all (\<lambda>c. is_ascii_alphanumeric c \<or> List.member ''._-'' c) value then Inl BadComponent
      else Inr ())"

definition FIXED_CONCEPT_DIRECTORIES :: "string list" where
  "FIXED_CONCEPT_DIRECTORIES =
     [''memory/global'', ''memory/user'', ''learning/skills'', ''learning/reviews'',
      ''learning/journey'', ''curator'', ''curator/history'']"

definition validate_concept_directory :: "string \<Rightarrow> knowledge_error + unit" where
  "validate_concept_directory directory =
     (if List.member FIXED_CONCEPT_DIRECTORIES directory then Inr ()
      else (case strip_prefix directory ''memory/projects/'' of
              Some project_id \<Rightarrow> validate_path_component project_id
            | None \<Rightarrow> Inl BadPath))"

definition rsplit_once :: "char \<Rightarrow> string \<Rightarrow> (string \<times> string) option" where
  "rsplit_once d s = (case split_once d (rev s) of None \<Rightarrow> None | Some (b, a) \<Rightarrow> Some (rev a, rev b))"

definition validate_concept_relative_path :: "string \<Rightarrow> knowledge_error + unit" where
  "validate_concept_relative_path p =
     (if List.member p (CHR 0x5C) then Inl BadPath
      else (case rsplit_once CHR ''/'' p of
              None \<Rightarrow> Inl BadPath
            | Some (directory, file_name) \<Rightarrow>
                try_bind (validate_concept_directory directory) (\<lambda>_.
                try_bind (validate_path_component file_name) (\<lambda>_.
                  case strip_suffix file_name ''.md'' of
                    None \<Rightarrow> Inl BadPath
                  | Some stem \<Rightarrow>
                      if stem = [] then Inl BadPath
                      else if List.member RESERVED_FILE_NAMES file_name then Inl ReservedName
                      else Inr ()))))"

text \<open>\<open>ConceptArea::directory\<close> of a memory area.\<close>

definition memory_directory :: "knowledge_scope \<Rightarrow> knowledge_error + string" where
  "memory_directory scp =
     (case scp of
        Global \<Rightarrow> Inr ''memory/global''
      | User \<Rightarrow> Inr ''memory/user''
      | Project project_id \<Rightarrow>
          try_bind (validate_path_component project_id) (\<lambda>_. Inr (''memory/projects/'' @ project_id)))"

section \<open>Planning\<close>

datatype memory_scope = MGlobal | MUser | MProject

datatype memory_operation =
    Add memory_scope string
  | Replace memory_scope string string
  | Remove memory_scope string

datatype event_payload =
    Memory memory_operation "string option"
  | SkillUsage string bool
  | Review string string string "string list"
  | Journey string string string
  | CuratorState string string string
  | Rollback string "string list"

record event_writes =
  lw_writes :: "(string \<times> concept) list"
  lw_removes :: "string list"

definition BUDGET :: nat where
  "BUDGET = 6000"

definition joined_chars :: "string list \<Rightarrow> nat" where
  "joined_chars entries =
     sum_list (map (\<lambda>e. length (chars e)) entries) + 3 * (length entries - 1)"

definition validate_budget :: "string list \<Rightarrow> knowledge_error + unit" where
  "validate_budget entries = (if joined_chars entries > BUDGET then Inl OverBudget else Inr ())"

definition truncate_title :: "string \<Rightarrow> nat \<Rightarrow> string" where
  "truncate_title value limit = concat (take limit (chars value))"

definition first_sentence :: "string \<Rightarrow> string" where
  "first_sentence text =
     trim (case find (\<lambda>l. trim l \<noteq> []) (str_lines text) of Some l \<Rightarrow> l | None \<Rightarrow> text)"

definition is_newline :: "char \<Rightarrow> bool" where
  "is_newline c \<longleftrightarrow> c = CHR 0x0A \<or> c = CHR 0x0D"

definition trim_newlines :: "string \<Rightarrow> string" where
  "trim_newlines s = rev (dropWhile is_newline (rev (dropWhile is_newline s)))"

definition file_name_of :: "string \<Rightarrow> string" where
  "file_name_of p = (case rsplit_once CHR ''/'' p of Some (_, n) \<Rightarrow> n | None \<Rightarrow> p)"

definition concept_id_of :: "string \<Rightarrow> string" where
  "concept_id_of p =
     (case strip_suffix (file_name_of p) ''.md'' of Some i \<Rightarrow> i | None \<Rightarrow> file_name_of p)"

definition render_event_concept ::
    "int \<Rightarrow> string \<Rightarrow> string \<Rightarrow> string \<Rightarrow> string \<Rightarrow> string \<Rightarrow> string \<Rightarrow> string \<Rightarrow> knowledge_scope option
     \<Rightarrow> string list \<Rightarrow> (string \<times> ext_value) list \<Rightarrow> knowledge_error + (string \<times> concept)" where
  "render_event_concept now agent_id event_id relative_path concept_type title description body scp tags exts =
     (if trim title = [] then Inl BlankTitle
      else if trim description = [] then Inl BlankDescription
      else Inr (relative_path,
        \<lparr>k_id = concept_id_of relative_path, k_relative_path = relative_path,
         k_concept_type = concept_type, k_title = title, k_description = description,
         k_timestamp = now, k_body = trim_newlines body, k_scope = scp,
         k_agent_id = Some agent_id, k_event_id = Some event_id, k_tags = tags,
         k_extensions = exts\<rparr>))"

definition find_unique_memory :: "concept list \<Rightarrow> string \<Rightarrow> knowledge_error + concept" where
  "find_unique_memory concepts matcher =
     (if trim matcher = [] then Inl EmptyMatcher
      else (case filter (\<lambda>c. contains (k_body c) matcher) concepts of
              [one] \<Rightarrow> Inr one
            | [] \<Rightarrow> Inl NoMatch
            | many \<Rightarrow> Inl (ManyMatches (length many))))"

definition extension_u64 :: "concept \<Rightarrow> string \<Rightarrow> nat" where
  "extension_u64 c key =
     (case map_of (k_extensions c) key of Some (ENumber n) \<Rightarrow> n | _ \<Rightarrow> 0)"

definition skill_byte :: "char \<Rightarrow> bool" where
  "skill_byte c \<longleftrightarrow> is_ascii_alphanumeric c \<or> List.member ''._-'' c"

definition skill_char :: "string \<Rightarrow> char" where
  "skill_char ch =
     (case ch of
        [c] \<Rightarrow> if skill_byte c then to_ascii_lower c else CHR ''-''
      | _ \<Rightarrow> CHR ''-'')"

definition stable_skill_id :: "string \<Rightarrow> knowledge_error + string" where
  "stable_skill_id skill_id =
     (let trimmed = trim skill_id
      in if trimmed = [] then Inl BlankSkillId
         else
           (let stable = map skill_char (take 100 (chars trimmed));
                stable = (if List.member RESERVED_FILE_NAMES (stable @ ''.md'') \<or> stable = ''.'' \<or> stable = ''..''
                          then ''skill-'' @ stable else stable)
            in try_bind (validate_path_component stable) (\<lambda>_. Inr stable)))"

definition scope_of :: "memory_operation \<Rightarrow> memory_scope" where
  "scope_of oper = (case oper of Add s _ \<Rightarrow> s | Replace s _ _ \<Rightarrow> s | Remove s _ \<Rightarrow> s)"

definition in_directory :: "string \<Rightarrow> concept list \<Rightarrow> concept list" where
  "in_directory directory valid =
     sort_key (\<lambda>c. (k_timestamp c, k_id c))
       (filter (\<lambda>c. starts_with (k_relative_path c) (directory @ ''/'')) valid)"

definition write_memory ::
    "int \<Rightarrow> string \<Rightarrow> string \<Rightarrow> string \<Rightarrow> string \<Rightarrow> knowledge_scope \<Rightarrow> knowledge_error + event_writes" where
  "write_memory now agent_id event_id relative_path text scp =
     (let sentence = first_sentence text
      in try_bind (render_event_concept now agent_id event_id relative_path ''Memory''
                     (truncate_title sentence 80) (truncate_title sentence 160) text (Some scp) [] [])
           (\<lambda>w. Inr \<lparr>lw_writes = [w], lw_removes = []\<rparr>))"

definition event_scope :: "memory_operation \<Rightarrow> string option \<Rightarrow> knowledge_error + knowledge_scope" where
  "event_scope oper project_id =
     (case scope_of oper of
        MGlobal \<Rightarrow> Inr Global
      | MUser \<Rightarrow> Inr User
      | MProject \<Rightarrow> (case project_id of Some p \<Rightarrow> Inr (Project p) | None \<Rightarrow> Inl MissingProject))"

definition memory_path :: "string \<Rightarrow> string \<Rightarrow> string" where
  "memory_path directory new_id = directory @ ''/'' @ new_id @ ''.md''"

definition plan_memory ::
    "int \<Rightarrow> string \<Rightarrow> string \<Rightarrow> string \<Rightarrow> memory_operation \<Rightarrow> string option \<Rightarrow> concept list
     \<Rightarrow> knowledge_error + event_writes" where
  "plan_memory now new_id agent_id event_id oper project_id valid =
     try_bind (event_scope oper project_id) (\<lambda>scp.
     try_bind (memory_directory scp) (\<lambda>directory.
       (let existing = in_directory directory valid
        in case oper of
             Add _ text \<Rightarrow>
               (let text = trim text
                in if text = [] then Inl EmptyText
                   else try_bind (validate_budget (map k_body existing @ [text])) (\<lambda>_.
                          write_memory now agent_id event_id (memory_path directory new_id) text scp))
           | Replace _ matcher text \<Rightarrow>
               (let text = trim text
                in if text = [] then Inl EmptyText
                   else try_bind (find_unique_memory existing matcher) (\<lambda>target.
                        try_bind (validate_budget (map (\<lambda>c.
                            if k_relative_path c = k_relative_path target then text else k_body c) existing)) (\<lambda>_.
                          write_memory now agent_id event_id (k_relative_path target) text scp)))
           | Remove _ matcher \<Rightarrow>
               try_bind (find_unique_memory existing matcher) (\<lambda>target.
                 Inr \<lparr>lw_writes = [], lw_removes = [k_relative_path target]\<rparr>))))"

definition plan_skill_usage ::
    "int \<Rightarrow> string \<Rightarrow> string \<Rightarrow> string \<Rightarrow> bool \<Rightarrow> concept list \<Rightarrow> knowledge_error + event_writes" where
  "plan_skill_usage now agent_id event_id skill_id succeeded valid =
     try_bind (stable_skill_id skill_id) (\<lambda>stable.
       (let relative_path = ''learning/skills/'' @ stable @ ''.md'';
            existing = find (\<lambda>c. k_relative_path c = relative_path) valid;
            old = (\<lambda>key. case existing of Some c \<Rightarrow> extension_u64 c key | None \<Rightarrow> 0);
            uses = add_u64 (old ''uses'') 1;
            successes = add_u64 (old ''successes'') (if succeeded then 1 else 0);
            title = truncate_title (''Skill usage: '' @ skill_id) 80
        in try_bind (render_event_concept now agent_id event_id relative_path ''Skill'' title
                       (truncate_title (''Usage counters for skill `'' @ skill_id @ ''`.'') 160)
                       ''Usage counters for this skill are tracked in frontmatter.'' None []
                       [(''skill_id'', EString skill_id), (''uses'', ENumber uses),
                        (''successes'', ENumber successes)])
             (\<lambda>w. Inr \<lparr>lw_writes = [w], lw_removes = []\<rparr>)))"

definition rollback_body :: "string \<Rightarrow> string list \<Rightarrow> string" where
  "rollback_body snapshot_id restored =
     ''Rolled curator state back to snapshot `'' @ snapshot_id @ ''` ('' @ show_nat (length restored)
     @ '' concept(s) restored).''"

definition history_path :: "string \<Rightarrow> string" where
  "history_path name = ''curator/history/'' @ name @ ''.md''"

definition plan_rollback ::
    "int \<Rightarrow> string \<Rightarrow> string \<Rightarrow> string \<Rightarrow> string list \<Rightarrow> concept list \<Rightarrow> knowledge_error + event_writes" where
  "plan_rollback now agent_id event_id snapshot_id restored valid =
     try_bind (validate_path_component snapshot_id) (\<lambda>_.
       (case find (\<lambda>c. k_relative_path c = history_path snapshot_id) valid of
          None \<Rightarrow> Inl MissingSnapshot
        | Some snapshot \<Rightarrow>
            (let body = rollback_body snapshot_id restored
             in try_bind (render_event_concept now agent_id event_id ''curator/state.md'' ''CuratorState''
                            (k_title snapshot) (k_description snapshot) (k_body snapshot) None [] []) (\<lambda>state.
                try_bind (render_event_concept now agent_id event_id
                            (history_path event_id) ''CuratorHistory''
                            (truncate_title (''Rollback to '' @ snapshot_id) 80)
                            (truncate_title body 160) body None []
                            [(''snapshot_id'', EString snapshot_id),
                             (''restored_concept_ids'', ESequence restored)]) (\<lambda>entry.
                  Inr \<lparr>lw_writes = [state, entry], lw_removes = []\<rparr>)))))"

definition single_write :: "knowledge_error + (string \<times> concept) \<Rightarrow> knowledge_error + event_writes" where
  "single_write r = try_bind r (\<lambda>w. Inr \<lparr>lw_writes = [w], lw_removes = []\<rparr>)"

definition plan_learning_writes ::
    "int \<Rightarrow> string \<Rightarrow> string \<Rightarrow> string \<Rightarrow> event_payload \<Rightarrow> concept list \<Rightarrow> knowledge_error + event_writes" where
  "plan_learning_writes now new_id agent_id event_id payload valid =
     (case payload of
        Memory oper project_id \<Rightarrow> plan_memory now new_id agent_id event_id oper project_id valid
      | SkillUsage skill_id succeeded \<Rightarrow> plan_skill_usage now agent_id event_id skill_id succeeded valid
      | Review title description body tags \<Rightarrow>
          single_write (render_event_concept now agent_id event_id
            (''learning/reviews/'' @ event_id @ ''.md'') ''Review'' title description body None tags [])
      | Journey title description body \<Rightarrow>
          single_write (render_event_concept now agent_id event_id
            (''learning/journey/'' @ event_id @ ''.md'') ''Journey'' title description body None [] [])
      | CuratorState title description body \<Rightarrow>
          single_write (render_event_concept now agent_id event_id ''curator/state.md'' ''CuratorState''
            title description body None [] [])
      | Rollback snapshot_id restored \<Rightarrow> plan_rollback now agent_id event_id snapshot_id restored valid)"

section \<open>Applying\<close>

record completion =
  lc_event_id :: string
  lc_writes :: "(string \<times> concept) list"
  lc_removes :: "string list"

record knowledge_bundle =
  kb_files :: "(string \<times> concept) list"
  kb_completions :: "(string \<times> completion) list"

definition scan_bundle :: "knowledge_bundle \<Rightarrow> concept list" where
  "scan_bundle b = map snd (sort_key fst (kb_files b))"

fun validate_writes :: "string \<Rightarrow> (string \<times> concept) list \<Rightarrow> knowledge_error + unit" where
  "validate_writes event_id [] = Inr ()"
| "validate_writes event_id ((p, c) # ws) =
     try_bind (validate_concept_relative_path p) (\<lambda>_.
       if k_event_id c \<noteq> Some event_id then Inl ForeignEvent else validate_writes event_id ws)"

fun validate_removes :: "string list \<Rightarrow> knowledge_error + unit" where
  "validate_removes [] = Inr ()"
| "validate_removes (p # ps) =
     try_bind (validate_concept_relative_path p) (\<lambda>_. validate_removes ps)"

definition validate_learning_writes ::
    "string \<Rightarrow> (string \<times> concept) list \<Rightarrow> string list \<Rightarrow> knowledge_error + unit" where
  "validate_learning_writes event_id writes removes =
     try_bind (validate_writes event_id writes) (\<lambda>_. validate_removes removes)"

definition completion_matches :: "knowledge_bundle \<Rightarrow> completion \<Rightarrow> bool" where
  "completion_matches b c \<longleftrightarrow>
     list_all (\<lambda>(p, expected).
        case map_of (kb_files b) p of
          None \<Rightarrow> False
        | Some raw \<Rightarrow> raw = expected \<and> k_event_id raw = Some (lc_event_id c)) (lc_writes c)
     \<and> list_all (\<lambda>p. map_of (kb_files b) p = None) (lc_removes c)"

definition write_files :: "(string \<times> concept) list \<Rightarrow> (string \<times> concept) list \<Rightarrow> (string \<times> concept) list" where
  "write_files writes files = foldl (\<lambda>fs (p, c). AList.update p c fs) files writes"

definition remove_files :: "string list \<Rightarrow> (string \<times> concept) list \<Rightarrow> (string \<times> concept) list" where
  "remove_files removes files = foldl (\<lambda>fs p. AList.delete p fs) files removes"

definition completion_of ::
    "knowledge_bundle \<Rightarrow> string \<Rightarrow> (concept list \<Rightarrow> knowledge_error + event_writes) \<Rightarrow> knowledge_error + completion" where
  "completion_of b event_id plan =
     (case map_of (kb_completions b) event_id of
        Some c \<Rightarrow> Inr c
      | None \<Rightarrow>
          try_bind (plan (scan_bundle b)) (\<lambda>w.
          try_bind (validate_learning_writes event_id (lw_writes w) (lw_removes w)) (\<lambda>_.
            Inr \<lparr>lc_event_id = event_id, lc_writes = lw_writes w, lc_removes = sort (lw_removes w)\<rparr>)))"

definition apply_learning_event_fenced ::
    "knowledge_bundle \<Rightarrow> string \<Rightarrow> (concept list \<Rightarrow> knowledge_error + event_writes)
     \<Rightarrow> knowledge_error + (bool \<times> knowledge_bundle)" where
  "apply_learning_event_fenced b event_id plan =
     (if trim event_id = [] then Inl BlankEventId
      else
        try_bind (completion_of b event_id plan) (\<lambda>c.
        if lc_event_id c \<noteq> event_id then Inl ForeignEvent
        else
          try_bind (validate_learning_writes event_id (lc_writes c) (lc_removes c)) (\<lambda>_.
          if completion_matches b c then Inr (False, b)
          else Inr (True,
            \<lparr>kb_files = remove_files (lc_removes c) (write_files (lc_writes c) (kb_files b)),
             kb_completions = AList.update event_id c (kb_completions b)\<rparr>))))"

section \<open>The bundle\<close>

lemma validate_writes_Inr:
  "validate_writes e ws = Inr () \<longleftrightarrow>
     (\<forall>(p, c) \<in> set ws. validate_concept_relative_path p = Inr () \<and> k_event_id c = Some e)"
  by (induction e ws rule: validate_writes.induct) (auto simp: try_bind_Inr)

lemma validate_removes_Inr:
  "validate_removes ps = Inr () \<longleftrightarrow> (\<forall>p \<in> set ps. validate_concept_relative_path p = Inr ())"
  by (induction ps rule: validate_removes.induct) (auto simp: try_bind_Inr)

lemma map_of_write_files: "map_of (write_files ws fs) = map_of fs ++ map_of (rev ws)"
  by (induction ws arbitrary: fs) (auto simp: write_files_def update_conv' split: prod.splits)

lemma map_of_remove_files: "map_of (remove_files ps fs) p = (if p \<in> set ps then None else map_of fs p)"
  by (induction ps arbitrary: fs) (auto simp: remove_files_def delete_conv')

lemma distinct_write_files: "distinct (map fst fs) \<Longrightarrow> distinct (map fst (write_files ws fs))"
  by (induction ws arbitrary: fs) (auto simp: write_files_def distinct_update split: prod.splits)

lemma distinct_remove_files: "distinct (map fst fs) \<Longrightarrow> distinct (map fst (remove_files ps fs))"
  by (induction ps arbitrary: fs) (auto simp: remove_files_def distinct_delete)

text \<open>What the writes of one event look like.\<close>

definition writes_wf :: "(string \<times> concept) list \<Rightarrow> string list \<Rightarrow> bool" where
  "writes_wf writes removes \<longleftrightarrow>
     (\<forall>(p, c) \<in> set writes. k_relative_path c = p) \<and> distinct (map fst writes)
     \<and> set removes \<inter> fst ` set writes = {}"

lemma writes_wfD:
  assumes "writes_wf writes removes" "(p, c) \<in> set writes"
  shows "k_relative_path c = p" "p \<notin> set removes"
proof -
  show "k_relative_path c = p" using assms by (auto simp: writes_wf_def)
  have "p \<in> fst ` set writes" using assms(2) by (metis fst_conv imageI)
  then show "p \<notin> set removes" using assms(1) by (auto simp: writes_wf_def)
qed

lemma writes_wf_sort [simp]: "writes_wf ws (sort ps) = writes_wf ws ps"
  by (simp add: writes_wf_def)

lemma render_event_concept_Inr:
  assumes "render_event_concept now agent_id event_id p ty title description body scp tags exts = Inr w"
  shows "fst w = p" "k_relative_path (snd w) = p" "k_event_id (snd w) = Some event_id"
    "k_body (snd w) = trim_newlines body"
  using assms by (auto simp: render_event_concept_def split: if_splits)

lemma writes_wf_single: "k_relative_path c = p \<Longrightarrow> writes_wf [(p, c)] []"
  by (simp add: writes_wf_def)

lemma write_memory_Inr:
  assumes "write_memory now agent_id event_id p text scp = Inr w"
  obtains c where "w = \<lparr>lw_writes = [(p, c)], lw_removes = []\<rparr>" "k_relative_path c = p"
    "k_body c = trim_newlines text"
  using assms render_event_concept_Inr
  by (fastforce simp: write_memory_def Let_def try_bind_Inr)

lemma single_write_Inr:
  "single_write r = Inr w \<longleftrightarrow> (\<exists>x. r = Inr x \<and> w = \<lparr>lw_writes = [x], lw_removes = []\<rparr>)"
  by (auto simp: single_write_def try_bind_Inr)

lemma writes_wf_render:
  "render_event_concept now agent_id event_id p ty title description body scp tags exts = Inr x \<Longrightarrow>
    writes_wf [x] []"
  using render_event_concept_Inr by (cases x) (fastforce intro: writes_wf_single)

lemma plan_memory_wf:
  "plan_memory now new_id agent_id event_id oper project_id valid = Inr w \<Longrightarrow> writes_wf (lw_writes w) (lw_removes w)"
  by (cases oper)
    (auto simp: plan_memory_def Let_def try_bind_Inr writes_wf_single writes_wf_def
      elim!: write_memory_Inr split: if_splits)

lemma plan_rollback_wf:
  assumes "plan_rollback now agent_id event_id snapshot_id restored valid = Inr w"
  shows "writes_wf (lw_writes w) (lw_removes w)"
proof -
  obtain snapshot where snapshot: "find (\<lambda>c. k_relative_path c = history_path snapshot_id) valid = Some snapshot"
    using assms by (auto simp: plan_rollback_def try_bind_Inr split: option.splits)
  then obtain x y where x: "render_event_concept now agent_id event_id ''curator/state.md'' ''CuratorState''
          (k_title snapshot) (k_description snapshot) (k_body snapshot) None [] [] = Inr x"
    and y: "render_event_concept now agent_id event_id (history_path event_id) ''CuratorHistory''
          (truncate_title (''Rollback to '' @ snapshot_id) 80)
          (truncate_title (rollback_body snapshot_id restored) 160) (rollback_body snapshot_id restored) None []
          [(''snapshot_id'', EString snapshot_id), (''restored_concept_ids'', ESequence restored)] = Inr y"
    and w: "w = \<lparr>lw_writes = [x, y], lw_removes = []\<rparr>"
    using assms
    by (simp add: plan_rollback_def Let_def try_bind_Inr del: split_paired_Ex) blast
  show ?thesis
    unfolding w using render_event_concept_Inr(1,2) [OF x] render_event_concept_Inr(1,2) [OF y]
    by (cases x, cases y) (simp add: writes_wf_def history_path_def)
qed

lemma plan_learning_writes_wf:
  assumes "plan_learning_writes now new_id agent_id event_id payload valid = Inr w"
  shows "writes_wf (lw_writes w) (lw_removes w)"
  using assms
  by (cases payload)
    (auto simp del: split_paired_Ex simp: plan_learning_writes_def single_write_Inr plan_skill_usage_def
      Let_def try_bind_Inr intro: plan_memory_wf plan_rollback_wf writes_wf_render)

text \<open>
  Every file is a concept at its own valid path, and every completion records documents of its
  own event.
\<close>

definition completion_wf :: "string \<Rightarrow> completion \<Rightarrow> bool" where
  "completion_wf i c \<longleftrightarrow> lc_event_id c = i \<and> writes_wf (lc_writes c) (lc_removes c)"

definition bundle_wf :: "knowledge_bundle \<Rightarrow> bool" where
  "bundle_wf b \<longleftrightarrow>
     distinct (map fst (kb_files b))
     \<and> (\<forall>(p, c) \<in> set (kb_files b). k_relative_path c = p \<and> validate_concept_relative_path p = Inr ())
     \<and> (\<forall>(i, c) \<in> set (kb_completions b). completion_wf i c)"

lemma apply_learning_Inr:
  assumes "apply_learning_event_fenced b e plan = Inr (changed, b')"
  obtains c where "completion_of b e plan = Inr c" "lc_event_id c = e"
    "validate_learning_writes e (lc_writes c) (lc_removes c) = Inr ()"
    "changed = (\<not> completion_matches b c)"
    "b' = (if completion_matches b c then b
       else \<lparr>kb_files = remove_files (lc_removes c) (write_files (lc_writes c) (kb_files b)),
             kb_completions = AList.update e c (kb_completions b)\<rparr>)"
  using assms
  by (auto simp: apply_learning_event_fenced_def try_bind_Inr split: if_splits)

lemma completion_of_wf:
  assumes "bundle_wf b" "completion_of b e plan = Inr c"
    and plan: "\<And>w. plan (scan_bundle b) = Inr w \<Longrightarrow> writes_wf (lw_writes w) (lw_removes w)"
  shows "completion_wf e c"
proof (cases "map_of (kb_completions b) e")
  case None
  then show ?thesis
    using assms(2) plan by (auto simp: completion_of_def try_bind_Inr completion_wf_def)
next
  case (Some x)
  then show ?thesis using assms(1,2) map_of_SomeD [OF Some] by (auto simp: completion_of_def bundle_wf_def)
qed

text \<open>The documents of an event are in place, and the paths it removes are free.\<close>

lemma completion_matches_iff:
  "completion_matches b c \<longleftrightarrow>
     (\<forall>(p, d) \<in> set (lc_writes c). map_of (kb_files b) p = Some d \<and> k_event_id d = Some (lc_event_id c))
     \<and> (\<forall>p \<in> set (lc_removes c). map_of (kb_files b) p = None)"
  by (auto simp: completion_matches_def list_all_iff split: option.splits)

lemma applied_matches:
  assumes wf: "completion_wf e c" and valid: "validate_learning_writes e (lc_writes c) (lc_removes c) = Inr ()"
  shows "completion_matches \<lparr>kb_files = remove_files (lc_removes c) (write_files (lc_writes c) fs),
      kb_completions = cs\<rparr> c"
  unfolding completion_matches_iff
proof (intro conjI ballI, safe)
  fix p d assume pd: "(p, d) \<in> set (lc_writes c)"
  have "distinct (map fst (lc_writes c))" using wf by (simp add: completion_wf_def writes_wf_def)
  then have "distinct (map fst (rev (lc_writes c)))" by (metis distinct_rev rev_map)
  then have "map_of (rev (lc_writes c)) p = Some d" using pd by (simp add: map_of_is_SomeI)
  moreover have "p \<notin> set (lc_removes c)"
    using wf pd by (auto simp: completion_wf_def dest: writes_wfD)
  ultimately show "map_of (kb_files \<lparr>kb_files = remove_files (lc_removes c) (write_files (lc_writes c) fs),
      kb_completions = cs\<rparr>) p = Some d"
    by (simp add: map_of_remove_files map_of_write_files)
  show "k_event_id d = Some (lc_event_id c)"
  proof -
    have "validate_writes e (lc_writes c) = Inr ()"
      using valid by (auto simp: validate_learning_writes_def try_bind_Inr)
    then show ?thesis using pd wf by (auto simp: validate_writes_Inr completion_wf_def)
  qed
next
  fix p assume "p \<in> set (lc_removes c)"
  then show "map_of (kb_files \<lparr>kb_files = remove_files (lc_removes c) (write_files (lc_writes c) fs),
      kb_completions = cs\<rparr>) p = None"
    by (simp add: map_of_remove_files)
qed

end
