(* ===== verification/LearningSystem.thy ===== *)
theory LearningSystem
  imports LearningQueue Knowledge
begin

text \<open>
  The queue, the bundles and everything that works on them: the daemon's worker
  (\<open>learning.rs\<close>), callers that deliver synchronously (\<open>deliver_through\<close>), the deletion of an agent
  (\<open>AgentRegistry::delete\<close>) and the restart (\<open>agents/bootstrap.rs\<close>), interleaved in any order.
  A step is a database transaction, the acquisition of an agent's write fence, or the file work
  done under the fence.
\<close>

section \<open>State\<close>

text \<open>
  How far a worker is with the event it claimed: it holds the fence of the agent while \<open>Fenced\<close>
  and \<open>Passed\<close> (the \<open>is_blocked\<close> check is behind it), and owes an acknowledgement when \<open>Applied\<close>
  and a release when \<open>Failed\<close>.
\<close>

datatype stage = Claimed | Fenced | Passed | Applied | Failed string

text \<open>How far the deletion of an agent is; it holds the fence while \<open>FencedOff\<close> and \<open>Committed\<close>.\<close>

datatype deletion = NoDeletion | Blocked | FencedOff | Committed | Gone

type_synonym event = "event_payload learning_event"

text \<open>\<open>w_applied\<close> records the first application of each event; nothing depends on it.\<close>

record world =
  w_queue :: "event_payload queue"
  w_bundles :: "string \<Rightarrow> knowledge_bundle option"
  w_hands :: "(event \<times> stage) list"
  w_deletion :: "string \<Rightarrow> deletion"
  w_applied :: "event list"

definition empty_bundle :: knowledge_bundle where
  "empty_bundle = \<lparr>kb_files = [], kb_completions = []\<rparr>"

text \<open>\<open>ensure_bundle_at\<close> creates the bundle that is missing.\<close>

definition ensure_bundle :: "knowledge_bundle option \<Rightarrow> knowledge_bundle" where
  "ensure_bundle b = (case b of Some b \<Rightarrow> b | None \<Rightarrow> empty_bundle)"

definition apply_event :: "int \<Rightarrow> string \<Rightarrow> knowledge_bundle option \<Rightarrow> event
    \<Rightarrow> knowledge_error + (bool \<times> knowledge_bundle)" where
  "apply_event now new_id b ev =
     apply_learning_event_fenced (ensure_bundle b) (le_event_id ev)
       (plan_learning_writes now new_id (le_agent_id ev) (le_event_id ev) (le_payload ev))"

definition holds_fence :: "event \<times> stage \<Rightarrow> bool" where
  "holds_fence h \<longleftrightarrow> snd h = Fenced \<or> snd h = Passed"

definition fence_free :: "world \<Rightarrow> string \<Rightarrow> bool" where
  "fence_free w a \<longleftrightarrow>
     list_all (\<lambda>h. le_agent_id (fst h) = a \<longrightarrow> \<not> holds_fence h) (w_hands w)
     \<and> w_deletion w a \<noteq> FencedOff \<and> w_deletion w a \<noteq> Committed"

definition event_ids :: "event list \<Rightarrow> string set" where
  "event_ids es = set (map le_event_id es)"

text \<open>\<open>paths::new_id\<close> gives an identifier no event has had.\<close>

definition fresh_id :: "world \<Rightarrow> string \<Rightarrow> bool" where
  "fresh_id w i \<longleftrightarrow> i \<notin> event_ids (w_applied w) \<and> i \<notin> event_ids (map fst (w_hands w))"

definition record_application :: "event list \<Rightarrow> event \<Rightarrow> event list" where
  "record_application es e = (if le_event_id e \<in> event_ids es then es else es @ [e])"

section \<open>Restart\<close>

fun unblock_all :: "string list \<Rightarrow> 'p queue \<Rightarrow> queue_error + 'p queue" where
  "unblock_all [] q = Inr q"
| "unblock_all (a # as) q = try_bind (set_blocked q a False) (unblock_all as)"

fun discard_all :: "string list \<Rightarrow> string list \<Rightarrow> 'p queue \<Rightarrow> queue_error + 'p queue" where
  "discard_all active [] q = Inr q"
| "discard_all active (a # as) q =
     (if List.member active a then discard_all active as q
      else try_bind (discard_unconsumed q a) (discard_all active as))"

definition boot_queue :: "string list \<Rightarrow> int \<Rightarrow> 'p queue \<Rightarrow> queue_error + 'p queue" where
  "boot_queue active now q =
     try_bind (unblock_all active q) (\<lambda>q.
     try_bind (discard_all active (blocked_agents q) q) (\<lambda>q.
       Inr (snd (reclaim_stale q now))))"

text \<open>What a deletion cut off by the restart has become: the file commit decides.\<close>

fun settled :: "deletion \<Rightarrow> deletion" where
  "settled Committed = Gone"
| "settled Gone = Gone"
| "settled _ = NoDeletion"

section \<open>Steps\<close>

inductive lstep :: "world \<Rightarrow> world \<Rightarrow> bool" where
  enqueue: "enqueue (w_queue w) a p i now = Inr (ev, q) \<Longrightarrow> fresh_id w i \<Longrightarrow> lstep w (w\<lparr>w_queue := q\<rparr>)"
| claim: "claim_next (w_queue w) a worker now = Inr (Some ev, q) \<Longrightarrow>
    lstep w (w\<lparr>w_queue := q, w_hands := w_hands w @ [(ev, Claimed)]\<rparr>)"
| claim_none: "claim_next (w_queue w) a worker now = Inr (None, q) \<Longrightarrow> lstep w (w\<lparr>w_queue := q\<rparr>)"
| take_fence: "w_hands w = xs @ (e, Claimed) # ys \<Longrightarrow> fence_free w (le_agent_id e) \<Longrightarrow>
    lstep w (w\<lparr>w_hands := xs @ (e, Fenced) # ys\<rparr>)"
| pass: "w_hands w = xs @ (e, Fenced) # ys \<Longrightarrow> \<not> is_blocked (w_queue w) (le_agent_id e) \<Longrightarrow>
    lstep w (w\<lparr>w_hands := xs @ (e, Passed) # ys\<rparr>)"
| refuse: "w_hands w = xs @ (e, Fenced) # ys \<Longrightarrow> is_blocked (w_queue w) (le_agent_id e) \<Longrightarrow>
    lstep w (w\<lparr>w_hands := xs @ (e, Failed message) # ys\<rparr>)"
| apply_ok: "w_hands w = xs @ (e, Passed) # ys \<Longrightarrow>
    apply_event now new_id (w_bundles w (le_agent_id e)) e = Inr (changed, b) \<Longrightarrow>
    lstep w (w\<lparr>w_hands := xs @ (e, Applied) # ys,
               w_bundles := (w_bundles w)(le_agent_id e \<mapsto> b),
               w_applied := record_application (w_applied w) e\<rparr>)"
| apply_fails: "w_hands w = xs @ (e, Passed) # ys \<Longrightarrow>
    apply_event now new_id (w_bundles w (le_agent_id e)) e = Inl err \<Longrightarrow>
    lstep w (w\<lparr>w_hands := xs @ (e, Failed message) # ys,
               w_bundles := (w_bundles w)(le_agent_id e \<mapsto> ensure_bundle (w_bundles w (le_agent_id e)))\<rparr>)"
| ack: "w_hands w = xs @ (e, Applied) # ys \<Longrightarrow> mark_delivered (w_queue w) (le_event_id e) now = Inr q \<Longrightarrow>
    lstep w (w\<lparr>w_queue := q, w_hands := xs @ ys\<rparr>)"
| release: "w_hands w = xs @ (e, Failed message) # ys \<Longrightarrow>
    release (w_queue w) (le_event_id e) message = Inr q \<Longrightarrow>
    lstep w (w\<lparr>w_queue := q, w_hands := xs @ ys\<rparr>)"
| abandon: "w_hands w = xs @ h # ys \<Longrightarrow> lstep w (w\<lparr>w_hands := xs @ ys\<rparr>)"
| reclaim: "lstep w (w\<lparr>w_queue := snd (reclaim_stale (w_queue w) now)\<rparr>)"
| block: "w_deletion w a = NoDeletion \<Longrightarrow> set_blocked (w_queue w) a True = Inr q \<Longrightarrow>
    lstep w (w\<lparr>w_queue := q, w_deletion := (w_deletion w)(a := Blocked)\<rparr>)"
| fence_off: "w_deletion w a = Blocked \<Longrightarrow> fence_free w a \<Longrightarrow>
    lstep w (w\<lparr>w_deletion := (w_deletion w)(a := FencedOff)\<rparr>)"
| roll_back: "w_deletion w a = Blocked \<or> w_deletion w a = FencedOff \<Longrightarrow>
    set_blocked (w_queue w) a False = Inr q \<Longrightarrow>
    lstep w (w\<lparr>w_queue := q, w_deletion := (w_deletion w)(a := NoDeletion)\<rparr>)"
| commit: "w_deletion w a = FencedOff \<Longrightarrow>
    lstep w (w\<lparr>w_deletion := (w_deletion w)(a := Committed), w_bundles := (w_bundles w)(a := None)\<rparr>)"
| discard: "w_deletion w a = Committed \<Longrightarrow> discard_unconsumed (w_queue w) a = Inr q \<Longrightarrow>
    lstep w (w\<lparr>w_queue := q, w_deletion := (w_deletion w)(a := Gone)\<rparr>)"
| discard_pending: "w_deletion w a = Committed \<Longrightarrow>
    lstep w (w\<lparr>w_deletion := (w_deletion w)(a := Gone)\<rparr>)"
| restart: "list_all (\<lambda>a. settled (w_deletion w a) \<noteq> Gone) active \<Longrightarrow>
    boot_queue active now (w_queue w) = Inr q \<Longrightarrow>
    lstep w (w\<lparr>w_queue := q, w_hands := [], w_deletion := settled \<circ> w_deletion w\<rparr>)"

definition linit :: "world \<Rightarrow> bool" where
  "linit w \<longleftrightarrow> lq_rows (w_queue w) = [] \<and> w_hands w = [] \<and> w_applied w = []
     \<and> (\<forall>a. w_deletion w a = NoDeletion)"

section \<open>The invariant\<close>

definition row_of :: "'p queue \<Rightarrow> 'p learning_event \<Rightarrow> bool" where
  "row_of q e \<longleftrightarrow> (\<exists>r \<in> set (lq_rows q). q_event_id r = le_event_id e)"

definition in_line :: "event list \<Rightarrow> bool" where
  "in_line = sorted_wrt (\<lambda>x y. le_agent_id x = le_agent_id y \<longrightarrow> le_sequence x < le_sequence y)"

definition stage_inv :: "world \<Rightarrow> event \<times> stage \<Rightarrow> bool" where
  "stage_inv w h \<longleftrightarrow>
     (let e = fst h; d = w_deletion w (le_agent_id e)
      in at_place (w_queue w) e
         \<and> (d \<noteq> Gone \<longrightarrow> row_of (w_queue w) e)
         \<and> (snd h = Fenced \<longrightarrow> d \<noteq> FencedOff \<and> d \<noteq> Committed)
         \<and> (snd h = Passed \<longrightarrow> d = NoDeletion \<or> d = Blocked)
         \<and> (snd h = Applied \<longrightarrow> le_event_id e \<in> event_ids (w_applied w)))"

definition deletion_inv :: "world \<Rightarrow> bool" where
  "deletion_inv w \<longleftrightarrow>
     (\<forall>a. (w_deletion w a \<noteq> NoDeletion \<longrightarrow> is_blocked (w_queue w) a)
        \<and> (w_deletion w a = Committed \<or> w_deletion w a = Gone \<longrightarrow> w_bundles w a = None))"

definition log_inv :: "world \<Rightarrow> bool" where
  "log_inv w \<longleftrightarrow>
     in_line (w_applied w) \<and> (\<forall>e \<in> set (w_applied w). at_place (w_queue w) e)
     \<and> (\<forall>r \<in> set (lq_rows (w_queue w)). q_status r = QDelivered \<longrightarrow> q_event_id r \<in> event_ids (w_applied w))"

definition world_inv :: "world \<Rightarrow> bool" where
  "world_inv w \<longleftrightarrow> queue_inv (w_queue w) \<and> (\<forall>h \<in> set (w_hands w). stage_inv w h)
     \<and> deletion_inv w \<and> log_inv w"

lemma in_line_snoc:
  "in_line (es @ [e]) \<longleftrightarrow>
     in_line es \<and> (\<forall>x \<in> set es. le_agent_id x = le_agent_id e \<longrightarrow> le_sequence x < le_sequence e)"
  by (simp add: in_line_def sorted_wrt_append)

lemma stage_inv_hands [simp]: "stage_inv (w\<lparr>w_hands := hs\<rparr>) h = stage_inv w h"
  by (simp add: stage_inv_def)

lemma stage_inv_bundles [simp]: "stage_inv (w\<lparr>w_bundles := bs\<rparr>) h = stage_inv w h"
  by (simp add: stage_inv_def)

lemma log_inv_others [simp]:
  "log_inv (w\<lparr>w_hands := hs\<rparr>) = log_inv w" "log_inv (w\<lparr>w_bundles := bs\<rparr>) = log_inv w"
  "log_inv (w\<lparr>w_deletion := d\<rparr>) = log_inv w"
  by (simp_all add: log_inv_def)

lemma deletion_inv_others [simp]:
  "deletion_inv (w\<lparr>w_hands := hs\<rparr>) = deletion_inv w" "deletion_inv (w\<lparr>w_applied := es\<rparr>) = deletion_inv w"
  by (simp_all add: deletion_inv_def)

lemma world_inv_hands:
  "world_inv w \<Longrightarrow> (\<And>h. h \<in> set hs \<Longrightarrow> stage_inv w h) \<Longrightarrow> world_inv (w\<lparr>w_hands := hs\<rparr>)"
  by (simp add: world_inv_def)

lemma world_inv_hand: "world_inv w \<Longrightarrow> h \<in> set (w_hands w) \<Longrightarrow> stage_inv w h"
  by (simp add: world_inv_def)

lemma row_of_mono:
  "q_event_id ` set (lq_rows q) \<subseteq> q_event_id ` set (lq_rows q') \<Longrightarrow> row_of q e \<Longrightarrow> row_of q' e"
  unfolding row_of_def by (metis image_iff subset_iff)

lemma stage_inv_queue:
  assumes "stage_inv w h" "evolves ids (w_queue w) q" "le_event_id (fst h) \<notin> ids"
    and "w_deletion w (le_agent_id (fst h)) \<noteq> Gone \<Longrightarrow> row_of (w_queue w) (fst h) \<Longrightarrow> row_of q (fst h)"
  shows "stage_inv (w\<lparr>w_queue := q\<rparr>) h"
  using assms(1) assms(4) at_place_evolves [OF _ assms(2,3)]
  by (auto simp: stage_inv_def Let_def)

lemma log_inv_queue:
  assumes "log_inv w" "evolves ids (w_queue w) q" "ids \<inter> event_ids (w_applied w) = {}"
    and "\<And>s. s \<in> set (lq_rows q) \<Longrightarrow> q_status s = QDelivered \<Longrightarrow> q_event_id s \<in> event_ids (w_applied w)"
  shows "log_inv (w\<lparr>w_queue := q\<rparr>)"
proof -
  have "le_event_id e \<notin> ids" if "e \<in> set (w_applied w)" for e
    using assms(3) that by (auto simp: event_ids_def)
  then show ?thesis using assms(1,4) at_place_evolves [OF _ assms(2)] by (auto simp: log_inv_def)
qed

text \<open>A transaction that only adds rows of fresh identifiers and leaves the gates alone.\<close>

lemma world_inv_queue:
  assumes inv: "world_inv w" and q: "queue_inv q" "evolves ids (w_queue w) q" "keeps_rows (w_queue w) q"
    "keeps_gates (w_queue w) q" and fresh: "\<And>i. i \<in> ids \<Longrightarrow> fresh_id w i"
  shows "world_inv (w\<lparr>w_queue := q\<rparr>)"
proof -
  have "stage_inv (w\<lparr>w_queue := q\<rparr>) h" if h: "h \<in> set (w_hands w)" for h
  proof (rule stage_inv_queue [OF world_inv_hand [OF inv h] q(2)])
    show "le_event_id (fst h) \<notin> ids"
      using fresh h by (auto simp: fresh_id_def event_ids_def)
    show "row_of q (fst h)" if "row_of (w_queue w) (fst h)"
      using that row_of_mono q(3) unfolding keeps_rows_def by blast
  qed
  moreover have "log_inv (w\<lparr>w_queue := q\<rparr>)"
  proof (rule log_inv_queue [OF _ q(2)])
    show "ids \<inter> event_ids (w_applied w) = {}" using fresh by (auto simp: fresh_id_def)
    show "q_event_id s \<in> event_ids (w_applied w)" if "s \<in> set (lq_rows q)" "q_status s = QDelivered" for s
      using inv q(3) that by (auto simp: world_inv_def log_inv_def keeps_rows_def) metis
  qed (use inv in \<open>simp add: world_inv_def\<close>)
  moreover have "deletion_inv (w\<lparr>w_queue := q\<rparr>)"
    using inv q(4) by (simp add: world_inv_def deletion_inv_def keeps_gates_def)
  ultimately show ?thesis using inv q(1) by (simp add: world_inv_def)
qed

lemma world_inv_ack:
  assumes inv: "world_inv w" and applied: "le_event_id e \<in> event_ids (w_applied w)"
    and ack: "mark_delivered (w_queue w) (le_event_id e) now = Inr q"
  shows "world_inv (w\<lparr>w_queue := q\<rparr>)"
proof -
  note ev = evolves_mark_delivered [OF ack] and keep = mark_delivered_keeps [OF ack]
  have "stage_inv (w\<lparr>w_queue := q\<rparr>) h" if "h \<in> set (w_hands w)" for h
    using stage_inv_queue [OF world_inv_hand [OF inv that] ev] row_of_mono [OF keep(2)] by simp
  moreover have "log_inv (w\<lparr>w_queue := q\<rparr>)"
  proof (rule log_inv_queue [OF _ ev])
    show "q_event_id s \<in> event_ids (w_applied w)" if "s \<in> set (lq_rows q)" "q_status s = QDelivered" for s
      using keep(3) [OF that] inv applied by (auto simp: world_inv_def log_inv_def)
  qed (use inv in \<open>simp_all add: world_inv_def\<close>)
  moreover have "deletion_inv (w\<lparr>w_queue := q\<rparr>)"
    using inv keep(1) by (simp add: world_inv_def deletion_inv_def keeps_gates_def)
  ultimately show ?thesis
    using inv mark_delivered_inv [OF _ ack] by (simp add: world_inv_def)
qed

text \<open>Holding the fence of an agent that is not being deleted, an event is applied in its turn.\<close>

lemma first_application_in_line:
  assumes inv: "world_inv w" and e: "(e, Passed) \<in> set (w_hands w)"
    and new: "le_event_id e \<notin> event_ids (w_applied w)"
    and x: "x \<in> set (w_applied w)" "le_agent_id x = le_agent_id e"
  shows "le_sequence x < le_sequence e"
proof (rule ccontr)
  assume late: "\<not> le_sequence x < le_sequence e"
  have st: "stage_inv w (e, Passed)" using inv e by (simp add: world_inv_def)
  then obtain r where r: "r \<in> set (lq_rows (w_queue w))" "q_event_id r = le_event_id e"
    by (auto simp: stage_inv_def Let_def row_of_def)
  then have place: "q_agent_id r = le_agent_id e" "q_sequence r = le_sequence e"
    using st by (auto simp: stage_inv_def Let_def at_place_def)
  have "at_place (w_queue w) x" using inv x(1) by (simp add: world_inv_def log_inv_def)
  then have "q_event_id r = le_event_id x \<or> q_status r = QDelivered"
    using r(1) place x(2) late by (force simp: at_place_def)
  moreover have "q_event_id r \<noteq> le_event_id x" using r(2) new x(1) by (auto simp: event_ids_def)
  moreover have "q_status r \<noteq> QDelivered" using inv r new by (auto simp: world_inv_def log_inv_def)
  ultimately show False by blast
qed

lemma record_application_ids [simp]:
  "event_ids (record_application es e) = insert (le_event_id e) (event_ids es)"
  by (auto simp: record_application_def event_ids_def)

lemma stage_inv_applied:
  "stage_inv w h \<Longrightarrow> event_ids (w_applied w) \<subseteq> event_ids es \<Longrightarrow> stage_inv (w\<lparr>w_applied := es\<rparr>) h"
  by (auto simp: stage_inv_def Let_def)

lemma world_inv_apply:
  assumes inv: "world_inv w" and e: "(e, Passed) \<in> set (w_hands w)"
  shows "world_inv (w\<lparr>w_bundles := (w_bundles w)(le_agent_id e \<mapsto> b)\<rparr>)"
    and "world_inv (w\<lparr>w_applied := record_application (w_applied w) e\<rparr>)"
proof -
  have st: "stage_inv w (e, Passed)" by (rule world_inv_hand [OF inv e])
  then have d: "w_deletion w (le_agent_id e) = NoDeletion \<or> w_deletion w (le_agent_id e) = Blocked"
    by (simp add: stage_inv_def Let_def)
  then show "world_inv (w\<lparr>w_bundles := (w_bundles w)(le_agent_id e \<mapsto> b)\<rparr>)"
    using inv by (auto simp: world_inv_def deletion_inv_def)
  let ?w = "w\<lparr>w_applied := record_application (w_applied w) e\<rparr>"
  have "log_inv ?w"
  proof (cases "le_event_id e \<in> event_ids (w_applied w)")
    case True
    then show ?thesis using inv by (simp add: world_inv_def log_inv_def record_application_def)
  next
    case False
    have "at_place (w_queue w) e" using st by (simp add: stage_inv_def Let_def)
    then show ?thesis
      using inv first_application_in_line [OF inv e False] False
      by (auto simp: world_inv_def log_inv_def record_application_def in_line_snoc event_ids_def)
  qed
  moreover have "stage_inv ?w h" if "h \<in> set (w_hands w)" for h
    by (rule stage_inv_applied [OF world_inv_hand [OF inv that]]) auto
  ultimately show "world_inv ?w" using inv by (simp add: world_inv_def)
qed

text \<open>The gate of one agent and the stage of its deletion change together.\<close>

lemma world_inv_gate:
  assumes inv: "world_inv w" and q: "set_blocked (w_queue w) a blocked = Inr q"
    and d: "d = NoDeletion \<and> w_deletion w a \<noteq> Gone \<and> w_deletion w a \<noteq> Committed \<or> d = Blocked \<and> blocked \<and> w_deletion w a = NoDeletion"
  shows "world_inv (w\<lparr>w_queue := q, w_deletion := (w_deletion w)(a := d)\<rparr>)"
proof -
  let ?w = "w\<lparr>w_queue := q, w_deletion := (w_deletion w)(a := d)\<rparr>"
  note keep = set_blocked_keeps [OF q] and ev = evolves_set_blocked [OF q]
  have "stage_inv ?w h" if "h \<in> set (w_hands w)" for h
    using stage_inv_queue [OF world_inv_hand [OF inv that] ev] world_inv_hand [OF inv that] d
    by (auto simp: stage_inv_def Let_def row_of_def keep(1) fun_upd_def split: if_splits)
  moreover have "log_inv (w\<lparr>w_queue := q\<rparr>)"
  proof (rule log_inv_queue [OF _ ev])
    show "q_event_id s \<in> event_ids (w_applied w)" if "s \<in> set (lq_rows q)" "q_status s = QDelivered" for s
      using that inv by (auto simp: world_inv_def log_inv_def keep(1))
  qed (use inv in \<open>simp_all add: world_inv_def\<close>)
  then have "log_inv ?w" by (simp add: log_inv_def)
  moreover have "deletion_inv ?w"
    using inv d by (auto simp: world_inv_def deletion_inv_def keep(2))
  ultimately show ?thesis
    using inv set_blocked_inv [OF _ q] by (simp add: world_inv_def)
qed

lemma world_inv_discard:
  assumes inv: "world_inv w" and d: "w_deletion w a = Committed"
    and q: "q = w_queue w \<or> discard_unconsumed (w_queue w) a = Inr q"
  shows "world_inv (w\<lparr>w_queue := q, w_deletion := (w_deletion w)(a := Gone)\<rparr>)"
proof -
  let ?w = "w\<lparr>w_queue := q, w_deletion := (w_deletion w)(a := Gone)\<rparr>"
  have qi0: "queue_inv (w_queue w)" using inv by (simp add: world_inv_def)
  have "evolves {} (w_queue w) q \<and> queue_inv q \<and> keeps_gates (w_queue w) q
      \<and> set (lq_rows q) \<subseteq> set (lq_rows (w_queue w))
      \<and> (\<forall>r \<in> set (lq_rows (w_queue w)). q_agent_id r \<noteq> a \<longrightarrow> r \<in> set (lq_rows q))"
    using q
  proof
    assume "q = w_queue w"
    then show ?thesis using qi0 by (simp add: keeps_gates_def)
  next
    assume dis: "discard_unconsumed (w_queue w) a = Inr q"
    show ?thesis
      using evolves_discard [OF dis] discard_inv [OF qi0 dis] discard_keeps [OF dis] by blast
  qed
  then have ev: "evolves {} (w_queue w) q" and qi: "queue_inv q" and gates: "keeps_gates (w_queue w) q"
    and sub: "set (lq_rows q) \<subseteq> set (lq_rows (w_queue w))"
    and rows: "\<And>r. r \<in> set (lq_rows (w_queue w)) \<Longrightarrow> q_agent_id r \<noteq> a \<Longrightarrow> r \<in> set (lq_rows q)"
    by blast+
  have "stage_inv ?w h" if h: "h \<in> set (w_hands w)" for h
  proof -
    have st: "stage_inv w h" by (rule world_inv_hand [OF inv h])
    have "row_of q (fst h)" if row: "row_of (w_queue w) (fst h)" and other: "le_agent_id (fst h) \<noteq> a"
    proof -
      obtain r where r: "r \<in> set (lq_rows (w_queue w))" "q_event_id r = le_event_id (fst h)"
        using row by (auto simp: row_of_def)
      then have "q_agent_id r \<noteq> a" using st other by (auto simp: stage_inv_def Let_def at_place_def)
      then show ?thesis using rows r by (auto simp: row_of_def)
    qed
    moreover have "at_place q (fst h)"
      by (rule at_place_evolves [OF _ ev]) (use st in \<open>auto simp: stage_inv_def Let_def\<close>)
    ultimately show ?thesis using st d by (auto simp: stage_inv_def Let_def)
  qed
  moreover have "log_inv (w\<lparr>w_queue := q\<rparr>)"
    by (rule log_inv_queue [OF _ ev]) (use inv sub in \<open>auto simp: world_inv_def log_inv_def\<close>)
  then have "log_inv ?w" by (simp add: log_inv_def)
  moreover have "deletion_inv ?w"
    using inv d gates by (auto simp: world_inv_def deletion_inv_def keeps_gates_def)
  ultimately show ?thesis using qi by (simp add: world_inv_def)
qed

lemma unblock_all_facts:
  "unblock_all as q = Inr q' \<Longrightarrow> queue_inv q \<Longrightarrow>
    queue_inv q' \<and> evolves {} q q' \<and> lq_rows q' = lq_rows q
    \<and> (\<forall>a. a \<notin> set as \<longrightarrow> is_blocked q' a = is_blocked q a)"
proof (induction as arbitrary: q)
  case (Cons a as)
  then obtain q1 where q1: "set_blocked q a False = Inr q1" "unblock_all as q1 = Inr q'"
    by (auto simp: try_bind_Inr)
  show ?case
    using Cons.IH [OF q1(2) set_blocked_inv [OF Cons.prems(2) q1(1)]] evolves_set_blocked [OF q1(1)]
      set_blocked_keeps [OF q1(1)] evolves_trans by auto
qed simp

lemma discard_all_facts:
  "discard_all active as q = Inr q' \<Longrightarrow> queue_inv q \<Longrightarrow>
    queue_inv q' \<and> evolves {} q q' \<and> set (lq_rows q') \<subseteq> set (lq_rows q) \<and> keeps_gates q q'"
proof (induction as arbitrary: q)
  case (Cons a as)
  show ?case
  proof (cases "List.member active a")
    case True
    then show ?thesis using Cons by simp
  next
    case False
    then obtain q1 where q1: "discard_unconsumed q a = Inr q1" "discard_all active as q1 = Inr q'"
      using Cons.prems by (auto simp: try_bind_Inr)
    show ?thesis
      using Cons.IH [OF q1(2) discard_inv [OF Cons.prems(2) q1(1)]] evolves_discard [OF q1(1)]
        discard_keeps(1,2) [OF q1(1)] evolves_trans by (auto simp: keeps_gates_def)
  qed
qed (simp add: keeps_gates_def)

lemma boot_queue_facts:
  assumes "boot_queue active now q = Inr q'" "queue_inv q"
  shows "queue_inv q'" "evolves {} q q'"
    "s \<in> set (lq_rows q') \<Longrightarrow> q_status s = QDelivered \<Longrightarrow>
      \<exists>r \<in> set (lq_rows q). q_status r = QDelivered \<and> q_event_id r = q_event_id s"
    "a \<notin> set active \<Longrightarrow> is_blocked q' a = is_blocked q a"
proof -
  obtain q1 q2 where q1: "unblock_all active q = Inr q1" and q2: "discard_all active (blocked_agents q1) q1 = Inr q2"
    and q': "q' = reset_stale (\<lambda>_. True) (stale_cutoff now) q2"
    using assms(1) by (auto simp: boot_queue_def try_bind_Inr reclaim_stale_def)
  note f1 = unblock_all_facts [OF q1 assms(2)]
  note f2 = discard_all_facts [OF q2 conjunct1 [OF f1]]
  show "queue_inv q'" unfolding q' using f2 by (blast intro: reset_stale_inv)
  show "evolves {} q q'" unfolding q' using f1 f2 by (blast intro: evolves_trans evolves_reset_stale)
  show "\<exists>r \<in> set (lq_rows q). q_status r = QDelivered \<and> q_event_id r = q_event_id s"
    if s: "s \<in> set (lq_rows q')" "q_status s = QDelivered"
  proof -
    have "keeps_rows q2 q'" unfolding q' by (rule keeps_reset_stale)
    then obtain r where "r \<in> set (lq_rows q2)" "q_status r = QDelivered" "q_event_id r = q_event_id s"
      using keeps_rowsD(1) s by blast
    then show ?thesis using f1 f2 by auto
  qed
  show "is_blocked q' a = is_blocked q a" if "a \<notin> set active"
    using f1 f2 keeps_reset_stale(2) [of q2] that unfolding q' by (auto simp: keeps_gates_def)
qed

lemma world_inv_restart:
  assumes inv: "world_inv w" and live: "list_all (\<lambda>a. settled (w_deletion w a) \<noteq> Gone) active"
    and boot: "boot_queue active now (w_queue w) = Inr q"
  shows "world_inv (w\<lparr>w_queue := q, w_hands := [], w_deletion := settled \<circ> w_deletion w\<rparr>)"
proof -
  let ?w = "w\<lparr>w_queue := q, w_hands := [], w_deletion := settled \<circ> w_deletion w\<rparr>"
  have qi: "queue_inv (w_queue w)" using inv by (simp add: world_inv_def)
  note facts = boot_queue_facts [OF boot qi]
  have "log_inv (w\<lparr>w_queue := q\<rparr>)"
  proof (rule log_inv_queue [OF _ facts(2)])
    show "q_event_id s \<in> event_ids (w_applied w)" if "s \<in> set (lq_rows q)" "q_status s = QDelivered" for s
      using facts(3) [OF that] inv by (auto simp: world_inv_def log_inv_def)
  qed (use inv in \<open>simp_all add: world_inv_def\<close>)
  then have "log_inv ?w" by (simp add: log_inv_def)
  moreover have "deletion_inv ?w"
    unfolding deletion_inv_def
  proof (intro allI conjI impI)
    fix a
    have gone: "w_deletion w a = Gone \<or> w_deletion w a = Committed" if "settled (w_deletion w a) = Gone"
      using that by (cases "w_deletion w a") auto
    have final: "settled d = Gone \<or> settled d = NoDeletion" for d by (cases d) auto
    show "is_blocked (w_queue ?w) a" if "w_deletion ?w a \<noteq> NoDeletion"
    proof -
      have g: "settled (w_deletion w a) = Gone" using that final by force
      then have "a \<notin> set active" using live by (auto simp: list_all_iff)
      then show ?thesis using facts(4) gone [OF g] inv by (auto simp: world_inv_def deletion_inv_def)
    qed
    show "w_bundles ?w a = None" if "w_deletion ?w a = Committed \<or> w_deletion ?w a = Gone"
    proof -
      have "settled (w_deletion w a) = Gone" using that final by force
      then show ?thesis using gone inv by (auto simp: world_inv_def deletion_inv_def)
    qed
  qed
  ultimately show ?thesis using facts(1) by (simp add: world_inv_def)
qed

text \<open>One worker moves to another stage.\<close>

lemma world_inv_stage:
  assumes inv: "world_inv w" and hands: "w_hands w = xs @ (e, st) # ys" and ok: "stage_inv w (e, st')"
  shows "world_inv (w\<lparr>w_hands := xs @ (e, st') # ys\<rparr>)"
proof (rule world_inv_hands [OF inv])
  fix h assume "h \<in> set (xs @ (e, st') # ys)"
  then consider "h = (e, st')" | "h \<in> set (w_hands w)" using hands by auto
  then show "stage_inv w h" using ok world_inv_hand [OF inv] by cases auto
qed

lemma world_inv_drop:
  "world_inv w \<Longrightarrow> w_hands w = xs @ h # ys \<Longrightarrow> world_inv (w\<lparr>w_hands := xs @ ys\<rparr>)"
  by (rule world_inv_hands) (auto simp: world_inv_def)

lemma world_inv_deletion:
  assumes "world_inv w" "w_deletion w a \<noteq> NoDeletion" "d = FencedOff \<and> fence_free w a \<and> w_deletion w a = Blocked"
  shows "world_inv (w\<lparr>w_deletion := (w_deletion w)(a := d)\<rparr>)"
proof -
  have "stage_inv (w\<lparr>w_deletion := (w_deletion w)(a := d)\<rparr>) h" if h: "h \<in> set (w_hands w)" for h
  proof -
    have "\<not> holds_fence h" if "le_agent_id (fst h) = a"
      using assms(3) h that by (auto simp: fence_free_def list_all_iff)
    then show ?thesis
      using world_inv_hand [OF assms(1) h] assms(3) by (auto simp: stage_inv_def Let_def holds_fence_def)
  qed
  then show ?thesis using assms by (auto simp: world_inv_def deletion_inv_def)
qed

text \<open>The commit happens under the fence, so no worker is behind the check.\<close>

lemma world_inv_commit:
  assumes "world_inv w" "w_deletion w a = FencedOff"
  shows "world_inv (w\<lparr>w_deletion := (w_deletion w)(a := Committed), w_bundles := (w_bundles w)(a := None)\<rparr>)"
proof -
  have "stage_inv (w\<lparr>w_deletion := (w_deletion w)(a := Committed), w_bundles := (w_bundles w)(a := None)\<rparr>) h"
    if "h \<in> set (w_hands w)" for h
    using world_inv_hand [OF assms(1) that] assms(2) by (auto simp: stage_inv_def Let_def)
  then show ?thesis using assms by (auto simp: world_inv_def deletion_inv_def log_inv_def)
qed

lemma world_inv_claim:
  assumes inv: "world_inv w" and claim: "claim_next (w_queue w) a worker now = Inr (Some ev, q)"
  shows "world_inv (w\<lparr>w_queue := q, w_hands := w_hands w @ [(ev, Claimed)]\<rparr>)"
proof -
  have qi: "queue_inv (w_queue w)" using inv by (simp add: world_inv_def)
  let ?w = "w\<lparr>w_queue := q\<rparr>"
  have inv': "world_inv ?w"
    by (rule world_inv_queue [OF inv claim_next_inv [OF qi claim] evolves_claim_next [OF claim]
          keeps_claim_next [OF claim]]) simp
  have "stage_inv ?w (ev, Claimed)"
    using claim_next_Some(1,2) [OF qi claim] by (auto simp: stage_inv_def Let_def row_of_def)
  then have "world_inv (?w\<lparr>w_hands := w_hands w @ [(ev, Claimed)]\<rparr>)"
    using world_inv_hand [OF inv'] by (intro world_inv_hands [OF inv']) auto
  then show ?thesis by simp
qed

lemma world_inv_transaction:
  assumes inv: "world_inv w"
  shows "enqueue (w_queue w) a p i now = Inr (ev, q) \<Longrightarrow> fresh_id w i \<Longrightarrow> world_inv (w\<lparr>w_queue := q\<rparr>)"
    and "claim_next (w_queue w) a worker now = Inr (None, q) \<Longrightarrow> world_inv (w\<lparr>w_queue := q\<rparr>)"
    and "release (w_queue w) i message = Inr q \<Longrightarrow> world_inv (w\<lparr>w_queue := q\<rparr>)"
    and "world_inv (w\<lparr>w_queue := snd (reclaim_stale (w_queue w) now)\<rparr>)"
proof -
  have qi: "queue_inv (w_queue w)" using inv by (simp add: world_inv_def)
  show "world_inv (w\<lparr>w_queue := q\<rparr>)" if "enqueue (w_queue w) a p i now = Inr (ev, q)" "fresh_id w i"
    by (rule world_inv_queue [OF inv enqueue_inv [OF qi that(1)] evolves_enqueue [OF qi that(1)]
          keeps_enqueue [OF that(1)]]) (use that(2) in simp)
  show "world_inv (w\<lparr>w_queue := q\<rparr>)" if "claim_next (w_queue w) a worker now = Inr (None, q)"
    by (rule world_inv_queue [OF inv claim_next_inv [OF qi that] evolves_claim_next [OF that]
          keeps_claim_next [OF that]]) simp
  show "world_inv (w\<lparr>w_queue := q\<rparr>)" if "release (w_queue w) i message = Inr q"
    by (rule world_inv_queue [OF inv release_inv [OF qi that] evolves_release [OF that]
          keeps_release [OF that]]) simp
  show "world_inv (w\<lparr>w_queue := snd (reclaim_stale (w_queue w) now)\<rparr>)"
    unfolding reclaim_stale_def snd_conv
    by (rule world_inv_queue [OF inv reset_stale_inv [OF qi] evolves_reset_stale keeps_reset_stale]) simp
qed

lemma linit_inv: "linit w \<Longrightarrow> world_inv w"
  by (simp add: linit_def world_inv_def queue_inv_def deletion_inv_def log_inv_def in_line_def)

lemma lstep_inv:
  assumes "lstep w w'" and inv: "world_inv w" shows "world_inv w'"
  using assms(1)
proof cases
  case (take_fence xs e ys)
  have "stage_inv w (e, Claimed)" by (rule world_inv_hand [OF inv]) (simp add: take_fence)
  then have "stage_inv w (e, Fenced)" using take_fence(3) by (simp add: stage_inv_def Let_def fence_free_def)
  then show ?thesis unfolding take_fence(1) by (rule world_inv_stage [OF inv take_fence(2)])
next
  case (pass xs e ys)
  have "stage_inv w (e, Fenced)" by (rule world_inv_hand [OF inv]) (simp add: pass)
  moreover have "w_deletion w (le_agent_id e) = NoDeletion"
    using inv pass(3) by (auto simp: world_inv_def deletion_inv_def)
  ultimately have "stage_inv w (e, Passed)" by (simp add: stage_inv_def Let_def)
  then show ?thesis unfolding pass(1) by (rule world_inv_stage [OF inv pass(2)])
next
  case (refuse xs e ys message)
  have "stage_inv w (e, Fenced)" by (rule world_inv_hand [OF inv]) (simp add: refuse)
  then have "stage_inv w (e, Failed message)" by (simp add: stage_inv_def Let_def)
  then show ?thesis unfolding refuse(1) by (rule world_inv_stage [OF inv refuse(2)])
next
  case (apply_ok xs e ys now new_id changed b)
  let ?w1 = "w\<lparr>w_bundles := (w_bundles w)(le_agent_id e \<mapsto> b)\<rparr>"
  let ?w2 = "?w1\<lparr>w_applied := record_application (w_applied ?w1) e\<rparr>"
  have e: "(e, Passed) \<in> set (w_hands w)" by (simp add: apply_ok)
  then have "(e, Passed) \<in> set (w_hands ?w1)" by simp
  then have inv2: "world_inv ?w2" using world_inv_apply [OF inv e] world_inv_apply(2) by blast
  have "stage_inv ?w2 (e, Passed)" by (rule world_inv_hand [OF inv2]) (simp add: apply_ok)
  then have "stage_inv ?w2 (e, Applied)" by (simp add: stage_inv_def Let_def)
  then have "world_inv (?w2\<lparr>w_hands := xs @ (e, Applied) # ys\<rparr>)"
    by (rule world_inv_stage [OF inv2, of xs e Passed ys, rotated]) (simp add: apply_ok)
  moreover have "w' = ?w2\<lparr>w_hands := xs @ (e, Applied) # ys\<rparr>"
    unfolding apply_ok(1) by (rule world.equality) simp_all
  ultimately show ?thesis by simp
next
  case (apply_fails xs e ys now new_id err message)
  let ?w1 = "w\<lparr>w_bundles := (w_bundles w)(le_agent_id e \<mapsto> ensure_bundle (w_bundles w (le_agent_id e)))\<rparr>"
  have e: "(e, Passed) \<in> set (w_hands w)" by (simp add: apply_fails)
  have inv1: "world_inv ?w1" by (rule world_inv_apply(1) [OF inv e])
  have "stage_inv w (e, Passed)" by (rule world_inv_hand [OF inv e])
  then have "stage_inv ?w1 (e, Failed message)" by (simp add: stage_inv_def Let_def)
  then have "world_inv (?w1\<lparr>w_hands := xs @ (e, Failed message) # ys\<rparr>)"
    by (rule world_inv_stage [OF inv1, of xs e Passed ys, rotated]) (simp add: apply_fails)
  moreover have "w' = ?w1\<lparr>w_hands := xs @ (e, Failed message) # ys\<rparr>"
    unfolding apply_fails(1) by (rule world.equality) simp_all
  ultimately show ?thesis by simp
next
  case (ack xs e ys now q)
  have "stage_inv w (e, Applied)" by (rule world_inv_hand [OF inv]) (simp add: ack)
  then have "world_inv (w\<lparr>w_queue := q\<rparr>)"
    by (intro world_inv_ack [OF inv _ ack(3)]) (simp add: stage_inv_def Let_def)
  then have "world_inv (w\<lparr>w_queue := q\<rparr>\<lparr>w_hands := xs @ ys\<rparr>)"
    by (rule world_inv_drop) (simp add: ack)
  then show ?thesis by (simp add: ack)
next
  case (release xs e message ys q)
  have "world_inv (w\<lparr>w_queue := q\<rparr>)" by (rule world_inv_transaction(3) [OF inv release(3)])
  then have "world_inv (w\<lparr>w_queue := q\<rparr>\<lparr>w_hands := xs @ ys\<rparr>)"
    by (rule world_inv_drop) (simp add: release)
  then show ?thesis by (simp add: release)
next
  case (block a q)
  then show ?thesis by (auto intro: world_inv_gate [OF inv])
next
  case (roll_back a q)
  then show ?thesis by (auto intro!: world_inv_gate [OF inv])
next
  case (fence_off a)
  then show ?thesis by (auto intro: world_inv_deletion [OF inv])
next
  case (discard_pending a)
  have "world_inv (w\<lparr>w_queue := w_queue w, w_deletion := (w_deletion w)(a := Gone)\<rparr>)"
    by (rule world_inv_discard [OF inv discard_pending(2)]) simp
  then show ?thesis by (simp add: discard_pending)
qed (auto intro: world_inv_transaction [OF inv] world_inv_claim [OF inv] world_inv_drop [OF inv]
      world_inv_commit [OF inv] world_inv_discard [OF inv] world_inv_restart [OF inv])

interpretation ls: machine linit lstep world_inv
  by unfold_locales (auto intro: linit_inv lstep_inv)

end
