(* ===== verification/LearningSafety.thy ===== *)
theory LearningSafety
  imports KnowledgeSafety
begin

text \<open>
  What the learning system guarantees in every interleaving (order, no application after a
  deletion, bundles well formed), and the two loops that work on it: \<open>learning.rs\<close>'s \<open>tick\<close> and
  \<open>LearningQueue::deliver_through\<close>.
\<close>

section \<open>The loops\<close>

text \<open>\<open>apply_claimed\<close> under the fence: the message of an error is what \<open>release\<close> records.\<close>

definition apply_claimed ::
    "(knowledge_error \<Rightarrow> string) \<Rightarrow> int \<Rightarrow> string \<Rightarrow> event \<Rightarrow> world \<Rightarrow> string + world" where
  "apply_claimed describe now new_id ev w =
     (if is_blocked (w_queue w) (le_agent_id ev) then Inl ''agent no longer accepts learning events''
      else (case apply_event now new_id (w_bundles w (le_agent_id ev)) ev of
              Inl e \<Rightarrow> Inl (describe e)
            | Inr (_, b) \<Rightarrow> Inr (w\<lparr>w_bundles := (w_bundles w)(le_agent_id ev \<mapsto> b),
                                 w_applied := record_application (w_applied w) ev\<rparr>)))"

text \<open>What a failed application leaves: at most the bundle's empty skeleton.\<close>

definition after_failure :: "event \<Rightarrow> world \<Rightarrow> world" where
  "after_failure ev w =
     (if is_blocked (w_queue w) (le_agent_id ev) then w
      else w\<lparr>w_bundles := (w_bundles w)(le_agent_id ev \<mapsto> ensure_bundle (w_bundles w (le_agent_id ev)))\<rparr>)"

definition work_one ::
    "(knowledge_error \<Rightarrow> string) \<Rightarrow> int \<Rightarrow> string \<Rightarrow> string \<Rightarrow> string \<Rightarrow> world \<Rightarrow> world" where
  "work_one describe now new_id worker agent w =
     (case claim_next (w_queue w) agent worker now of
        Inl _ \<Rightarrow> w
      | Inr (None, q) \<Rightarrow> w\<lparr>w_queue := q\<rparr>
      | Inr (Some ev, q) \<Rightarrow>
          (case apply_claimed describe now new_id ev (w\<lparr>w_queue := q\<rparr>) of
             Inr w' \<Rightarrow> (case mark_delivered (w_queue w') (le_event_id ev) now of
                          Inr q' \<Rightarrow> w'\<lparr>w_queue := q'\<rparr> | Inl _ \<Rightarrow> w')
           | Inl message \<Rightarrow>
               (let w' = after_failure ev (w\<lparr>w_queue := q\<rparr>)
                in case release (w_queue w') (le_event_id ev) message of
                     Inr q' \<Rightarrow> w'\<lparr>w_queue := q'\<rparr> | Inl _ \<Rightarrow> w')))"

definition tick :: "(knowledge_error \<Rightarrow> string) \<Rightarrow> int \<Rightarrow> string \<Rightarrow> string \<Rightarrow> world \<Rightarrow> world" where
  "tick describe now new_id worker w =
     (let w1 = w\<lparr>w_queue := snd (reclaim_stale (w_queue w) now)\<rparr>
      in foldl (\<lambda>w agent. work_one describe now new_id worker agent w) w1 (pending_agents (w_queue w1)))"

datatype delivery = Delivered | TimedOut | QueueFailed queue_error | ApplyFailed string

text \<open>The polls before the deadline are the fuel; each has its own clock and fresh identifier.\<close>

fun deliver_loop ::
    "(knowledge_error \<Rightarrow> string) \<Rightarrow> (nat \<Rightarrow> int) \<Rightarrow> (nat \<Rightarrow> string) \<Rightarrow> string \<Rightarrow> string \<Rightarrow> string \<Rightarrow> nat
     \<Rightarrow> world \<Rightarrow> delivery \<times> world" where
  "deliver_loop describe clock ids agent worker target 0 w = (TimedOut, w)"
| "deliver_loop describe clock ids agent worker target (Suc n) w =
     (if event_status (w_queue w) target = Some QDelivered then (Delivered, w)
      else
        (case claim_next (w_queue w) agent worker (clock n) of
           Inl e \<Rightarrow> (QueueFailed e, w)
         | Inr (None, q) \<Rightarrow> deliver_loop describe clock ids agent worker target n (w\<lparr>w_queue := q\<rparr>)
         | Inr (Some ev, q) \<Rightarrow>
             (case apply_claimed describe (clock n) (ids n) ev (w\<lparr>w_queue := q\<rparr>) of
                Inr w' \<Rightarrow>
                  (case mark_delivered (w_queue w') (le_event_id ev) (clock n) of
                     Inl e \<Rightarrow> (QueueFailed e, w')
                   | Inr q' \<Rightarrow>
                       if le_event_id ev = target then (Delivered, w'\<lparr>w_queue := q'\<rparr>)
                       else deliver_loop describe clock ids agent worker target n (w'\<lparr>w_queue := q'\<rparr>))
              | Inl message \<Rightarrow>
                  (let w' = after_failure ev (w\<lparr>w_queue := q\<rparr>)
                   in case release (w_queue w') (le_event_id ev) message of
                        Inl e \<Rightarrow> (QueueFailed e, w')
                      | Inr q' \<Rightarrow> (ApplyFailed message, w'\<lparr>w_queue := q'\<rparr>)))))"

definition deliver_through ::
    "(knowledge_error \<Rightarrow> string) \<Rightarrow> (nat \<Rightarrow> int) \<Rightarrow> (nat \<Rightarrow> string) \<Rightarrow> nat \<Rightarrow> string \<Rightarrow> event_payload \<Rightarrow> string \<Rightarrow> int
     \<Rightarrow> world \<Rightarrow> delivery \<times> world" where
  "deliver_through describe clock ids polls agent payload event_id now w =
     (case enqueue (w_queue w) agent payload event_id now of
        Inl e \<Rightarrow> (QueueFailed e, w)
      | Inr (_, q) \<Rightarrow>
          deliver_loop describe clock ids agent (''deliver-through-'' @ event_id) event_id polls (w\<lparr>w_queue := q\<rparr>))"

section \<open>Loops are steps\<close>

lemma fence_free_queue [simp]: "fence_free (w\<lparr>w_queue := q\<rparr>) a = fence_free w a"
  by (simp add: fence_free_def)

lemma lstep_eq: "lstep w w1 \<Longrightarrow> w1 = w2 \<Longrightarrow> lstep w w2"
  by simp

text \<open>A worker that finds the fence free takes its event from the claim to the acknowledgement.\<close>

lemma steps_to_check:
  assumes "w_hands w = hs @ [(e, Claimed)]" "fence_free w (le_agent_id e)"
  shows "lstep w (w\<lparr>w_hands := hs @ [(e, Fenced)]\<rparr>)"
  using lstep.take_fence [of w hs e "[]"] assms by simp

lemma work_steps:
  assumes claim: "claim_next (w_queue w) a worker now = Inr (Some e, q)" and free: "fence_free w (le_agent_id e)"
  shows "lstep\<^sup>*\<^sup>* w (w\<lparr>w_queue := q, w_hands := w_hands w @ [(e, Fenced)]\<rparr>)"
proof -
  let ?w1 = "w\<lparr>w_queue := q, w_hands := w_hands w @ [(e, Claimed)]\<rparr>"
  have "lstep w ?w1" by (rule lstep.claim [OF claim])
  moreover have "fence_free ?w1 (le_agent_id e)" using free by (simp add: fence_free_def holds_fence_def)
  then have "lstep ?w1 (?w1\<lparr>w_hands := w_hands w @ [(e, Fenced)]\<rparr>)" by (intro steps_to_check) simp_all
  then have "lstep ?w1 (w\<lparr>w_queue := q, w_hands := w_hands w @ [(e, Fenced)]\<rparr>)" by simp
  ultimately show ?thesis by (meson converse_rtranclp_into_rtranclp r_into_rtranclp)
qed

lemma lstep_trans: "lstep\<^sup>*\<^sup>* u v \<Longrightarrow> lstep v w \<Longrightarrow> lstep\<^sup>*\<^sup>* u w"
  by (rule rtranclp.rtrancl_into_rtrancl)

lemma apply_claimed_Inr:
  assumes "apply_claimed describe now new_id e w = Inr w'"
  obtains changed b where "\<not> is_blocked (w_queue w) (le_agent_id e)"
    "apply_event now new_id (w_bundles w (le_agent_id e)) e = Inr (changed, b)"
    "w' = w\<lparr>w_bundles := (w_bundles w)(le_agent_id e \<mapsto> b), w_applied := record_application (w_applied w) e\<rparr>"
  using assms by (auto simp: apply_claimed_def split: if_splits sum.splits)

lemma apply_claimed_Inl:
  assumes "apply_claimed describe now new_id e w = Inl message"
  obtains "is_blocked (w_queue w) (le_agent_id e)"
  | err where "\<not> is_blocked (w_queue w) (le_agent_id e)"
    "apply_event now new_id (w_bundles w (le_agent_id e)) e = Inl err"
  using assms by (auto simp: apply_claimed_def split: if_splits sum.splits)

text \<open>A worker with the fence and the event at the end of the hands.\<close>

lemma applied_steps:
  assumes app: "apply_claimed describe now new_id e w = Inr w'"
  shows "lstep\<^sup>*\<^sup>* (w\<lparr>w_hands := w_hands w @ [(e, Fenced)]\<rparr>) (w'\<lparr>w_hands := w_hands w @ [(e, Applied)]\<rparr>)"
  using app
proof (cases rule: apply_claimed_Inr)
  case (1 changed b)
  let ?w0 = "w\<lparr>w_hands := w_hands w @ [(e, Fenced)]\<rparr>"
  let ?w1 = "w\<lparr>w_hands := w_hands w @ [(e, Passed)]\<rparr>"
  have "lstep ?w0 (?w0\<lparr>w_hands := w_hands w @ [(e, Passed)]\<rparr>)"
    using lstep.pass [of ?w0 "w_hands w" e "[]"] 1(1) by simp
  then have s: "lstep ?w0 ?w1" by simp
  have "lstep ?w1 (?w1\<lparr>w_hands := w_hands w @ [(e, Applied)],
      w_bundles := (w_bundles ?w1)(le_agent_id e \<mapsto> b), w_applied := record_application (w_applied ?w1) e\<rparr>)"
    by (rule lstep.apply_ok [of ?w1 "w_hands w" e "[]"]) (use 1(2) in simp_all)
  then have "lstep ?w1 (w'\<lparr>w_hands := w_hands w @ [(e, Applied)]\<rparr>)"
    by (rule lstep_eq) (rule world.equality; simp add: 1(3))
  with s show ?thesis by (meson lstep_trans r_into_rtranclp)
qed

lemma failed_steps:
  assumes app: "apply_claimed describe now new_id e w = Inl message"
  shows "lstep\<^sup>*\<^sup>* (w\<lparr>w_hands := w_hands w @ [(e, Fenced)]\<rparr>)
    (after_failure e w\<lparr>w_hands := w_hands w @ [(e, Failed message)]\<rparr>)"
  using app
proof (cases rule: apply_claimed_Inl)
  case 1
  let ?w0 = "w\<lparr>w_hands := w_hands w @ [(e, Fenced)]\<rparr>"
  have "lstep ?w0 (?w0\<lparr>w_hands := w_hands w @ [(e, Failed message)]\<rparr>)"
    using lstep.refuse [of ?w0 "w_hands w" e "[]"] 1 by simp
  then show ?thesis using 1 by (simp add: after_failure_def r_into_rtranclp)
next
  case (2 err)
  let ?w0 = "w\<lparr>w_hands := w_hands w @ [(e, Fenced)]\<rparr>"
  let ?w1 = "w\<lparr>w_hands := w_hands w @ [(e, Passed)]\<rparr>"
  have "lstep ?w0 (?w0\<lparr>w_hands := w_hands w @ [(e, Passed)]\<rparr>)"
    using lstep.pass [of ?w0 "w_hands w" e "[]"] 2(1) by simp
  then have s: "lstep ?w0 ?w1" by simp
  have "lstep ?w1 (?w1\<lparr>w_hands := w_hands w @ [(e, Failed message)],
      w_bundles := (w_bundles ?w1)(le_agent_id e \<mapsto> ensure_bundle (w_bundles ?w1 (le_agent_id e)))\<rparr>)"
    by (rule lstep.apply_fails [of ?w1 "w_hands w" e "[]"]) (use 2(2) in simp_all)
  then have "lstep ?w1 (after_failure e w\<lparr>w_hands := w_hands w @ [(e, Failed message)]\<rparr>)"
    by (rule lstep_eq) (rule world.equality; simp add: after_failure_def 2(1))
  with s show ?thesis by (meson lstep_trans r_into_rtranclp)
qed

lemma drop_last_step: "lstep (w\<lparr>w_hands := w_hands w @ [h]\<rparr>) w"
  by (rule lstep_eq [OF lstep.abandon [of _ "w_hands w" h "[]"]]) simp_all

lemma ack_last_step:
  "mark_delivered (w_queue w) (le_event_id e) now = Inr q \<Longrightarrow>
    lstep (w\<lparr>w_hands := w_hands w @ [(e, Applied)]\<rparr>) (w\<lparr>w_queue := q\<rparr>)"
  by (rule lstep_eq [OF lstep.ack [of _ "w_hands w" e "[]"]]) (simp_all add: world.equality)

lemma release_last_step:
  "release (w_queue w) (le_event_id e) message = Inr q \<Longrightarrow>
    lstep (w\<lparr>w_hands := w_hands w @ [(e, Failed message)]\<rparr>) (w\<lparr>w_queue := q\<rparr>)"
  by (rule lstep_eq [OF lstep.release [of _ "w_hands w" e message "[]"]]) (simp_all add: world.equality)

lemma loop_hands [simp]:
  "w_hands (after_failure e w) = w_hands w"
  "apply_claimed describe now new_id e w = Inr w' \<Longrightarrow> w_hands w' = w_hands w"
  "w_deletion (after_failure e w) = w_deletion w"
  "apply_claimed describe now new_id e w = Inr w' \<Longrightarrow> w_deletion w' = w_deletion w"
  "w_queue (after_failure e w) = w_queue w"
  "apply_claimed describe now new_id e w = Inr w' \<Longrightarrow> w_queue w' = w_queue w"
  by (auto simp: after_failure_def elim: apply_claimed_Inr)

lemma work_one_steps:
  assumes free: "\<And>a. fence_free w a"
  shows "lstep\<^sup>*\<^sup>* w (work_one describe now new_id worker agent w)"
proof (cases "claim_next (w_queue w) agent worker now")
  case (Inr r)
  obtain ev q where r: "r = (ev, q)" by (cases r)
  show ?thesis
  proof (cases ev)
    case None
    then show ?thesis using lstep.claim_none Inr r by (auto simp: work_one_def)
  next
    case (Some e)
    let ?w = "w\<lparr>w_queue := q\<rparr>"
    have start: "lstep\<^sup>*\<^sup>* w (?w\<lparr>w_hands := w_hands ?w @ [(e, Fenced)]\<rparr>)"
      using work_steps [of w agent worker now e q] Inr r Some free by simp
    show ?thesis
    proof (cases "apply_claimed describe now new_id e ?w")
      case app: (Inr w')
      have "lstep\<^sup>*\<^sup>* w (w'\<lparr>w_hands := w_hands w' @ [(e, Applied)]\<rparr>)"
        using rtranclp_trans [OF start applied_steps [OF app]] loop_hands(2) [OF app] by simp
      note applied = this
      have eq: "work_one describe now new_id worker agent w =
          (case mark_delivered (w_queue w') (le_event_id e) now of Inr q' \<Rightarrow> w'\<lparr>w_queue := q'\<rparr> | Inl _ \<Rightarrow> w')"
        using Inr r Some app by (simp add: work_one_def)
      show ?thesis
      proof (cases "mark_delivered (w_queue w') (le_event_id e) now")
        case ack: (Inr q')
        show ?thesis unfolding eq ack sum.case by (rule lstep_trans [OF applied ack_last_step [OF ack]])
      qed (simp add: eq lstep_trans [OF applied drop_last_step])
    next
      case app: (Inl message)
      have "lstep\<^sup>*\<^sup>* w (after_failure e ?w\<lparr>w_hands := w_hands (after_failure e ?w) @ [(e, Failed message)]\<rparr>)"
        using rtranclp_trans [OF start failed_steps [OF app]] by simp
      note failed = this
      have eq: "work_one describe now new_id worker agent w =
          (case release (w_queue (after_failure e ?w)) (le_event_id e) message of
             Inr q' \<Rightarrow> (after_failure e ?w)\<lparr>w_queue := q'\<rparr> | Inl _ \<Rightarrow> after_failure e ?w)"
        using Inr r Some app by (simp add: work_one_def Let_def)
      show ?thesis
      proof (cases "release (w_queue (after_failure e ?w)) (le_event_id e) message")
        case rel: (Inr q')
        show ?thesis unfolding eq rel sum.case by (rule lstep_trans [OF failed release_last_step [OF rel]])
      qed (simp add: eq lstep_trans [OF failed drop_last_step])
    qed
  qed
qed (simp add: work_one_def)

lemma work_one_others:
  "w_hands (work_one describe now new_id worker agent w) = w_hands w"
  "w_deletion (work_one describe now new_id worker agent w) = w_deletion w"
  by (auto simp: work_one_def Let_def split: sum.splits option.splits prod.splits)

lemma fence_free_same: "w_hands w' = w_hands w \<Longrightarrow> w_deletion w' = w_deletion w \<Longrightarrow> fence_free w' a = fence_free w a"
  by (simp add: fence_free_def)

lemma work_all_steps:
  "(\<And>a. fence_free w a) \<Longrightarrow>
    lstep\<^sup>*\<^sup>* w (foldl (\<lambda>w agent. work_one describe now new_id worker agent w) w agents)"
proof (induction agents arbitrary: w)
  case (Cons agent agents)
  let ?w = "work_one describe now new_id worker agent w"
  have "fence_free ?w a" for a
    using Cons.prems fence_free_same work_one_others by metis
  then have "lstep\<^sup>*\<^sup>* ?w (foldl (\<lambda>w agent. work_one describe now new_id worker agent w) ?w agents)"
    by (rule Cons.IH)
  with work_one_steps [OF Cons.prems]
  have "lstep\<^sup>*\<^sup>* w (foldl (\<lambda>w agent. work_one describe now new_id worker agent w) ?w agents)"
    by (rule rtranclp_trans)
  then show ?case by simp
qed simp

section \<open>Delivery ends\<close>

text \<open>The events that have to be delivered before, and with, the one of sequence \<open>n\<close>.\<close>

definition in_backlog :: "string \<Rightarrow> int \<Rightarrow> 'p queue_row \<Rightarrow> bool" where
  "in_backlog a n r \<longleftrightarrow> q_agent_id r = a \<and> undelivered r \<and> q_sequence r \<le> n"

definition backlog :: "'p queue \<Rightarrow> string \<Rightarrow> int \<Rightarrow> nat" where
  "backlog q a n = length (filter (in_backlog a n) (lq_rows q))"

definition idle :: "'p queue \<Rightarrow> string \<Rightarrow> bool" where
  "idle q a \<longleftrightarrow> (\<forall>r \<in> set (lq_rows q). q_agent_id r = a \<longrightarrow> q_status r \<noteq> QClaimed)"

lemma idle_reset_stale: "idle q a \<Longrightarrow> reset_stale (\<lambda>x. x = a) cutoff q = q"
proof -
  assume "idle q a"
  then have "map (\<lambda>r. if q_agent_id r = a \<and> claim_is_stale cutoff r then unclaim r else r) (lq_rows q) = lq_rows q"
    by (intro map_idI) (auto simp: idle_def claim_is_stale_def)
  then show ?thesis by (simp add: reset_stale_def)
qed

lemma head_row_exists:
  assumes "r \<in> set (lq_rows q)" "q_agent_id r = a" "undelivered r"
  obtains h where "head_row q a = Some h"
proof -
  have "r \<in> set (sort_key q_sequence (filter (\<lambda>r. q_agent_id r = a \<and> undelivered r) (lq_rows q)))"
    using assms by simp
  then have "sort_key q_sequence (filter (\<lambda>r. q_agent_id r = a \<and> undelivered r) (lq_rows q)) \<noteq> []"
    by (metis list.set(1) empty_iff)
  then obtain h rest where
    "sort_key q_sequence (filter (\<lambda>r. q_agent_id r = a \<and> undelivered r) (lq_rows q)) = h # rest"
    by (cases "sort_key q_sequence (filter (\<lambda>r. q_agent_id r = a \<and> undelivered r) (lq_rows q))") auto
  then have "head_row q a = Some h" by (simp add: head_row_def)
  then show ?thesis by (rule that)
qed

lemma claim_next_idle:
  assumes "validate_agent_id a = Inr ()" "trim worker \<noteq> []" "\<not> is_blocked q a" "idle q a"
    and head: "head_row q a = Some h"
  shows "claim_next q a worker now = Inr (Some \<lparr>le_event_id = q_event_id h, le_agent_id = a,
      le_sequence = q_sequence h, le_payload = q_payload h,
      le_attempts = min (q_attempts h + 1) (2 ^ 32 - 1)\<rparr>, set_claim (q_event_id h) worker now q)"
proof -
  have "q_status h = QPending"
    using head_row_Some(1-3) [OF head] assms(4) by (auto simp: idle_def undelivered_def)
  then show ?thesis
    using assms idle_reset_stale [OF assms(4)]
    by (auto simp: claim_next_def Let_def is_blocked_def split: option.splits)
qed

text \<open>Delivering the head of an idle line shortens the backlog and leaves the line idle.\<close>

lemma find_replaced:
  "\<forall>r \<in> set xs. q_event_id r \<noteq> q_event_id d \<Longrightarrow>
    find (\<lambda>r. q_event_id r = q_event_id d) (xs @ d # ys) = Some d"
  by (induction xs) auto

lemma find_others:
  "q_event_id d \<noteq> i \<Longrightarrow> q_event_id h \<noteq> i \<Longrightarrow>
    find (\<lambda>r. q_event_id r = i) (xs @ d # ys) = find (\<lambda>r. q_event_id r = i) (xs @ h # ys)"
  by (induction xs) auto

lemma split_row:
  assumes "queue_inv q" "r \<in> set (lq_rows q)"
  obtains xs ys where "lq_rows q = xs @ r # ys" "\<forall>s \<in> set xs \<union> set ys. q_event_id s \<noteq> q_event_id r"
proof -
  obtain xs ys where rows: "lq_rows q = xs @ r # ys" using assms(2) by (meson split_list)
  have "distinct (map q_event_id (xs @ r # ys))" using assms(1) rows by (simp add: queue_inv_def)
  then have "q_event_id s \<noteq> q_event_id r" if "s \<in> set xs \<union> set ys" for s
    using that by (auto simp: image_iff)
  then show ?thesis using that rows by blast
qed

lemma claimed_head:
  assumes inv: "queue_inv q" and idle: "idle q a" and head: "head_row q a = Some h"
  obtains xs ys where "lq_rows q = xs @ h # ys" "q_status h = QPending"
    "\<forall>r \<in> set xs \<union> set ys. q_event_id r \<noteq> q_event_id h"
    "set_claim (q_event_id h) worker now q = q\<lparr>lq_rows := xs @ h\<lparr>q_status := QClaimed,
       q_claimed_by := Some worker, q_claimed_at := Some now, q_attempts := q_attempts h + 1\<rparr> # ys\<rparr>"
proof -
  note h = head_row_Some [OF head]
  have pend: "q_status h = QPending" using h(1-3) idle by (auto simp: idle_def undelivered_def)
  obtain xs ys where rows: "lq_rows q = xs @ h # ys"
    and others: "\<forall>s \<in> set xs \<union> set ys. q_event_id s \<noteq> q_event_id h"
    by (rule split_row [OF inv h(1)])
  have "map (\<lambda>r. if q_event_id r = q_event_id h \<and> q_status r = QPending
         then r\<lparr>q_status := QClaimed, q_claimed_by := Some worker, q_claimed_at := Some now,
                q_attempts := q_attempts r + 1\<rparr> else r) zs = zs" if "set zs \<subseteq> set xs \<union> set ys" for zs
    using others that by (intro map_idI) auto
  then have "set_claim (q_event_id h) worker now q = q\<lparr>lq_rows := xs @ h\<lparr>q_status := QClaimed,
       q_claimed_by := Some worker, q_claimed_at := Some now, q_attempts := q_attempts h + 1\<rparr> # ys\<rparr>"
    using pend by (simp add: set_claim_def rows)
  then show ?thesis by (rule that [OF rows pend others])
qed

lemma deliver_head:
  assumes inv: "queue_inv q" and idle: "idle q a" and head: "head_row q a = Some h" and le: "q_sequence h \<le> n"
  obtains q' where "mark_delivered (set_claim (q_event_id h) worker now q) (q_event_id h) now = Inr q'"
    "idle q' a" "backlog q' a n < backlog q a n" "event_status q' (q_event_id h) = Some QDelivered"
    "\<And>i. i \<noteq> q_event_id h \<Longrightarrow> event_status q' i = event_status q i"
    "is_blocked q' = is_blocked q" "queue_inv q'"
    "\<And>r. r \<in> set (lq_rows q) \<Longrightarrow> r = h \<or> r \<in> set (lq_rows q')"
proof -
  note h = head_row_Some [OF head]
  let ?c = "h\<lparr>q_status := QClaimed, q_claimed_by := Some worker, q_claimed_at := Some now,
                q_attempts := q_attempts h + 1\<rparr>"
  obtain xs ys where rows: "lq_rows q = xs @ h # ys" and pend: "q_status h = QPending"
    and others: "\<forall>r \<in> set xs \<union> set ys. q_event_id r \<noteq> q_event_id h"
    and claimed: "set_claim (q_event_id h) worker now q = q\<lparr>lq_rows := xs @ ?c # ys\<rparr>"
    by (rule claimed_head [OF inv idle head])
  let ?d = "?c\<lparr>q_status := QDelivered, q_delivered_at := Some now, q_claimed_by := None, q_claimed_at := None\<rparr>"
  let ?q1 = "q\<lparr>lq_rows := xs @ ?c # ys\<rparr>"
  let ?q2 = "q\<lparr>lq_rows := xs @ ?d # ys\<rparr>"
  have "map (\<lambda>r. if claimed_event (q_event_id h) r then r\<lparr>q_status := QDelivered,
      q_delivered_at := Some now, q_claimed_by := None, q_claimed_at := None\<rparr> else r) zs = zs"
    if "set zs \<subseteq> set xs \<union> set ys" for zs
    using others that by (intro map_idI) (auto simp: claimed_event_def)
  then have mark: "mark_delivered ?q1 (q_event_id h) now = Inr ?q2"
    by (simp add: mark_delivered_def claimed_event_def)
  have inv1: "queue_inv ?q1" using set_claim_inv [OF inv head] claimed by metis
  show ?thesis
  proof (rule that)
    show "mark_delivered (set_claim (q_event_id h) worker now q) (q_event_id h) now = Inr ?q2"
      unfolding claimed by (rule mark)
    show "idle ?q2 a" using idle by (auto simp: idle_def rows)
    show "backlog ?q2 a n < backlog q a n"
      using h(2,3) le by (simp add: backlog_def rows in_backlog_def undelivered_def)
    show "event_status ?q2 (q_event_id h) = Some QDelivered"
      using find_replaced [of xs ?d ys] others by (simp add: event_status_def)
    show "event_status ?q2 i = event_status q i" if "i \<noteq> q_event_id h" for i
      using find_others [of ?d i h xs ys] that by (simp add: event_status_def rows)
    show "is_blocked ?q2 = is_blocked q" by (simp add: is_blocked_def agent_state_of_def fun_eq_iff)
    show "queue_inv ?q2" by (rule mark_delivered_inv [OF inv1 mark])
    show "r = h \<or> r \<in> set (lq_rows ?q2)" if "r \<in> set (lq_rows q)" for r using that rows by auto
  qed
qed

text \<open>A head that cannot be applied goes back to where it was.\<close>

lemma release_head:
  assumes inv: "queue_inv q" and idle: "idle q a" and head: "head_row q a = Some h"
  obtains q' where "release (set_claim (q_event_id h) worker now q) (q_event_id h) message = Inr q'"
    "\<And>i. event_status q' i = event_status q i"
proof -
  note h = head_row_Some [OF head]
  let ?c = "h\<lparr>q_status := QClaimed, q_claimed_by := Some worker, q_claimed_at := Some now,
                q_attempts := q_attempts h + 1\<rparr>"
  obtain xs ys where rows: "lq_rows q = xs @ h # ys" and pend: "q_status h = QPending"
    and others: "\<forall>r \<in> set xs \<union> set ys. q_event_id r \<noteq> q_event_id h"
    and claimed: "set_claim (q_event_id h) worker now q = q\<lparr>lq_rows := xs @ ?c # ys\<rparr>"
    by (rule claimed_head [OF inv idle head])
  let ?d = "(unclaim ?c)\<lparr>q_last_error := Some (truncate_chars message MAX_LAST_ERROR_CHARS)\<rparr>"
  let ?q1 = "q\<lparr>lq_rows := xs @ ?c # ys\<rparr>"
  let ?q2 = "q\<lparr>lq_rows := xs @ ?d # ys\<rparr>"
  have "map (\<lambda>r. if claimed_event (q_event_id h) r
      then (unclaim r)\<lparr>q_last_error := Some (truncate_chars message MAX_LAST_ERROR_CHARS)\<rparr> else r) zs = zs"
    if "set zs \<subseteq> set xs \<union> set ys" for zs
    using others that by (intro map_idI) (auto simp: claimed_event_def)
  then have rel: "release ?q1 (q_event_id h) message = Inr ?q2"
    by (simp add: release_def claimed_event_def)
  show ?thesis
  proof (rule that)
    show "release (set_claim (q_event_id h) worker now q) (q_event_id h) message = Inr ?q2"
      unfolding claimed by (rule rel)
    show "event_status ?q2 i = event_status q i" for i
    proof (cases "i = q_event_id h")
      case True
      then show ?thesis
        using find_replaced [of xs ?d ys] find_replaced [of xs h ys] others pend
        by (simp add: event_status_def rows)
    next
      case False
      then show ?thesis using find_others [of ?d i h xs ys] by (simp add: event_status_def rows)
    qed
  qed
qed

lemma event_status_row:
  "queue_inv q \<Longrightarrow> r \<in> set (lq_rows q) \<Longrightarrow> event_status q (q_event_id r) = Some (q_status r)"
proof -
  assume "queue_inv q" "r \<in> set (lq_rows q)"
  then obtain xs ys where "lq_rows q = xs @ r # ys" "\<forall>s \<in> set xs \<union> set ys. q_event_id s \<noteq> q_event_id r"
    by (rule split_row)
  then show ?thesis using find_replaced [of xs r ys] by (simp add: event_status_def)
qed

lemma deliver_loop_ends:
  assumes agent: "validate_agent_id a = Inr ()" "trim worker \<noteq> []"
    and "queue_inv (w_queue w)" "\<not> is_blocked (w_queue w) a" "idle (w_queue w) a"
    and "r \<in> set (lq_rows (w_queue w))" "q_agent_id r = a" "undelivered r"
    and "backlog (w_queue w) a (q_sequence r) \<le> polls"
    and "deliver_loop describe clock ids a worker (q_event_id r) polls w = (res, w')"
  shows "res = Delivered \<and> event_status (w_queue w') (q_event_id r) = Some QDelivered
    \<or> (\<exists>message. res = ApplyFailed message) \<and> event_status (w_queue w') (q_event_id r) = Some QPending"
  using assms(3-10)
proof (induction polls arbitrary: w)
  case 0
  then show ?case by (auto simp: backlog_def in_backlog_def filter_empty_conv)
next
  case (Suc n)
  let ?q = "w_queue w"
  obtain h where head: "head_row ?q a = Some h" by (rule head_row_exists [OF Suc.prems(4-6)])
  note hr = head_row_Some [OF head]
  let ?ev = "\<lparr>le_event_id = q_event_id h, le_agent_id = a, le_sequence = q_sequence h,
    le_payload = q_payload h, le_attempts = min (q_attempts h + 1) (2 ^ 32 - 1)\<rparr>"
  let ?q1 = "set_claim (q_event_id h) worker (clock n) ?q"
  have claim: "claim_next ?q a worker (clock n) = Inr (Some ?ev, ?q1)"
    by (rule claim_next_idle [OF agent Suc.prems(2,3) head])
  have le: "q_sequence h \<le> q_sequence r" by (rule hr(4) [OF Suc.prems(4-6)])
  have status: "event_status ?q (q_event_id r) = Some (q_status r)"
    by (rule event_status_row [OF Suc.prems(1,4)])
  have pend: "q_status r = QPending"
    using Suc.prems(3-6) by (auto simp: idle_def undelivered_def)
  show ?case
  proof (cases "apply_claimed describe (clock n) (ids n) ?ev (w\<lparr>w_queue := ?q1\<rparr>)")
    case app: (Inr w1)
    then have q1: "w_queue w1 = ?q1" by simp
    obtain q2 where q2: "mark_delivered ?q1 (q_event_id h) (clock n) = Inr q2" "idle q2 a"
      "backlog q2 a (q_sequence r) < backlog ?q a (q_sequence r)"
      "event_status q2 (q_event_id h) = Some QDelivered" "is_blocked q2 = is_blocked ?q" "queue_inv q2"
      "r = h \<or> r \<in> set (lq_rows q2)"
      by (rule deliver_head [OF Suc.prems(1,3) head le]) (use Suc.prems(4) in blast)
    show ?thesis
    proof (cases "q_event_id h = q_event_id r")
      case True
      then show ?thesis using Suc.prems(8) claim app q1 q2(1,4) status pend by auto
    next
      case False
      then have "deliver_loop describe clock ids a worker (q_event_id r) n (w1\<lparr>w_queue := q2\<rparr>) = (res, w')"
        using Suc.prems(8) claim app q1 q2(1) status pend by simp
      moreover have "r \<in> set (lq_rows q2)" using q2(7) False by auto
      ultimately show ?thesis
        using Suc.IH [of "w1\<lparr>w_queue := q2\<rparr>"] Suc.prems(2,5-7) q2 by simp
    qed
  next
    case app: (Inl message)
    obtain q2 where q2: "release ?q1 (q_event_id h) message = Inr q2"
      "event_status q2 (q_event_id r) = event_status ?q (q_event_id r)"
      by (rule release_head [OF Suc.prems(1,3) head]) blast
    then show ?thesis
      using Suc.prems(8) claim app status pend by (auto simp: Let_def)
  qed
qed

text \<open>What an accepted event adds to the line.\<close>

lemma in_set_dropWhile: "x \<in> set xs \<Longrightarrow> \<not> P x \<Longrightarrow> x \<in> set (dropWhile P xs)"
  by (induction xs) auto

lemma trim_nonempty:
  assumes x: "x \<in> set (chars s)" "\<not> is_whitespace x" shows "trim s \<noteq> []"
proof -
  have "x \<in> set (rev (dropWhile is_whitespace (rev (dropWhile is_whitespace (chars s)))))"
    using x by (simp add: in_set_dropWhile)
  moreover have "x \<noteq> []" using chars_nonempty x(1) by blast
  ultimately show ?thesis unfolding trim_def by fastforce
qed

lemma worker_name_nonblank: "trim (''deliver-through-'' @ i) \<noteq> []"
proof (rule trim_nonempty)
  show "''d'' \<in> set (chars (''deliver-through-'' @ i))" by (simp add: is_cont_def byte_def)
  show "\<not> is_whitespace ''d''" by code_simp
qed

lemma enqueued_line:
  assumes inv: "queue_inv q" and idle: "idle q a" and enq: "enqueue q a p i now = Inr (ev, q')"
  obtains r where "validate_agent_id a = Inr ()" "queue_inv q'" "\<not> is_blocked q' a" "idle q' a"
    "r \<in> set (lq_rows q')" "q_agent_id r = a" "undelivered r" "q_event_id r = i"
    "backlog q' a (q_sequence r) \<le> Suc (length (filter (\<lambda>r. q_agent_id r = a \<and> undelivered r) (lq_rows q)))"
proof -
  have valid: "validate_agent_id a = Inr ()" using enq by (simp add: enqueue_def try_bind_Inr)
  show ?thesis
    using enq
  proof (cases rule: enqueue_Inr)
    case (1 st)
    let ?r = "\<lparr>q_event_id = i, q_agent_id = a, q_sequence = as_next_sequence st, q_payload = p,
        q_status = QPending, q_claimed_by = None, q_claimed_at = None, q_attempts = 0,
        q_last_error = None, q_created_at = now, q_delivered_at = None\<rparr>"
    show ?thesis
    proof (rule that [of ?r])
      show "validate_agent_id a = Inr ()" by (rule valid)
      show "queue_inv q'" by (rule enqueue_inv [OF inv enq])
      show "\<not> is_blocked q' a"
        using 1(2,6) by (simp add: is_blocked_def agent_state_of_def update_conv')
      show "idle q' a" using idle by (auto simp: idle_def 1(5))
      have "length (filter (in_backlog a n) rs) \<le> length (filter (\<lambda>r. q_agent_id r = a \<and> undelivered r) rs)"
        for n and rs :: "'a queue_row list"
        by (rule length_filter_mono) (simp add: in_backlog_def)
      then show "backlog q' a (q_sequence ?r)
          \<le> Suc (length (filter (\<lambda>r. q_agent_id r = a \<and> undelivered r) (lq_rows q)))"
        by (simp add: backlog_def 1(5) le_SucI)
    qed (simp_all add: 1(5) undelivered_def)
  qed
qed

section \<open>Properties\<close>

lemma learning_queue_facts:
  assumes "reachable linit lstep w"
  shows "in_line (w_applied w)" "queue_inv (w_queue w)"
    "r \<in> set (lq_rows (w_queue w)) \<Longrightarrow> q_status r = QDelivered \<Longrightarrow> q_event_id r \<in> event_ids (w_applied w)"
  using ls.reachable_inv [OF assms] by (auto simp: world_inv_def log_inv_def)

text \<open>C5: However the workers, the callers, deletions, stale claims, crashes of workers and restarts
  interleave, events of an agent take effect in the order they were enqueued: their first
  applications happen in strictly increasing sequence, an event is delivered only after it has been
  applied, and in the table every delivered or claimed event of an agent comes before all its other
  undelivered ones.\<close>

theorem learning_applied_in_order:
  assumes "reachable linit lstep w"
  shows "sorted_wrt (\<lambda>x y. le_agent_id x = le_agent_id y \<longrightarrow> le_sequence x < le_sequence y) (w_applied w)
    \<and> (\<forall>r \<in> set (lq_rows (w_queue w)). q_status r = QDelivered \<longrightarrow> q_event_id r \<in> event_ids (w_applied w))
    \<and> (\<forall>r \<in> set (lq_rows (w_queue w)). \<forall>s \<in> set (lq_rows (w_queue w)).
         q_agent_id r = q_agent_id s \<longrightarrow> q_status r \<noteq> QPending \<longrightarrow> undelivered s \<longrightarrow> r \<noteq> s \<longrightarrow>
         q_sequence r < q_sequence s)"
  using learning_queue_facts [OF assms] queue_invD(3) by (auto simp: in_line_def [symmetric])

text \<open>One event from its enqueueing to its acknowledgement.\<close>

definition first_row :: "queue_status \<Rightarrow> event_payload queue_row" where
  "first_row st = \<lparr>q_event_id = ''e1'', q_agent_id = ''main'', q_sequence = 1,
     q_payload = CuratorState ''State'' ''Curated'' ''old'', q_status = st,
     q_claimed_by = (if st = QClaimed then Some ''w'' else None),
     q_claimed_at = (if st = QClaimed then Some 7 else None),
     q_attempts = (if st = QPending then 0 else 1), q_last_error = None, q_created_at = 5,
     q_delivered_at = (if st = QDelivered then Some 12 else None)\<rparr>"

definition one_row :: "queue_status \<Rightarrow> event_payload queue" where
  "one_row st = \<lparr>lq_rows = [first_row st],
     lq_states = [(''main'', \<lparr>as_next_sequence = 2, as_enqueue_blocked = False\<rparr>)]\<rparr>"

definition no_rows :: "event_payload queue" where
  "no_rows = \<lparr>lq_rows = [], lq_states = []\<rparr>"

definition first_world :: "event_payload queue \<Rightarrow> world" where
  "first_world q = \<lparr>w_queue = q, w_bundles = (\<lambda>_. None), w_hands = [],
     w_deletion = (\<lambda>_. NoDeletion), w_applied = []\<rparr>"

definition delivered_world :: world where
  "delivered_world = \<lparr>w_queue = one_row QDelivered, w_bundles = (\<lambda>_. None)(''main'' \<mapsto> after_first),
     w_hands = [], w_deletion = (\<lambda>_. NoDeletion), w_applied = [curator_event ''e1'' 1 ''old'']\<rparr>"

lemma main_valid: "validate_agent_id ''main'' = Inr ()" by code_simp

lemma first_enqueue:
  "enqueue no_rows ''main'' (CuratorState ''State'' ''Curated'' ''old'') ''e1'' 5
    = Inr (curator_event ''e1'' 1 ''old''\<lparr>le_attempts := 0\<rparr>, one_row QPending)"
  by (simp add: enqueue_def main_valid no_rows_def one_row_def first_row_def curator_event_def
      agent_state_of_def default_state_def)

lemma one_row_inv: "queue_inv (one_row QPending)"
  by (rule enqueue_inv [OF _ first_enqueue]) (simp add: queue_inv_def no_rows_def)

lemma one_row_head: "head_row (one_row QPending) ''main'' = Some (first_row QPending)"
  by (simp add: head_row_def one_row_def first_row_def undelivered_def)

lemma first_claim:
  "claim_next (one_row QPending) ''main'' ''w'' 7 = Inr (Some (curator_event ''e1'' 1 ''old''), one_row QClaimed)"
proof -
  have "trim ''w'' \<noteq> []" by (simp add: trim_eval)
  then have "claim_next (one_row QPending) ''main'' ''w'' 7 =
      Inr (Some \<lparr>le_event_id = ''e1'', le_agent_id = ''main'', le_sequence = 1,
        le_payload = CuratorState ''State'' ''Curated'' ''old'', le_attempts = 1\<rparr>,
        set_claim ''e1'' ''w'' 7 (one_row QPending))"
    using claim_next_idle [OF main_valid _ _ _ one_row_head, of "''w''" 7]
    by (simp add: idle_def one_row_def first_row_def is_blocked_def agent_state_of_def)
  then show ?thesis by (simp add: set_claim_def one_row_def first_row_def curator_event_def)
qed

lemma first_ack: "mark_delivered (one_row QClaimed) ''e1'' 12 = Inr (one_row QDelivered)"
  by (simp add: mark_delivered_def one_row_def first_row_def claimed_event_def)

lemma delivered_reachable: "reachable linit lstep delivered_world"
proof -
  let ?ev = "curator_event ''e1'' 1 ''old''"
  let ?w1 = "first_world (one_row QPending)"
  let ?w2 = "?w1\<lparr>w_queue := one_row QClaimed, w_hands := [(?ev, Claimed)]\<rparr>"
  let ?w3 = "?w2\<lparr>w_hands := [(?ev, Fenced)]\<rparr>"
  let ?w4 = "?w3\<lparr>w_hands := [(?ev, Passed)]\<rparr>"
  let ?w5 = "?w4\<lparr>w_hands := [(?ev, Applied)], w_bundles := (\<lambda>_. None)(''main'' \<mapsto> after_first), w_applied := [?ev]\<rparr>"
  have ids: "le_agent_id ?ev = ''main''" "le_event_id ?ev = ''e1''" by (simp_all add: curator_event_def)
  have "linit (first_world no_rows)" by (simp add: linit_def first_world_def no_rows_def)
  then have 0: "reachable linit lstep (first_world no_rows)" by (rule reachable.start)
  have "lstep (first_world no_rows) (first_world no_rows\<lparr>w_queue := one_row QPending\<rparr>)"
    using first_enqueue by (intro lstep.enqueue) (auto simp: first_world_def fresh_id_def event_ids_def)
  then have 1: "reachable linit lstep ?w1" using reachable.step [OF 0] by (simp add: first_world_def)
  have "lstep ?w1 ?w2"
    using lstep.claim [of ?w1 "''main''" "''w''" 7 ?ev "one_row QClaimed"] first_claim by (simp add: first_world_def)
  then have 2: "reachable linit lstep ?w2" by (rule reachable.step [OF 1])
  have "lstep ?w2 ?w3"
    by (rule lstep_eq [OF lstep.take_fence [of _ "[]" ?ev "[]"]])
      (simp_all add: fence_free_def holds_fence_def first_world_def)
  then have 3: "reachable linit lstep ?w3" by (rule reachable.step [OF 2])
  have "lstep ?w3 ?w4"
    by (rule lstep_eq [OF lstep.pass [of _ "[]" ?ev "[]"]])
      (simp_all add: ids is_blocked_def agent_state_of_def one_row_def)
  then have 4: "reachable linit lstep ?w4" by (rule reachable.step [OF 3])
  have "lstep ?w4 ?w5"
    by (rule lstep_eq [OF lstep.apply_ok [of _ "[]" ?ev "[]" 10 "''n''" True after_first]])
      (use after_first_eq in \<open>simp_all add: ids first_world_def apply_event_def ensure_bundle_def
        record_application_def event_ids_def\<close>)
  then have 5: "reachable linit lstep ?w5" by (rule reachable.step [OF 4])
  have "lstep ?w5 delivered_world"
    by (rule lstep_eq [OF lstep.ack [of _ "[]" ?ev "[]" 12 "one_row QDelivered"]])
      (simp_all add: ids first_ack first_world_def delivered_world_def)
  then show ?thesis by (rule reachable.step [OF 5])
qed

theorem learning_applied_in_order_witness:
  "w_applied delivered_world = [curator_event ''e1'' 1 ''old'']
   \<and> (\<exists>r \<in> set (lq_rows (w_queue delivered_world)). q_status r = QDelivered
        \<and> q_event_id r \<in> event_ids (w_applied delivered_world))"
  using learning_applied_in_order [OF delivered_reachable]
  by (simp add: delivered_world_def one_row_def first_row_def)

text \<open>Deletion that has committed stays committed.\<close>

lemma lstep_settled:
  "lstep w w' \<Longrightarrow> settled (w_deletion w a) = Gone \<Longrightarrow> settled (w_deletion w' a) = Gone"
  by (cases rule: lstep.cases) (auto simp: fun_upd_def split: if_splits)

interpretation gone: absorbing linit lstep world_inv "\<lambda>w. settled (w_deletion w a) = Gone" "\<lambda>b. b"
  for a :: string
  by unfold_locales (auto intro: lstep_settled)

lemma settled_Gone_iff: "settled d = Gone \<longleftrightarrow> d = Committed \<or> d = Gone"
  by (cases d) auto

text \<open>C6: A deleted agent leaves nothing behind that learning could bring back: from the commit of
  its deletion on, in every later state, through late workers, callers and restarts, its bundle is
  absent and its queue is blocked, so that no event is enqueued for it.\<close>

theorem deleted_bundle_stays_deleted:
  assumes "reachable linit lstep w" "w_deletion w a = Committed \<or> w_deletion w a = Gone"
    and "lstep\<^sup>*\<^sup>* w w'"
  shows "w_bundles w' a = None \<and> is_blocked (w_queue w') a
    \<and> (\<forall>p i now r. enqueue (w_queue w') a p i now \<noteq> Inr r)"
proof -
  have "settled (w_deletion w' a) = Gone"
    using gone.reachable_final [OF assms(1) _ assms(3), of a] assms(2) settled_Gone_iff by blast
  moreover have "world_inv w'"
    by (rule ls.reachable_inv [OF ls.reachable_rtrancl [OF assms(1,3)]])
  ultimately have absent: "w_bundles w' a = None" and blocked: "is_blocked (w_queue w') a"
    using settled_Gone_iff [of "w_deletion w' a"] by (auto simp: world_inv_def deletion_inv_def)
  have "enqueue (w_queue w') a p i now \<noteq> Inr r" for p i now r
  proof
    assume "enqueue (w_queue w') a p i now = Inr r"
    moreover obtain ev q where "r = (ev, q)" by (cases r)
    ultimately show False
      using blocked
      by (auto elim!: enqueue_Inr simp: is_blocked_def default_state_def split: option.splits)
  qed
  with absent blocked show ?thesis by blast
qed

definition blocked_queue :: "event_payload queue" where
  "blocked_queue = \<lparr>lq_rows = [], lq_states = [(''main'', \<lparr>as_next_sequence = 1, as_enqueue_blocked = True\<rparr>)]\<rparr>"

definition deleted_world :: world where
  "deleted_world = \<lparr>w_queue = blocked_queue, w_bundles = (\<lambda>_. None), w_hands = [],
     w_deletion = (\<lambda>_. NoDeletion)(''main'' := Committed), w_applied = []\<rparr>"

lemma deleted_reachable: "reachable linit lstep deleted_world"
proof -
  let ?w0 = "first_world no_rows"
  let ?d = "\<lambda>d. ?w0\<lparr>w_queue := blocked_queue, w_deletion := (\<lambda>_. NoDeletion)(''main'' := d)\<rparr>"
  have "linit ?w0" by (simp add: linit_def first_world_def no_rows_def)
  then have 0: "reachable linit lstep ?w0" by (rule reachable.start)
  have "set_blocked no_rows ''main'' True = Inr blocked_queue"
    by (simp add: set_blocked_def main_valid no_rows_def blocked_queue_def agent_state_of_def default_state_def)
  then have "lstep ?w0 (?d Blocked)"
    by (intro lstep_eq [OF lstep.block [of _ "''main''" blocked_queue]]) (simp_all add: first_world_def)
  then have 1: "reachable linit lstep (?d Blocked)" by (rule reachable.step [OF 0])
  have "lstep (?d Blocked) (?d FencedOff)"
    by (rule lstep_eq [OF lstep.fence_off [of _ "''main''"]]) (simp_all add: fence_free_def first_world_def)
  then have 2: "reachable linit lstep (?d FencedOff)" by (rule reachable.step [OF 1])
  have "lstep (?d FencedOff) deleted_world"
    by (rule lstep_eq [OF lstep.commit [of _ "''main''"]])
      (simp_all add: first_world_def deleted_world_def fun_eq_iff)
  then show ?thesis by (rule reachable.step [OF 2])
qed

theorem deleted_bundle_stays_deleted_witness:
  "w_bundles deleted_world ''main'' = None \<and> is_blocked (w_queue deleted_world) ''main''"
  using deleted_bundle_stays_deleted [OF deleted_reachable _ rtranclp.rtrancl_refl, of "''main''"]
  by (simp add: deleted_world_def)






text \<open>The daemon's tick is made of the system's steps: reclaiming, and for each agent with a
  pending event the claim, the application under the fence and the acknowledgement or release, so
  that everything proved of all interleavings holds of the worker, whatever the outcomes.\<close>

theorem tick_is_steps:
  assumes "\<And>a. fence_free w a"
  shows "lstep\<^sup>*\<^sup>* w (tick describe now new_id worker w)"
proof -
  let ?w = "w\<lparr>w_queue := snd (reclaim_stale (w_queue w) now)\<rparr>"
  have "lstep w ?w" by (rule lstep.reclaim)
  moreover have "lstep\<^sup>*\<^sup>* ?w (tick describe now new_id worker w)"
    unfolding tick_def Let_def by (rule work_all_steps) (simp add: assms)
  ultimately show ?thesis by (rule converse_rtranclp_into_rtranclp)
qed

theorem tick_is_steps_witness:
  "lstep\<^sup>*\<^sup>* (first_world (one_row QPending)) (tick (\<lambda>_. ''failed'') 7 ''n'' ''w'' (first_world (one_row QPending)))"
  by (rule tick_is_steps) (simp add: fence_free_def first_world_def)

text \<open>C25: Synchronous delivery ends with an answer: when no other worker holds an event of the agent,
  as many polls as there are undelivered events of the agent, and one more, are enough for
  \<open>deliver_through\<close> to deliver its event, or else some event before or at it could not be applied
  and the caller's event is still in the table, pending; it never times out and never finds the
  queue in a wrong state.\<close>

theorem deliver_through_ends:
  assumes "queue_inv (w_queue w)" "idle (w_queue w) a" "enqueue (w_queue w) a p i now = Inr (ev, q)"
    and "length (filter (\<lambda>r. q_agent_id r = a \<and> undelivered r) (lq_rows (w_queue w))) < polls"
    and "deliver_through describe clock ids polls a p i now w = (res, w')"
  shows "res = Delivered \<and> event_status (w_queue w') i = Some QDelivered
    \<or> (\<exists>message. res = ApplyFailed message) \<and> event_status (w_queue w') i = Some QPending"
proof -
  let ?w = "w\<lparr>w_queue := q\<rparr>"
  obtain r where line: "validate_agent_id a = Inr ()" "queue_inv q" "\<not> is_blocked q a" "idle q a"
    "r \<in> set (lq_rows q)" "q_agent_id r = a" "undelivered r" "q_event_id r = i"
    "backlog q a (q_sequence r)
      \<le> Suc (length (filter (\<lambda>r. q_agent_id r = a \<and> undelivered r) (lq_rows (w_queue w))))"
    by (rule enqueued_line [OF assms(1-3)])
  have "deliver_loop describe clock ids a (''deliver-through-'' @ i) (q_event_id r) polls ?w = (res, w')"
    using assms(3,5) line(8) by (simp add: deliver_through_def)
  moreover have "backlog q a (q_sequence r) \<le> polls" using line(9) assms(4) by linarith
  ultimately show ?thesis
    using deliver_loop_ends [OF line(1) worker_name_nonblank, of ?w r] line(2-8) by simp
qed

theorem deliver_through_ends_witness:
  "\<exists>res w'. deliver_through (\<lambda>_. ''failed'') (\<lambda>_. 10) (\<lambda>_. ''n'') 1 ''main''
      (CuratorState ''State'' ''Curated'' ''old'') ''e1'' 5 (first_world no_rows) = (res, w')
    \<and> (res = Delivered \<and> event_status (w_queue w') ''e1'' = Some QDelivered
       \<or> (\<exists>message. res = ApplyFailed message) \<and> event_status (w_queue w') ''e1'' = Some QPending)"
proof -
  obtain res w' where run: "deliver_through (\<lambda>_. ''failed'') (\<lambda>_. 10) (\<lambda>_. ''n'') 1 ''main''
      (CuratorState ''State'' ''Curated'' ''old'') ''e1'' 5 (first_world no_rows) = (res, w')"
    by fastforce
  have "w_queue (first_world no_rows) = no_rows" "queue_inv no_rows" "idle no_rows ''main''" "lq_rows no_rows = []"
    by (simp_all add: first_world_def no_rows_def queue_inv_def idle_def)
  then show ?thesis
    using deliver_through_ends [of "first_world no_rows" "''main''", OF _ _ _ _ run] first_enqueue run by auto
qed

end
