(* ===== verification/Streams.thy ===== *)
theory Streams
  imports Base
begin

text \<open>
  The two incremental parsers of upstream responses: \<open>llm_router/sse.rs\<close> (server-sent events) and
  \<open>llm_router/aws_stream.rs\<close> (AWS binary event-stream frames). Bytes and strings are both byte
  lists; indexing and slicing out of range, which panics, is \<open>None\<close>. The JSON parser is an
  argument.
\<close>

section \<open>\<open>String::from_utf8_lossy\<close>\<close>

definition utf8_width :: "char \<Rightarrow> nat" where
  "utf8_width c =
     (let b = byte c
      in if b < 128 then 1 else if b < 0xC2 then 0 else if b < 0xE0 then 2
         else if b < 0xF0 then 3 else if b < 0xF5 then 4 else 0)"

text \<open>Which second byte may follow a lead byte of two or more; \<open>byte_at\<close> gives 0 past the end.\<close>

definition byte_at :: "string \<Rightarrow> nat \<Rightarrow> nat" where
  "byte_at s i = (if i < length s then byte (s ! i) else 0)"

definition second_ok :: "nat \<Rightarrow> nat \<Rightarrow> bool" where
  "second_ok b d \<longleftrightarrow>
     (if b = 0xE0 then 0xA0 else if b = 0xF0 then 0x90 else 0x80) \<le> d
     \<and> d \<le> (if b = 0xED then 0x9F else if b = 0xF4 then 0x8F else 0xBF)"

definition cont_byte :: "nat \<Rightarrow> bool" where
  "cont_byte b \<longleftrightarrow> 0x80 \<le> b \<and> b \<le> 0xBF"

text \<open>Whether the string begins with a character, and how many bytes the character, or the part to
  be replaced, has.\<close>

definition scan_char :: "string \<Rightarrow> bool \<times> nat" where
  "scan_char s =
     (let w = utf8_width (hd s)
      in if w = 0 then (False, 1)
         else if w = 1 then (True, 1)
         else if \<not> second_ok (byte (hd s)) (byte_at s 1) then (False, 1)
         else if w = 2 then (True, 2)
         else if \<not> cont_byte (byte_at s 2) then (False, 2)
         else if w = 3 then (True, 3)
         else if \<not> cont_byte (byte_at s 3) then (False, 3)
         else (True, 4))"

definition REPLACEMENT :: string where
  "REPLACEMENT = [CHR 0xEF, CHR 0xBF, CHR 0xBD]"

lemma scan_char_pos [simp]: "0 < snd (scan_char s)"
  by (simp add: scan_char_def Let_def)

function lossy :: "string \<Rightarrow> string" where
  "lossy [] = []"
| "lossy (c # cs) =
     (let r = scan_char (c # cs)
      in (if fst r then take (snd r) (c # cs) else REPLACEMENT) @ lossy (drop (snd r) (c # cs)))"
  by pat_completeness auto
termination
  by (relation "measure length") (auto intro: diff_less)

function valid_utf8 :: "string \<Rightarrow> bool" where
  "valid_utf8 [] \<longleftrightarrow> True"
| "valid_utf8 (c # cs) \<longleftrightarrow>
     fst (scan_char (c # cs)) \<and> valid_utf8 (drop (snd (scan_char (c # cs))) (c # cs))"
  by pat_completeness auto
termination
  by (relation "measure length") (auto intro: diff_less)

lemma lossy_valid: "valid_utf8 s \<Longrightarrow> lossy s = s"
proof (induction s rule: lossy.induct)
  case (2 c cs)
  then show ?case using append_take_drop_id [of "snd (scan_char (c # cs))" "c # cs"] by simp
qed simp

section \<open>Server-sent events\<close>

record sse_event =
  se_event :: "string option"
  se_data :: string

record sse_parser =
  sse_buf :: string
  cur_event :: "string option"
  cur_data :: "string list"

definition sse_default :: sse_parser where
  "sse_default = \<lparr>sse_buf = [], cur_event = None, cur_data = []\<rparr>"

definition is_line_end :: "char \<Rightarrow> bool" where
  "is_line_end c \<longleftrightarrow> c = CHR 0x0A \<or> c = CHR 0x0D"

definition trim_line_end :: "string \<Rightarrow> string" where
  "trim_line_end s = rev (dropWhile is_line_end (rev s))"

definition trim_start :: "string \<Rightarrow> string" where
  "trim_start s = concat (dropWhile is_whitespace (chars s))"

fun join_lines :: "string list \<Rightarrow> string" where
  "join_lines [] = []"
| "join_lines [l] = l"
| "join_lines (l # ls) = l @ CHR 0x0A # join_lines ls"

definition sse_line :: "string \<Rightarrow> sse_parser \<Rightarrow> sse_event list \<times> sse_parser" where
  "sse_line line p =
     (if line = [] then
        if cur_data p \<noteq> [] then
          ([\<lparr>se_event = cur_event p, se_data = join_lines (cur_data p)\<rparr>],
           p\<lparr>cur_event := None, cur_data := []\<rparr>)
        else ([], p\<lparr>cur_event := None\<rparr>)
      else (case strip_prefix line ''event:'' of
              Some rest \<Rightarrow> ([], p\<lparr>cur_event := Some (trim_start rest)\<rparr>)
            | None \<Rightarrow>
                (case strip_prefix line ''data:'' of
                   Some rest \<Rightarrow> ([], p\<lparr>cur_data := cur_data p @ [trim_start rest]\<rparr>)
                 | None \<Rightarrow> ([], p))))"

text \<open>The loop over complete lines; what follows the last newline stays in the buffer.\<close>

function sse_drain :: "string \<Rightarrow> sse_parser \<Rightarrow> sse_event list \<times> sse_parser" where
  "sse_drain buf p =
     (case split_once (CHR 0x0A) buf of
        None \<Rightarrow> ([], p\<lparr>sse_buf := buf\<rparr>)
      | Some (line, rest) \<Rightarrow>
          (let (out, p) = sse_line (trim_line_end (line @ [CHR 0x0A])) p;
               (outs, p) = sse_drain rest p
           in (out @ outs, p)))"
  by pat_completeness auto
termination
  by (relation "measure (\<lambda>(buf, p). length buf)") (auto dest!: split_once_Some)

definition sse_feed :: "string \<Rightarrow> sse_parser \<Rightarrow> sse_event list \<times> sse_parser" where
  "sse_feed chunk p = sse_drain (sse_buf p @ lossy chunk) p"

fun sse_feed_all :: "string list \<Rightarrow> sse_parser \<Rightarrow> sse_event list \<times> sse_parser" where
  "sse_feed_all [] p = ([], p)"
| "sse_feed_all (c # cs) p =
     (let (out, p) = sse_feed c p; (outs, p) = sse_feed_all cs p in (out @ outs, p))"

section \<open>AWS event-stream frames\<close>

definition MAX_FRAME :: nat where
  "MAX_FRAME = 16 * 1024 * 1024"

datatype 'v aws_payload = Null | Json 'v | Raw string

record 'v aws_frame =
  af_event_type :: "string option"
  af_payload :: "'v aws_payload"

text \<open>\<open>&bytes[a..b]\<close>.\<close>

definition slice :: "'a list \<Rightarrow> nat \<Rightarrow> nat \<Rightarrow> 'a list option" where
  "slice xs a b = (if a \<le> b \<and> b \<le> length xs then Some (take (b - a) (drop a xs)) else None)"

definition index :: "'a list \<Rightarrow> nat \<Rightarrow> 'a option" where
  "index xs i = (if i < length xs then Some (xs ! i) else None)"

fun be_nat :: "string \<Rightarrow> nat" where
  "be_nat [] = 0"
| "be_nat (c # cs) = byte c * 256 ^ length cs + be_nat cs"

text \<open>The loop over the headers; the outer \<open>None\<close> is a panic.\<close>

function read_event_type :: "string \<Rightarrow> string option option" where
  "read_event_type h =
     (if h = [] then Some None
      else Option.bind (index h 0) (\<lambda>c.
        let name_len = byte c
        in if 1 + name_len + 1 > length h then Some None
           else
             Option.bind (slice h 1 (1 + name_len)) (\<lambda>name.
             Option.bind (index h (1 + name_len)) (\<lambda>ty.
             let h1 = drop (2 + name_len) h
             in if byte ty \<noteq> 7 then Some None
                else if length h1 < 2 then Some None
                else
                  Option.bind (slice h1 0 2) (\<lambda>l.
                  let vlen = be_nat l
                  in if 2 + vlen > length h1 then Some None
                     else
                       Option.bind (slice h1 2 (2 + vlen)) (\<lambda>value.
                       if lossy name = '':event-type'' then Some (Some (lossy value))
                       else read_event_type (drop (2 + vlen) h1)))))))"
  by pat_completeness auto
termination
  by (relation "measure length") (auto simp: Let_def)

definition parse_frame ::
    "(string \<Rightarrow> 'v option) \<Rightarrow> string \<Rightarrow> nat \<Rightarrow> 'v aws_frame option" where
  "parse_frame from_json bytes headers_len =
     Option.bind (slice bytes 12 (12 + headers_len)) (\<lambda>headers.
     Option.bind (read_event_type headers) (\<lambda>event_type.
     if length bytes < 4 then None
     else
       Option.bind (slice bytes (12 + headers_len) (length bytes - 4)) (\<lambda>payload_bytes.
       let txt = lossy payload_bytes
       in Some \<lparr>af_event_type = event_type,
                af_payload = (if trim txt = [] then Null
                              else case from_json txt of Some v \<Rightarrow> Json v | None \<Rightarrow> Raw txt)\<rparr>)))"

definition bad_prelude :: "nat \<Rightarrow> nat \<Rightarrow> bool" where
  "bad_prelude total_len headers_len \<longleftrightarrow>
     \<not> (16 \<le> total_len \<and> total_len \<le> MAX_FRAME) \<or> headers_len + 16 > total_len"

function aws_drain :: "(string \<Rightarrow> 'v option) \<Rightarrow> string \<Rightarrow> ('v aws_frame list \<times> string) option" where
  "aws_drain from_json buf =
     (if length buf < 12 then Some ([], buf)
      else
        (let total_len = be_nat (take 4 buf);
             headers_len = be_nat (take 4 (drop 4 buf))
         in if bad_prelude total_len headers_len then aws_drain from_json (drop 1 buf)
            else if length buf < total_len then Some ([], buf)
            else
              Option.bind (parse_frame from_json (take total_len buf) headers_len) (\<lambda>frame.
              Option.bind (aws_drain from_json (drop total_len buf)) (\<lambda>(frames, rest).
                Some (frame # frames, rest)))))"
  by pat_completeness auto
termination
  by (relation "measure (\<lambda>(from_json, buf). length buf)") (auto simp: bad_prelude_def)

definition aws_feed ::
    "(string \<Rightarrow> 'v option) \<Rightarrow> string \<Rightarrow> string \<Rightarrow> ('v aws_frame list \<times> string) option" where
  "aws_feed from_json chunk buf = aws_drain from_json (buf @ chunk)"

fun aws_feed_all ::
    "(string \<Rightarrow> 'v option) \<Rightarrow> string list \<Rightarrow> string \<Rightarrow> ('v aws_frame list \<times> string) option" where
  "aws_feed_all from_json [] buf = Some ([], buf)"
| "aws_feed_all from_json (c # cs) buf =
     Option.bind (aws_feed from_json c buf) (\<lambda>(out, buf).
     Option.bind (aws_feed_all from_json cs buf) (\<lambda>(outs, buf). Some (out @ outs, buf)))"

end
