(* ===== verification/StreamSafety.thy ===== *)
theory StreamSafety
  imports Streams
begin

text \<open>
  The parsers do not depend on how the network cuts the stream: a reference that sees the whole
  stream at once, and the round trip from events or frames through any chunks. For server-sent
  events the chunks must not cut a character in two; the last property shows what happens then.
\<close>

section \<open>Server-sent events\<close>

lemma split_once_append_Some:
  "split_once d a = Some (l, r) \<Longrightarrow> split_once d (a @ b) = Some (l, r @ b)"
  using split_once_Some [of d a l r] by auto

lemma sse_line_buf:
  "sse_line line (p\<lparr>sse_buf := x\<rparr>) = (fst (sse_line line p), snd (sse_line line p)\<lparr>sse_buf := x\<rparr>)"
  by (simp add: sse_line_def split: option.splits)

declare sse_drain.simps [simp del]

lemma sse_drain_buf: "sse_drain buf (p\<lparr>sse_buf := x\<rparr>) = sse_drain buf p"
proof (induction buf p arbitrary: x rule: sse_drain.induct)
  case (1 buf p)
  show ?case
  proof (cases "split_once (CHR 0x0A) buf")
    case None
    then show ?thesis by (simp add: sse_drain.simps [of buf])
  next
    case (Some lr)
    obtain line rest where lr: "lr = (line, rest)" by (cases lr)
    let ?r = "sse_line (trim_line_end (line @ [CHR 0x0A])) p"
    have "sse_drain rest (snd ?r\<lparr>sse_buf := x\<rparr>) = sse_drain rest (snd ?r)"
      using "1.IH" [OF Some lr [symmetric], of ?r "fst ?r" "snd ?r"] by simp
    then show ?thesis
      using Some lr by (simp add: sse_drain.simps [of buf] sse_line_buf split_beta)
  qed
qed

lemma sse_drain_append:
  "sse_drain (a @ b) p =
    (let r = sse_drain a p; r' = sse_drain (sse_buf (snd r) @ b) (snd r) in (fst r @ fst r', snd r'))"
proof (induction a p rule: sse_drain.induct)
  case (1 a p)
  show ?case
  proof (cases "split_once (CHR 0x0A) a")
    case None
    then have "sse_drain a p = ([], p\<lparr>sse_buf := a\<rparr>)" by (simp add: sse_drain.simps [of a])
    then show ?thesis by (simp add: sse_drain_buf)
  next
    case (Some lr)
    obtain line rest where lr: "lr = (line, rest)" by (cases lr)
    let ?r = "sse_line (trim_line_end (line @ [CHR 0x0A])) p"
    have "sse_drain (rest @ b) (snd ?r) =
      (let s = sse_drain rest (snd ?r); s' = sse_drain (sse_buf (snd s) @ b) (snd s) in (fst s @ fst s', snd s'))"
      using "1.IH" [OF Some lr [symmetric], of ?r "fst ?r" "snd ?r"] by simp
    moreover have "split_once (CHR 0x0A) (a @ b) = Some (line, rest @ b)"
      using Some lr split_once_append_Some by simp
    ultimately show ?thesis
      using Some lr by (simp add: sse_drain.simps [of a] sse_drain.simps [of "a @ b"] split_beta Let_def)
  qed
qed

lemma sse_drain_rest: "CHR 0x0A \<notin> set (sse_buf (snd (sse_drain buf p)))"
proof (induction buf p rule: sse_drain.induct)
  case (1 buf p)
  show ?case
  proof (cases "split_once (CHR 0x0A) buf")
    case None
    then show ?thesis by (simp add: sse_drain.simps [of buf]) (simp add: split_once_None)
  next
    case (Some lr)
    obtain line rest where lr: "lr = (line, rest)" by (cases lr)
    let ?r = "sse_line (trim_line_end (line @ [CHR 0x0A])) p"
    show ?thesis
      using "1.IH" [OF Some lr [symmetric], of ?r "fst ?r" "snd ?r"] Some lr
      by (simp add: sse_drain.simps [of buf] split_beta)
  qed
qed

lemma sse_feed_all_drain:
  "CHR 0x0A \<notin> set (sse_buf p) \<Longrightarrow>
    sse_feed_all cs p = sse_drain (sse_buf p @ concat (map lossy cs)) p"
proof (induction cs arbitrary: p)
  case Nil
  then have "split_once (CHR 0x0A) (sse_buf p) = None" by (simp add: split_once_None)
  then show ?case by (simp add: sse_drain.simps)
next
  case (Cons c cs)
  let ?r = "sse_drain (sse_buf p @ lossy c) p"
  have "sse_feed_all cs (snd ?r) = sse_drain (sse_buf (snd ?r) @ concat (map lossy cs)) (snd ?r)"
    using Cons.IH sse_drain_rest by blast
  then show ?case
    using sse_drain_append [of "sse_buf p @ lossy c" "concat (map lossy cs)" p]
    by (simp add: sse_feed_def split_beta Let_def)
qed

section \<open>Writing events\<close>

text \<open>What a field can carry: no line break, no leading white space, no carriage return at its end.\<close>

definition sse_field :: "string \<Rightarrow> bool" where
  "sse_field s \<longleftrightarrow> CHR 0x0A \<notin> set s \<and> trim_start s = s \<and> (s \<noteq> [] \<longrightarrow> last s \<noteq> CHR 0x0D \<and> \<not> is_cont (hd s))"

definition sse_good :: "string option \<times> string list \<Rightarrow> bool" where
  "sse_good e \<longleftrightarrow> (case fst e of None \<Rightarrow> True | Some n \<Rightarrow> sse_field n) \<and> snd e \<noteq> [] \<and> list_all sse_field (snd e)"

definition sse_encode :: "string option \<times> string list \<Rightarrow> string" where
  "sse_encode e =
     (case fst e of None \<Rightarrow> [] | Some n \<Rightarrow> ''event: '' @ n @ [CHR 0x0A])
     @ concat (map (\<lambda>l. ''data: '' @ l @ [CHR 0x0A]) (snd e)) @ [CHR 0x0A]"

definition sse_decoded :: "string option \<times> string list \<Rightarrow> sse_event" where
  "sse_decoded e = \<lparr>se_event = fst e, se_data = join_lines (snd e)\<rparr>"

lemma trim_start_space: "s = [] \<or> \<not> is_cont (hd s) \<Longrightarrow> trim_start (CHR '' '' # s) = trim_start s"
proof -
  assume "s = [] \<or> \<not> is_cont (hd s)"
  then have "takeWhile is_cont s = [] \<and> dropWhile is_cont s = s" by (cases s) auto
  moreover have "is_whitespace '' ''" by code_simp
  ultimately show ?thesis by (simp add: trim_start_def)
qed

lemma trim_line_end_field:
  assumes "sse_field s" "pre \<noteq> []" "\<not> is_line_end (last pre)"
  shows "trim_line_end (pre @ s @ [CHR 0x0A]) = pre @ s"
proof -
  have "\<not> is_line_end (last (pre @ s))"
  proof (cases "s = []")
    case False
    then have "last s \<in> set s" by simp
    then have "last s \<noteq> CHR 0x0A" using assms(1) unfolding sse_field_def by metis
    then show ?thesis using assms(1) False by (simp add: sse_field_def is_line_end_def)
  qed (use assms(3) in simp)
  moreover obtain xs c where pre: "pre @ s = xs @ [c]" using assms(2) by (metis append_is_Nil_conv rev_exhaust)
  ultimately have "dropWhile is_line_end (rev ((pre @ s) @ [CHR 0x0A])) = rev (pre @ s)"
    by (simp add: is_line_end_def)
  then show ?thesis by (simp add: trim_line_end_def)
qed

lemma sse_drain_line:
  "CHR 0x0A \<notin> set l \<Longrightarrow> sse_drain (l @ CHR 0x0A # rest) p =
    (let r = sse_line (trim_line_end (l @ [CHR 0x0A])) p; r' = sse_drain rest (snd r) in (fst r @ fst r', snd r'))"
  by (simp add: sse_drain.simps [of "l @ CHR 0x0A # rest"] split_beta Let_def)

lemma sse_drain_data:
  assumes "sse_field l"
  shows "sse_drain (''data: '' @ l @ CHR 0x0A # rest) p = sse_drain rest (p\<lparr>cur_data := cur_data p @ [l]\<rparr>)"
proof -
  have t: "trim_line_end (''data: '' @ l @ [CHR 0x0A]) = ''data: '' @ l"
    by (rule trim_line_end_field [OF assms]) (simp_all add: is_line_end_def)
  have "trim_start (CHR '' '' # l) = l" using assms trim_start_space by (auto simp: sse_field_def)
  then have "sse_line (''data: '' @ l) p = ([], p\<lparr>cur_data := cur_data p @ [l]\<rparr>)"
    by (simp add: sse_line_def strip_prefix_def starts_with_def)
  then show ?thesis
    using sse_drain_line [of "''data: '' @ l" rest p] assms t by (simp add: sse_field_def)
qed

lemma sse_drain_event:
  assumes "sse_field n"
  shows "sse_drain (''event: '' @ n @ CHR 0x0A # rest) p = sse_drain rest (p\<lparr>cur_event := Some n\<rparr>)"
proof -
  have t: "trim_line_end (''event: '' @ n @ [CHR 0x0A]) = ''event: '' @ n"
    by (rule trim_line_end_field [OF assms]) (simp_all add: is_line_end_def)
  have "trim_start (CHR '' '' # n) = n" using assms trim_start_space by (auto simp: sse_field_def)
  then have "sse_line (''event: '' @ n) p = ([], p\<lparr>cur_event := Some n\<rparr>)"
    by (simp add: sse_line_def strip_prefix_def starts_with_def)
  then show ?thesis
    using sse_drain_line [of "''event: '' @ n" rest p] assms t by (simp add: sse_field_def)
qed

lemma sse_drain_datas:
  "list_all sse_field ls \<Longrightarrow>
    sse_drain (concat (map (\<lambda>l. ''data: '' @ l @ [CHR 0x0A]) ls) @ rest) p
      = sse_drain rest (p\<lparr>cur_data := cur_data p @ ls\<rparr>)"
proof (induction ls arbitrary: p)
  case (Cons l ls)
  then show ?case using sse_drain_data [of l "concat (map (\<lambda>l. ''data: '' @ l @ [CHR 0x0A]) ls) @ rest" p] by simp
qed simp

lemma sse_drain_blank:
  assumes "cur_data p \<noteq> []"
  shows "sse_drain (CHR 0x0A # rest) p =
    (let r = sse_drain rest (p\<lparr>cur_event := None, cur_data := []\<rparr>)
     in (\<lparr>se_event = cur_event p, se_data = join_lines (cur_data p)\<rparr> # fst r, snd r))"
proof -
  have "trim_line_end [CHR 0x0A] = []" by code_simp
  then show ?thesis
    using sse_drain_line [of "[]" rest p] assms by (simp add: sse_line_def Let_def)
qed

lemma sse_drain_encode:
  assumes "sse_good e" "cur_event p = None" "cur_data p = []"
  shows "sse_drain (sse_encode e @ rest) p =
    (let r = sse_drain rest p in (sse_decoded e # fst r, snd r))"
proof -
  obtain ev ls where e: "e = (ev, ls)" by (cases e)
  let ?datas = "concat (map (\<lambda>l. ''data: '' @ l @ [CHR 0x0A]) ls)"
  let ?p = "p\<lparr>cur_event := ev, cur_data := ls\<rparr>"
  have good: "list_all sse_field ls" "ls \<noteq> []" using assms(1) by (simp_all add: sse_good_def e)
  have "sse_drain (sse_encode e @ rest) p = sse_drain (?datas @ CHR 0x0A # rest) (p\<lparr>cur_event := ev\<rparr>)"
  proof (cases ev)
    case None
    have "p\<lparr>cur_event := None\<rparr> = p" using assms(2) by simp
    then show ?thesis by (simp add: sse_encode_def e None)
  next
    case (Some n)
    then have "sse_field n" using assms(1) by (simp add: sse_good_def e)
    then show ?thesis
      using sse_drain_event [of n "?datas @ CHR 0x0A # rest" p] by (simp add: sse_encode_def e Some)
  qed
  also have "\<dots> = sse_drain (CHR 0x0A # rest) ?p"
    using sse_drain_datas [OF good(1)] assms(3) by simp
  also have "\<dots> = (let r = sse_drain rest p in (sse_decoded e # fst r, snd r))"
  proof -
    have "?p\<lparr>cur_event := None, cur_data := []\<rparr> = p" using assms(2,3) by simp
    then show ?thesis using sse_drain_blank [of ?p rest] good(2) by (simp add: sse_decoded_def e)
  qed
  finally show ?thesis .
qed

lemma sse_drain_encodes:
  "list_all sse_good es \<Longrightarrow> cur_event p = None \<Longrightarrow> cur_data p = [] \<Longrightarrow>
    sse_drain (concat (map sse_encode es)) p = (map sse_decoded es, p\<lparr>sse_buf := []\<rparr>)"
proof (induction es)
  case Nil
  then show ?case by (simp add: sse_drain.simps)
next
  case (Cons e es)
  then show ?case using sse_drain_encode [of e p "concat (map sse_encode es)"] by (simp add: Let_def)
qed

text \<open>C31: Server-sent events come out as they were written, however the stream is cut into chunks
  that are each valid UTF-8: names and data, several lines of data joined by newlines, in order,
  each once, with nothing left in the parser.\<close>

theorem sse_roundtrip:
  assumes "list_all sse_good es" "concat chunks = concat (map sse_encode es)" "list_all valid_utf8 chunks"
  shows "sse_feed_all chunks sse_default = (map sse_decoded es, sse_default)"
proof -
  have "map lossy chunks = chunks"
    using assms(3) by (intro map_idI) (auto simp: list_all_iff lossy_valid)
  then have "sse_feed_all chunks sse_default = sse_drain (concat (map sse_encode es)) sse_default"
    using sse_feed_all_drain [of sse_default chunks] assms(2) by (simp add: sse_default_def)
  then show ?thesis using sse_drain_encodes [OF assms(1), of sse_default] by (simp add: sse_default_def)
qed

theorem sse_roundtrip_witness:
  "sse_feed_all [''event: a'', [CHR 0x0A] @ ''data: x'' @ [CHR 0x0A, CHR 0x0A]] sse_default
    = ([\<lparr>se_event = Some ''a'', se_data = ''x''\<rparr>], sse_default)"
proof -
  have "list_all sse_good [(Some ''a'', [''x''])]" "list_all valid_utf8 [''event: a'', [CHR 0x0A] @ ''data: x'' @ [CHR 0x0A, CHR 0x0A]]"
    by (simp_all add: sse_good_def sse_field_def trim_start_def is_line_end_def is_cont_def whitespace_eval
        scan_char_def utf8_width_def)
  from sse_roundtrip [OF this(1) _ this(2)] show ?thesis
    by (simp add: sse_encode_def sse_decoded_def)
qed

text \<open>A character that a chunk boundary cuts in two is lost: each part is decoded on its own and
  becomes a replacement character, while the same bytes in one chunk are read as the character.\<close>

lemma lossy_ascii: "byte c < 128 \<Longrightarrow> lossy (c # cs) = c # lossy cs"
  by (simp add: scan_char_def utf8_width_def Let_def)

lemma sample_lossy:
  "lossy (''data: '' @ [CHR 0xC3, CHR 0xA9, CHR 0x0A, CHR 0x0A]) = ''data: '' @ [CHR 0xC3, CHR 0xA9, CHR 0x0A, CHR 0x0A]"
  "lossy (''data: '' @ [CHR 0xC3]) = ''data: '' @ REPLACEMENT"
  "lossy [CHR 0xA9, CHR 0x0A, CHR 0x0A] = REPLACEMENT @ [CHR 0x0A, CHR 0x0A]"
  by (simp_all add: lossy_ascii byte_def scan_char_def utf8_width_def Let_def second_ok_def byte_at_def)

lemma sample_drain:
  "sse_drain (''data: '' @ [CHR 0xC3, CHR 0xA9, CHR 0x0A, CHR 0x0A]) sse_default
     = ([\<lparr>se_event = None, se_data = [CHR 0xC3, CHR 0xA9]\<rparr>], sse_default)"
  "sse_drain (''data: '' @ REPLACEMENT @ REPLACEMENT @ [CHR 0x0A, CHR 0x0A]) sse_default
     = ([\<lparr>se_event = None, se_data = REPLACEMENT @ REPLACEMENT\<rparr>], sse_default)"
  by (simp_all add: sse_drain.simps sse_line_def sse_default_def trim_line_end_def is_line_end_def
      strip_prefix_def starts_with_def trim_start_def is_cont_def whitespace_eval
      REPLACEMENT_def)

theorem sse_cut_character_lost:
  "fst (sse_feed_all [''data: '' @ [CHR 0xC3, CHR 0xA9, CHR 0x0A, CHR 0x0A]] sse_default)
     = [\<lparr>se_event = None, se_data = [CHR 0xC3, CHR 0xA9]\<rparr>]
   \<and> fst (sse_feed_all [''data: '' @ [CHR 0xC3], [CHR 0xA9, CHR 0x0A, CHR 0x0A]] sse_default)
     = [\<lparr>se_event = None, se_data = REPLACEMENT @ REPLACEMENT\<rparr>]"
proof -
  have feed: "sse_feed_all cs sse_default = sse_drain (concat (map lossy cs)) sse_default" for cs
    using sse_feed_all_drain [of sse_default cs] by (simp add: sse_default_def)
  show ?thesis
    unfolding feed list.map concat.simps sample_lossy append_assoc append_Nil2 sample_drain
    by simp
qed

section \<open>AWS frames: nothing panics\<close>

declare read_event_type.simps [simp del] aws_drain.simps [simp del]

lemma slice_Some [simp]: "a \<le> b \<Longrightarrow> b \<le> length xs \<Longrightarrow> slice xs a b = Some (take (b - a) (drop a xs))"
  by (simp add: slice_def)

lemma index_Some [simp]: "i < length xs \<Longrightarrow> index xs i = Some (xs ! i)"
  by (simp add: index_def)

lemma read_event_type_total: "\<exists>r. read_event_type h = Some r"
proof (induction h rule: length_induct)
  case (1 h)
  show ?case
  proof (cases "h = [] \<or> length h < byte (h ! 0) + 2")
    case True
    then show ?thesis by (auto simp: read_event_type.simps [of h] Let_def)
  next
    case False
    then have "\<exists>r. read_event_type (drop (Suc n) h) = Some r" for n
      by (intro "1.IH" [rule_format]) auto
    then show ?thesis using False by (auto simp: read_event_type.simps [of h] Let_def)
  qed
qed

lemma parse_frame_total: "headers_len + 16 \<le> length bytes \<Longrightarrow> \<exists>f. parse_frame from_json bytes headers_len = Some f"
proof -
  assume len: "headers_len + 16 \<le> length bytes"
  obtain r where "read_event_type (take headers_len (drop 12 bytes)) = Some r" using read_event_type_total by blast
  then show ?thesis using len by (simp add: parse_frame_def Let_def)
qed

lemma aws_drain_stop:
  assumes "length buf < 12 \<or> \<not> bad_prelude (be_nat (take 4 buf)) (be_nat (take 4 (drop 4 buf)))
    \<and> length buf < be_nat (take 4 buf)"
  shows "aws_drain from_json buf = Some ([], buf)"
  using assms by (auto simp: aws_drain.simps [of from_json buf])

lemma aws_drain_resync:
  "12 \<le> length buf \<Longrightarrow> bad_prelude (be_nat (take 4 buf)) (be_nat (take 4 (drop 4 buf))) \<Longrightarrow>
    aws_drain from_json buf = aws_drain from_json (drop 1 buf)"
  by (simp add: aws_drain.simps [of from_json buf])

lemma aws_drain_frame:
  assumes "12 \<le> length buf" "\<not> bad_prelude n h" "n \<le> length buf"
    and "n = be_nat (take 4 buf)" "h = be_nat (take 4 (drop 4 buf))"
    and "parse_frame from_json (take n buf) h = Some frame"
  shows "aws_drain from_json buf =
    Option.bind (aws_drain from_json (drop n buf)) (\<lambda>(frames, rest). Some (frame # frames, rest))"
  using assms by (simp add: aws_drain.simps [of from_json buf] Let_def)

text \<open>One turn of the loop: it stops, drops a byte, or takes a frame off the front.\<close>

lemma aws_turn:
  obtains (stop) "length buf < 12 \<or> \<not> bad_prelude (be_nat (take 4 buf)) (be_nat (take 4 (drop 4 buf)))
      \<and> length buf < be_nat (take 4 buf)"
  | (resync) "12 \<le> length buf" "bad_prelude (be_nat (take 4 buf)) (be_nat (take 4 (drop 4 buf)))"
  | (frame) n h f where "12 \<le> length buf" "\<not> bad_prelude n h" "n \<le> length buf" "16 \<le> n"
      "n = be_nat (take 4 buf)" "h = be_nat (take 4 (drop 4 buf))"
      "parse_frame from_json (take n buf) h = Some f"
proof -
  let ?n = "be_nat (take 4 buf)" and ?h = "be_nat (take 4 (drop 4 buf))"
  consider "length buf < 12 \<or> \<not> bad_prelude ?n ?h \<and> length buf < ?n" | "12 \<le> length buf" "bad_prelude ?n ?h"
    | "12 \<le> length buf" "\<not> bad_prelude ?n ?h" "?n \<le> length buf"
    by linarith
  then show ?thesis
  proof cases
    case 3
    then have "?h + 16 \<le> length (take ?n buf)" "16 \<le> ?n" by (auto simp: bad_prelude_def)
    then show ?thesis using frame 3 parse_frame_total by metis
  qed (use stop resync in auto)
qed

lemma aws_drain_rest:
  "\<exists>frames rest. aws_drain from_json buf = Some (frames, rest)
    \<and> aws_drain from_json rest = Some ([], rest) \<and> length rest < MAX_FRAME"
proof (induction buf rule: length_induct)
  case (1 buf)
  show ?case
  proof (cases buf rule: aws_turn [where from_json = from_json])
    case stop
    then have "length buf < MAX_FRAME" by (auto simp: MAX_FRAME_def bad_prelude_def)
    then show ?thesis using aws_drain_stop [OF stop] by auto
  next
    case resync
    then have "length (drop 1 buf) < length buf" by auto
    then show ?thesis using "1.IH" aws_drain_resync [OF resync] by metis
  next
    case (frame n h f)
    then have "length (drop n buf) < length buf" by auto
    then obtain frames rest where "aws_drain from_json (drop n buf) = Some (frames, rest)"
      "aws_drain from_json rest = Some ([], rest)" "length rest < MAX_FRAME"
      using "1.IH" by blast
    then show ?thesis using aws_drain_frame [OF frame(1,2,3,5,6,7)] by simp
  qed
qed

lemma aws_drain_append:
  "aws_drain from_json (a @ b) =
    Option.bind (aws_drain from_json a) (\<lambda>(f, r).
    Option.bind (aws_drain from_json (r @ b)) (\<lambda>(g, s). Some (f @ g, s)))"
proof (induction a rule: length_induct)
  case (1 a)
  show ?case
  proof (cases a rule: aws_turn [where from_json = from_json])
    case stop
    then show ?thesis by (cases "aws_drain from_json (a @ b)") (auto simp: aws_drain_stop)
  next
    case resync
    have "drop 1 (a @ b) = drop 1 a @ b" using resync(1) by (cases a) auto
    moreover have "aws_drain from_json (a @ b) = aws_drain from_json (drop 1 (a @ b))"
      using resync by (intro aws_drain_resync) simp_all
    moreover have "length (drop 1 a) < length a" using resync(1) by auto
    ultimately show ?thesis using "1.IH" [rule_format, of "drop 1 a"] aws_drain_resync [OF resync] by metis
  next
    case (frame n h f)
    have "aws_drain from_json (a @ b) =
      Option.bind (aws_drain from_json (drop n (a @ b))) (\<lambda>(frames, rest). Some (f # frames, rest))"
      using frame by (intro aws_drain_frame) simp_all
    moreover have "drop n (a @ b) = drop n a @ b" "length (drop n a) < length a" using frame(1,3,4) by auto
    ultimately show ?thesis
      using "1.IH" [rule_format, of "drop n a"] aws_drain_frame [OF frame(1,2,3,5,6,7)]
      by (auto simp: bind_split split_beta split: option.splits)
  qed
qed

lemma aws_feed_all_drain:
  "aws_drain from_json buf = Some ([], buf) \<Longrightarrow>
    aws_feed_all from_json cs buf = aws_drain from_json (buf @ concat cs)"
proof (induction cs arbitrary: buf)
  case (Cons c cs)
  obtain f r where d: "aws_drain from_json (buf @ c) = Some (f, r)" "aws_drain from_json r = Some ([], r)"
    using aws_drain_rest by blast
  then show ?case
    using Cons.IH [OF d(2)] aws_drain_append [of from_json "buf @ c" "concat cs"]
    by (simp add: aws_feed_def split_beta)
qed simp

lemma aws_drain_Nil [simp]: "aws_drain from_json [] = Some ([], [])"
  by (rule aws_drain_stop) simp

text \<open>C33: Whatever bytes arrive, in whatever chunks, the frame parser returns: no index or slice is
  out of range, at most one incomplete frame of less than 16 MiB stays in the buffer, and the
  frames and the buffer are those of the whole stream given at once.\<close>

theorem aws_feed_any_bytes:
  "\<exists>frames rest. aws_feed_all from_json chunks [] = Some (frames, rest) \<and> length rest < MAX_FRAME
    \<and> aws_feed from_json (concat chunks) [] = Some (frames, rest)"
proof -
  obtain frames rest where "aws_drain from_json (concat chunks) = Some (frames, rest)" "length rest < MAX_FRAME"
    using aws_drain_rest by blast
  then show ?thesis by (simp add: aws_feed_all_drain aws_feed_def)
qed

section \<open>Writing frames\<close>

fun be_bytes :: "nat \<Rightarrow> nat \<Rightarrow> string" where
  "be_bytes 0 n = []"
| "be_bytes (Suc w) n = char_of (n div 256 ^ w) # be_bytes w n"

lemma length_be_bytes [simp]: "length (be_bytes w n) = w"
  by (induction w) simp_all

lemma be_nat_bytes: "be_nat (be_bytes w n) = n mod 256 ^ w"
proof (induction w)
  case (Suc w)
  have "n mod 256 ^ Suc w = (n div 256 ^ w mod 256) * 256 ^ w + n mod 256 ^ w"
    by (metis add.commute mod_mult2_eq mult.commute power_Suc)
  then show ?case using Suc by (simp add: byte_def)
qed simp

text \<open>One frame: the event type as its only header, the payload, and any checksums.\<close>

definition event_header :: "string \<Rightarrow> string" where
  "event_header ty = [char_of (11 :: nat)] @ '':event-type'' @ [char_of (7 :: nat)] @ be_bytes 2 (length ty) @ ty"

definition aws_encode :: "string \<times> string \<Rightarrow> string \<Rightarrow> string \<Rightarrow> string" where
  "aws_encode f crc1 crc2 =
     (let h = event_header (fst f)
      in be_bytes 4 (16 + length h + length (snd f)) @ be_bytes 4 (length h) @ crc1 @ h @ snd f @ crc2)"

definition aws_decoded :: "(string \<Rightarrow> 'v option) \<Rightarrow> string \<times> string \<Rightarrow> 'v aws_frame" where
  "aws_decoded from_json f =
     \<lparr>af_event_type = Some (fst f),
      af_payload = (if trim (snd f) = [] then Null
                    else case from_json (snd f) of Some v \<Rightarrow> Json v | None \<Rightarrow> Raw (snd f))\<rparr>"

definition aws_good :: "string \<times> string \<Rightarrow> bool" where
  "aws_good f \<longleftrightarrow> valid_utf8 (fst f) \<and> valid_utf8 (snd f) \<and> length (fst f) < 2 ^ 16
     \<and> 16 + length (event_header (fst f)) + length (snd f) \<le> MAX_FRAME"

lemma length_event_header [simp]: "length (event_header ty) = length ty + 15"
  by (simp add: event_header_def)

lemma read_event_header:
  assumes "length ty < 2 ^ 16" "valid_utf8 ty"
  shows "read_event_type (event_header ty) = Some (Some ty)"
proof -
  let ?hh = "event_header ty"
  have name: "lossy '':event-type'' = '':event-type''" by code_simp
  have len: "be_nat (be_bytes 2 (length ty)) = length ty" using assms(1) by (simp add: be_nat_bytes)
  have h: "?hh = (char_of (11 :: nat) # '':event-type'') @ char_of (7 :: nat) # be_bytes 2 (length ty) @ ty"
    by (simp add: event_header_def)
  have ne: "?hh \<noteq> []" and first: "index ?hh 0 = Some (char_of (11 :: nat))"
    and named: "slice ?hh 1 12 = Some '':event-type''" and kind: "index ?hh 12 = Some (char_of (7 :: nat))"
    and rest: "drop 13 ?hh = be_bytes 2 (length ty) @ ty"
    by (simp_all add: h index_def slice_def)
  have long: "length ?hh = length ty + 15" by simp
  show ?thesis
    unfolding read_event_type.simps [of ?hh]
    using ne first named kind rest long len name lossy_valid [OF assms(2)]
    by (simp add: slice_def del: length_event_header be_bytes.simps lossy.simps)
qed

lemma parse_frame_encode:
  assumes good: "aws_good f" and crc: "length crc1 = 4" "length crc2 = 4"
  shows "parse_frame from_json (aws_encode f crc1 crc2) (length (event_header (fst f))) = Some (aws_decoded from_json f)"
proof -
  let ?h = "event_header (fst f)"
  let ?b = "aws_encode f crc1 crc2"
  have len: "length ?b = 16 + length ?h + length (snd f)" by (simp add: aws_encode_def Let_def crc)
  have h: "slice ?b 12 (12 + length ?h) = Some ?h"
    by (simp add: slice_def len) (simp add: aws_encode_def Let_def crc)
  have p: "slice ?b (12 + length ?h) (length ?b - 4) = Some (snd f)"
    by (simp add: slice_def len) (simp add: aws_encode_def Let_def crc)
  have "read_event_type ?h = Some (Some (fst f))" using good by (intro read_event_header) (simp_all add: aws_good_def)
  moreover have "lossy (snd f) = snd f" using good by (simp add: aws_good_def lossy_valid)
  ultimately show ?thesis
    using h p len
    by (simp add: parse_frame_def Let_def aws_decoded_def del: length_event_header slice_Some split: option.split)
qed

lemma aws_drain_encode:
  assumes good: "aws_good f" and crc: "length crc1 = 4" "length crc2 = 4"
  shows "aws_drain from_json (aws_encode f crc1 crc2 @ rest) =
    Option.bind (aws_drain from_json rest) (\<lambda>(frames, r). Some (aws_decoded from_json f # frames, r))"
proof -
  let ?h = "length (event_header (fst f))"
  let ?n = "16 + ?h + length (snd f)"
  let ?b = "aws_encode f crc1 crc2"
  have len: "length ?b = ?n" by (simp add: aws_encode_def Let_def crc)
  have n: "?n \<le> MAX_FRAME" using good by (simp add: aws_good_def)
  then have "?n < 256 ^ 4" "?h < 256 ^ 4" by (simp_all add: MAX_FRAME_def)
  then have nums: "?n = be_nat (take 4 (?b @ rest))" "?h = be_nat (take 4 (drop 4 (?b @ rest)))"
    by (simp_all add: aws_encode_def Let_def be_nat_bytes del: length_event_header)
  have "aws_drain from_json (?b @ rest) =
      Option.bind (aws_drain from_json (drop ?n (?b @ rest))) (\<lambda>(frames, r). Some (aws_decoded from_json f # frames, r))"
  proof (rule aws_drain_frame [OF _ _ _ nums])
    show "\<not> bad_prelude ?n ?h" using n by (simp add: bad_prelude_def)
    show "parse_frame from_json (take ?n (?b @ rest)) ?h = Some (aws_decoded from_json f)"
      using parse_frame_encode [OF good crc] len by simp
  qed (use len in simp_all)
  then show ?thesis using len by simp
qed

definition aws_stream :: "((string \<times> string) \<times> string \<times> string) list \<Rightarrow> string" where
  "aws_stream fs = concat (map (\<lambda>(f, crc1, crc2). aws_encode f crc1 crc2) fs)"

lemma aws_drain_stream:
  "list_all (\<lambda>(f, crc1, crc2). aws_good f \<and> length crc1 = 4 \<and> length crc2 = 4) fs \<Longrightarrow>
    aws_drain from_json (aws_stream fs) = Some (map (aws_decoded from_json \<circ> fst) fs, [])"
  by (induction fs) (auto simp: aws_stream_def aws_drain_encode)

text \<open>C32: AWS frames come out as they were written, however the stream is cut into chunks, whatever
  their checksums: each frame's event type and payload (parsed as JSON where it is JSON, raw text
  where it is not, null where it is blank), in order, with nothing left in the buffer.\<close>

theorem aws_roundtrip:
  assumes "list_all (\<lambda>(f, crc1, crc2). aws_good f \<and> length crc1 = 4 \<and> length crc2 = 4) fs"
    and "concat chunks = aws_stream fs"
  shows "aws_feed_all from_json chunks [] = Some (map (aws_decoded from_json \<circ> fst) fs, [])"
  using aws_feed_all_drain [of from_json "[]" chunks] aws_drain_stream [OF assms(1)] assms(2) by simp

theorem aws_roundtrip_witness:
  "aws_feed_all (\<lambda>_. None :: nat option) [take 9 (aws_encode (''a'', ''hi'') ''0000'' ''0000''),
      drop 9 (aws_encode (''a'', ''hi'') ''0000'' ''0000'')] []
    = Some ([\<lparr>af_event_type = Some ''a'', af_payload = Raw ''hi''\<rparr>], [])"
proof -
  have good: "aws_good (''a'', ''hi'')" by (simp add: aws_good_def MAX_FRAME_def) code_simp
  have "trim ''hi'' = ''hi''" by (simp add: trim_eval)
  then show ?thesis
    using aws_roundtrip [of "[((''a'', ''hi''), ''0000'', ''0000'')]" _ "\<lambda>_. None :: nat option"] good
    by (simp add: aws_stream_def aws_decoded_def del: aws_feed_all.simps)
qed

end
