(* ===== verification/Context.thy ===== *)
theory Context
  imports Ledger
begin

text \<open>
  \<open>harness/native/context_manager\<close>: the token accounting of a session's history
  (\<open>accounting.rs\<close>), the truncation of what enters it (\<open>truncation.rs\<close>), the manager over the
  ledger (\<open>mod.rs\<close>) and the compaction (\<open>compaction.rs\<close>), with the token limits of
  \<open>llm_router/model_meta.rs\<close>. The JSON printer and parser and the provider's answers are
  arguments; sizes of what is in memory are taken not to exceed 64 bits, token counts that come
  from the provider are added modulo \<open>2 ^ 64\<close>.
\<close>

section \<open>Accounting\<close>

definition estimate_tokens :: "(json \<Rightarrow> string) \<Rightarrow> json \<Rightarrow> nat" where
  "estimate_tokens pr v = length (pr v) div 4"

record token_state =
  last_server_total :: "nat option"
  local_appended :: nat
  ts_baseline :: nat
  cache_read :: nat
  cache_creation :: nat
  last_output :: nat
  last_input :: nat
  pending_input :: "nat option"
  pending_cache_read :: nat
  pending_cache_creation :: nat
  pending_output :: nat

definition default_tokens :: token_state where
  "default_tokens = \<lparr>last_server_total = None, local_appended = 0, ts_baseline = 0, cache_read = 0,
     cache_creation = 0, last_output = 0, last_input = 0, pending_input = None, pending_cache_read = 0,
     pending_cache_creation = 0, pending_output = 0\<rparr>"

definition usage_field :: "json \<Rightarrow> string \<Rightarrow> nat" where
  "usage_field usage k = (case Option.bind (jget k usage) as_u64 of Some n \<Rightarrow> n | None \<Rightarrow> 0)"

definition observe_start_usage :: "json \<Rightarrow> token_state \<Rightarrow> token_state" where
  "observe_start_usage usage t =
     (let input = usage_field usage ''input_tokens'';
          t = (if input > 0 then t\<lparr>pending_input := Some input\<rparr> else t)
      in t\<lparr>pending_cache_read := usage_field usage ''cache_read_input_tokens'',
           pending_cache_creation := usage_field usage ''cache_creation_input_tokens''\<rparr>)"

definition observe_delta_usage ::
    "int \<Rightarrow> int option \<Rightarrow> int option \<Rightarrow> int option \<Rightarrow> token_state \<Rightarrow> token_state" where
  "observe_delta_usage output input cread ccreate t =
     (let t = (if output > 0 then t\<lparr>pending_output := nat output\<rparr> else t);
          t = (case input of Some i \<Rightarrow> if i > 0 then t\<lparr>pending_input := Some (nat i)\<rparr> else t | None \<Rightarrow> t);
          t = (case cread of Some c \<Rightarrow> if c > 0 then t\<lparr>pending_cache_read := nat c\<rparr> else t | None \<Rightarrow> t)
      in (case ccreate of
            Some c \<Rightarrow> if c > 0 then t\<lparr>pending_cache_creation := nat c\<rparr> else t | None \<Rightarrow> t))"

definition server_or_baseline :: "token_state \<Rightarrow> nat" where
  "server_or_baseline t = (case last_server_total t of Some n \<Rightarrow> n | None \<Rightarrow> ts_baseline t)"

definition commit_tokens :: "token_state \<Rightarrow> token_state" where
  "commit_tokens t =
     (let t' = (case pending_input t of
          Some input \<Rightarrow>
            t\<lparr>pending_input := None, last_input := input, cache_read := pending_cache_read t,
              cache_creation := pending_cache_creation t, last_output := pending_output t,
              last_server_total := Some (add_u64 (add_u64 (add_u64 input (pending_cache_read t))
                (pending_cache_creation t)) (pending_output t)),
              local_appended := 0\<rparr>
        | None \<Rightarrow>
            if pending_output t > 0 then
              t\<lparr>last_output := pending_output t,
                last_server_total := Some (add_u64 (server_or_baseline t) (pending_output t)),
                local_appended := 0\<rparr>
            else t)
      in t'\<lparr>pending_cache_read := 0, pending_cache_creation := 0, pending_output := 0\<rparr>)"

definition active_tokens :: "token_state \<Rightarrow> nat" where
  "active_tokens t = add_u64 (server_or_baseline t) (local_appended t)"

section \<open>Truncation\<close>

fun floor_char_boundary :: "string \<Rightarrow> nat \<Rightarrow> nat" where
  "floor_char_boundary s 0 = 0"
| "floor_char_boundary s (Suc i) =
     (if Suc i \<ge> length s then length s
      else if is_char_boundary s (Suc i) then Suc i else floor_char_boundary s i)"

function ceil_char_boundary :: "string \<Rightarrow> nat \<Rightarrow> nat" where
  "ceil_char_boundary s i =
     (if i \<ge> length s then length s
      else if is_char_boundary s i then i else ceil_char_boundary s (i + 1))"
  by pat_completeness auto
termination
  by (relation "measure (\<lambda>(s, i). length s - i)") auto

definition BYTES_PER_TOKEN :: nat where
  "BYTES_PER_TOKEN = 4"

definition ELLIPSIS :: string where
  "ELLIPSIS = [CHR 0xE2, CHR 0x80, CHR 0xA6]"

definition truncate_for_context :: "string \<Rightarrow> nat \<Rightarrow> string" where
  "truncate_for_context s max_bytes =
     (if length s \<le> max_bytes then s
      else
        (let original_tokens = length s div BYTES_PER_TOKEN;
             original_lines = length (str_lines s);
             half = max (max_bytes div 2) 1;
             head_end = floor_char_boundary s half;
             tail_start = ceil_char_boundary s (length s - half);
             dropped_tokens = (tail_start - head_end) div BYTES_PER_TOKEN
         in ''Warning: truncated output (original ~'' @ show_nat original_tokens @ '' tokens, ''
            @ show_nat original_lines
            @ '' lines). Re-run with filters (grep, head, offset/limit) to see more.''
            @ [CHR 0x0A, CHR 0x0A] @ take head_end s @ [CHR 0x0A] @ ELLIPSIS @ '' [~''
            @ show_nat dropped_tokens @ '' tokens truncated] '' @ ELLIPSIS @ [CHR 0x0A]
            @ drop tail_start s))"

definition truncate_utf8_bytes :: "string \<Rightarrow> nat \<Rightarrow> string" where
  "truncate_utf8_bytes txt max_bytes =
     (if length txt \<le> max_bytes then txt else take (floor_char_boundary txt max_bytes) txt)"

section \<open>The manager\<close>

record model_meta =
  context_window :: nat
  max_output_tokens :: nat
  supports_prompt_cache :: bool

definition OUTPUT_RESERVE_CAP :: nat where
  "OUTPUT_RESERVE_CAP = 20000"

definition usable_window :: "model_meta \<Rightarrow> nat" where
  "usable_window m =
     max (context_window m - min (max_output_tokens m) OUTPUT_RESERVE_CAP) (context_window m div 2)"

definition auto_compact_limit :: "model_meta \<Rightarrow> nat \<Rightarrow> nat" where
  "auto_compact_limit m percent = mul_u64 (usable_window m) (min percent 95) div 100"

record context_config =
  cfg_meta :: model_meta
  auto_compact_percent :: nat
  tool_output_max_bytes :: nat
  compact_prompt :: "string option"
  cfg_version :: native_tools_version

definition with_meta :: "model_meta \<Rightarrow> context_config" where
  "with_meta m = \<lparr>cfg_meta = m, auto_compact_percent = 90, tool_output_max_bytes = 10000,
     compact_prompt = None, cfg_version = V1\<rparr>"

text \<open>The settings as read from the store: the percentage, the byte budget and the prompt, if any.\<close>

definition load_config :: "nat \<Rightarrow> nat \<Rightarrow> string option \<Rightarrow> model_meta \<Rightarrow> context_config" where
  "load_config percent budget prompt m =
     \<lparr>cfg_meta = m, auto_compact_percent = max 50 (min percent 95), tool_output_max_bytes = budget,
      compact_prompt = (case prompt of Some p \<Rightarrow> if trim p = [] then None else Some p | None \<Rightarrow> None),
      cfg_version = V1\<rparr>"

record context_status =
  st_active_tokens :: nat
  st_context_window :: nat
  st_usable_window :: nat
  percent_left :: nat
  needs_compaction :: bool

record context_manager =
  cm_ledger :: ledger
  cm_cfg :: context_config
  cm_tokens :: token_state
  last_served_model :: "string option"

definition load_manager ::
    "(json \<Rightarrow> string) \<Rightarrow> (string \<Rightarrow> json option) \<Rightarrow> string \<Rightarrow> context_config \<Rightarrow> ledger_db
     \<Rightarrow> ledger_error + context_manager" where
  "load_manager pr pa pk cfg db =
     try_bind (load pa pk db) (\<lambda>l.
       Inr \<lparr>cm_ledger = l, cm_cfg = cfg,
            cm_tokens = default_tokens\<lparr>local_appended := sum_list (map (estimate_tokens pr) (messages l))\<rparr>,
            last_served_model = None\<rparr>)"

definition ephemeral_manager :: "string \<Rightarrow> context_config \<Rightarrow> context_manager" where
  "ephemeral_manager pk cfg =
     \<lparr>cm_ledger = ephemeral pk, cm_cfg = cfg, cm_tokens = default_tokens, last_served_model = None\<rparr>"

definition seed_manager :: "(json \<Rightarrow> string) \<Rightarrow> string \<Rightarrow> context_config \<Rightarrow> json list \<Rightarrow> context_manager" where
  "seed_manager pr pk cfg msgs =
     \<lparr>cm_ledger = seed_projected pk msgs, cm_cfg = cfg,
      cm_tokens = default_tokens\<lparr>local_appended :=
        sum_list (map (estimate_tokens pr) (messages (seed_projected pk msgs)))\<rparr>,
      last_served_model = None\<rparr>"

definition seed_digest ::
    "(json \<Rightarrow> string) \<Rightarrow> string \<Rightarrow> context_config \<Rightarrow> json list \<Rightarrow> nat \<Rightarrow> context_manager" where
  "seed_digest pr pk cfg msgs tail = seed_manager pr pk cfg (drop (length msgs - tail) msgs)"

text \<open>The estimate grows before the store is written, and stays when that write fails.\<close>

definition manager_append ::
    "(json \<Rightarrow> string) \<Rightarrow> bool \<Rightarrow> string \<Rightarrow> json \<Rightarrow> context_manager \<times> ledger_db
     \<Rightarrow> (ledger_error + unit) \<times> context_manager \<times> ledger_db" where
  "manager_append pr ok role content s =
     (let (cm, db) = s;
          t = (cm_tokens cm)\<lparr>local_appended := local_appended (cm_tokens cm) + estimate_tokens pr content\<rparr>;
          cm = cm\<lparr>cm_tokens := t\<rparr>
      in case append_turn pr ok role content (cm_ledger cm, db) of
           Inl e \<Rightarrow> (Inl e, cm, db)
         | Inr (l, db') \<Rightarrow> (Inr (), cm\<lparr>cm_ledger := l\<rparr>, db'))"

definition manager_append_text ::
    "(json \<Rightarrow> string) \<Rightarrow> bool \<Rightarrow> string \<Rightarrow> string \<Rightarrow> context_manager \<times> ledger_db
     \<Rightarrow> (ledger_error + unit) \<times> context_manager \<times> ledger_db" where
  "manager_append_text pr ok role txt s =
     manager_append pr ok role (JArr [JObj [(''text'', JStr txt), (''type'', JStr ''text'')]]) s"

subsection \<open>Tool results\<close>

definition candidate :: "(json \<Rightarrow> string) \<Rightarrow> json \<Rightarrow> string \<Rightarrow> string" where
  "candidate pr envelope d = pr (jset ''data'' (JStr d) envelope)"

definition char_offsets :: "string \<Rightarrow> nat list" where
  "char_offsets s = filter (is_char_boundary s) [0..<length s] @ [length s]"

text \<open>The binary search over the character boundaries.\<close>

function search_boundary ::
    "(string \<Rightarrow> string) \<Rightarrow> nat \<Rightarrow> string \<Rightarrow> nat list \<Rightarrow> nat \<Rightarrow> nat \<Rightarrow> string \<Rightarrow> string" where
  "search_boundary cand budget data boundaries low high best =
     (if low < high then
        (let mid = low + (high - low) div 2;
             c = cand (truncate_utf8_bytes data (boundaries ! mid))
         in if length c \<le> budget then search_boundary cand budget data boundaries (mid + 1) high c
            else search_boundary cand budget data boundaries low mid best)
      else best)"
  by pat_completeness auto
termination
  by (relation "measure (\<lambda>(_, _, _, _, low, high, _). high - low)") auto

definition structurally_bound_v2_envelope ::
    "(json \<Rightarrow> string) \<Rightarrow> (string \<Rightarrow> json option) \<Rightarrow> string \<Rightarrow> nat \<Rightarrow> string" where
  "structurally_bound_v2_envelope pr pa txt budget =
     (if length txt \<le> budget then txt
      else case pa txt of
        None \<Rightarrow> txt
      | Some envelope \<Rightarrow>
          if Option.bind (jget ''ok'' envelope) as_bool \<noteq> Some True
             \<or> (case jget ''meta'' envelope of Some (JObj _) \<Rightarrow> False | _ \<Rightarrow> True)
          then pr envelope
          else (case get_str ''data'' envelope of
            None \<Rightarrow> pr envelope
          | Some data \<Rightarrow>
              (let e1 = jset ''meta'' (jset ''truncated'' (JBool True) (jidx envelope ''meta'')) envelope;
                   best = candidate pr e1 []
               in if length best > budget then best
                  else search_boundary (candidate pr e1) budget data (char_offsets data) 0
                         (length (char_offsets data)) best)))"

definition bound_v2_block ::
    "(json \<Rightarrow> string) \<Rightarrow> (string \<Rightarrow> json option) \<Rightarrow> nat \<Rightarrow> json \<Rightarrow> json" where
  "bound_v2_block pr pa budget b =
     (if Option.bind (jget ''type'' b) as_str \<noteq> Some ''text'' then b
      else case get_str ''text'' b of
        None \<Rightarrow> b
      | Some txt \<Rightarrow> jset ''text'' (JStr (structurally_bound_v2_envelope pr pa txt budget)) b)"

fun structurally_bound_v2_result_content ::
    "(json \<Rightarrow> string) \<Rightarrow> (string \<Rightarrow> json option) \<Rightarrow> nat \<Rightarrow> json \<Rightarrow> json" where
  "structurally_bound_v2_result_content pr pa budget (JStr txt) =
     JStr (structurally_bound_v2_envelope pr pa txt budget)"
| "structurally_bound_v2_result_content pr pa budget (JArr blocks) =
     JArr (map (bound_v2_block pr pa budget) blocks)"
| "structurally_bound_v2_result_content pr pa budget v = v"

definition bound_result ::
    "(json \<Rightarrow> string) \<Rightarrow> (string \<Rightarrow> json option) \<Rightarrow> context_config \<Rightarrow> json \<Rightarrow> json" where
  "bound_result pr pa cfg r =
     (if cfg_version cfg = V2 then
        (case jget ''content'' r of
           Some content \<Rightarrow>
             jset ''content'' (structurally_bound_v2_result_content pr pa (tool_output_max_bytes cfg) content) r
         | None \<Rightarrow> r)
      else (case get_str ''content'' r of
              Some s \<Rightarrow>
                if length s > tool_output_max_bytes cfg
                then jset ''content'' (JStr (truncate_for_context s (tool_output_max_bytes cfg))) r else r
            | None \<Rightarrow> r))"

definition append_tool_results ::
    "(json \<Rightarrow> string) \<Rightarrow> (string \<Rightarrow> json option) \<Rightarrow> bool \<Rightarrow> json list \<Rightarrow> context_manager \<times> ledger_db
     \<Rightarrow> (ledger_error + unit) \<times> context_manager \<times> ledger_db" where
  "append_tool_results pr pa ok results s =
     manager_append pr ok ''user'' (JArr (map (bound_result pr pa (cm_cfg (fst s))) results)) s"

subsection \<open>Requests and status\<close>

text \<open>The cache breakpoint on the last block of the last message.\<close>

definition mark_last_block :: "json \<Rightarrow> json" where
  "mark_last_block m =
     (case as_array (jidx m ''content'') of
        Some blocks \<Rightarrow>
          if blocks = [] then m
          else jset ''content'' (JArr (butlast blocks
                 @ [jset ''cache_control'' (JObj [(''type'', JStr ''ephemeral'')]) (last blocks)])) m
      | None \<Rightarrow> m)"

definition request_messages :: "(string \<Rightarrow> string) \<Rightarrow> context_manager \<Rightarrow> json list" where
  "request_messages v2_text cm =
     (let msgs = messages_for_request v2_text (cfg_version (cm_cfg cm)) (cm_ledger cm)
      in if supports_prompt_cache (cfg_meta (cm_cfg cm)) \<and> msgs \<noteq> []
         then butlast msgs @ [mark_last_block (last msgs)] else msgs)"

definition set_baseline :: "(json \<Rightarrow> string) \<Rightarrow> string \<Rightarrow> json list \<Rightarrow> context_manager \<Rightarrow> context_manager" where
  "set_baseline pr system tools cm =
     cm\<lparr>cm_tokens := (cm_tokens cm)\<lparr>ts_baseline :=
       (length system + sum_list (map (\<lambda>t. length (pr t)) tools)) div 4\<rparr>\<rparr>"

definition observe_message_start :: "json \<Rightarrow> context_manager \<Rightarrow> context_manager" where
  "observe_message_start msg cm =
     (let cm = (case get_str ''model'' msg of Some m \<Rightarrow> cm\<lparr>last_served_model := Some m\<rparr> | None \<Rightarrow> cm)
      in case jget ''usage'' msg of
           Some usage \<Rightarrow> cm\<lparr>cm_tokens := observe_start_usage usage (cm_tokens cm)\<rparr>
         | None \<Rightarrow> cm)"

definition observe_message_delta ::
    "int \<Rightarrow> int option \<Rightarrow> int option \<Rightarrow> int option \<Rightarrow> context_manager \<Rightarrow> context_manager" where
  "observe_message_delta output input cread ccreate cm =
     cm\<lparr>cm_tokens := observe_delta_usage output input cread ccreate (cm_tokens cm)\<rparr>"

definition commit_response :: "context_manager \<Rightarrow> context_manager" where
  "commit_response cm = cm\<lparr>cm_tokens := commit_tokens (cm_tokens cm)\<rparr>"

definition mark_full :: "context_manager \<Rightarrow> context_manager" where
  "mark_full cm =
     cm\<lparr>cm_tokens := (cm_tokens cm)\<lparr>last_server_total := Some (usable_window (cfg_meta (cm_cfg cm))),
                                     local_appended := 0\<rparr>\<rparr>"

definition seed_active_tokens :: "nat \<Rightarrow> context_manager \<Rightarrow> context_manager" where
  "seed_active_tokens active cm =
     (if active > active_tokens (cm_tokens cm)
      then cm\<lparr>cm_tokens := (cm_tokens cm)\<lparr>last_server_total := Some active, local_appended := 0\<rparr>\<rparr>
      else cm)"

definition status :: "context_manager \<Rightarrow> context_status" where
  "status cm =
     (let meta = cfg_meta (cm_cfg cm);
          active = active_tokens (cm_tokens cm);
          usable = usable_window meta;
          limit = auto_compact_limit meta (auto_compact_percent (cm_cfg cm));
          baseline = min (ts_baseline (cm_tokens cm)) (usable - 1)
      in \<lparr>st_active_tokens = active, st_context_window = context_window meta,
          st_usable_window = usable,
          percent_left = (if usable \<le> baseline then 0
                          else min (mul_u64 (usable - active) 100 div (usable - baseline)) 100),
          needs_compaction = (l_turns (cm_ledger cm) \<noteq> [] \<and> (active \<ge> limit \<or> active \<ge> usable))\<rparr>)"

definition is_context_overflow :: "string \<Rightarrow> bool" where
  "is_context_overflow msg =
     (let m = map to_ascii_lower msg
      in contains m ''prompt is too long'' \<or> contains m ''context_length_exceeded''
         \<or> contains m ''maximum context length'' \<or> contains m ''exceed context limit''
         \<or> contains m ''exceeds the context window'')"

section \<open>Compaction\<close>

definition SUMMARY_PREFIX :: string where
  "SUMMARY_PREFIX = ''[Ryuzi context summary]''"

definition RETAINED_USER_TOKENS :: nat where
  "RETAINED_USER_TOKENS = 20000"

definition SUMMARIZE_MAX_TOKENS :: int where
  "SUMMARIZE_MAX_TOKENS = 2048"

definition text_message :: "string \<Rightarrow> json" where
  "text_message txt = message ''user'' (JArr [JObj [(''text'', JStr txt), (''type'', JStr ''text'')]])"

definition is_tool_result :: "json \<Rightarrow> bool" where
  "is_tool_result b \<longleftrightarrow> jidx b ''type'' = JStr ''tool_result''"

definition oversized_result :: "json \<Rightarrow> bool" where
  "oversized_result b \<longleftrightarrow> is_tool_result b
     \<and> (case as_str (jidx b ''content'') of Some s \<Rightarrow> length s > 200 | None \<Rightarrow> False)"

definition trimmed_result :: "json \<Rightarrow> json" where
  "trimmed_result b =
     jset ''content'' (JStr ''Output exceeded the available model context and was truncated'') b"

text \<open>The two loops of \<open>pre_trim_tool_results\<close>; the flag is the \<open>break 'outer\<close>.\<close>

fun pre_trim_blocks :: "(json \<Rightarrow> string) \<Rightarrow> nat \<Rightarrow> nat \<Rightarrow> json list \<Rightarrow> nat \<times> bool \<times> json list" where
  "pre_trim_blocks pr usable total_est [] = (total_est, False, [])"
| "pre_trim_blocks pr usable total_est (b # bs) =
     (if oversized_result b then
        (let b' = trimmed_result b;
             total_est = total_est - (estimate_tokens pr b - estimate_tokens pr b')
         in if total_est \<le> usable then (total_est, True, b' # bs)
            else (let (total_est, stop, bs') = pre_trim_blocks pr usable total_est bs in (total_est, stop, b' # bs')))
      else (let (total_est, stop, bs') = pre_trim_blocks pr usable total_est bs in (total_est, stop, b # bs')))"

fun pre_trim_messages :: "(json \<Rightarrow> string) \<Rightarrow> nat \<Rightarrow> nat \<Rightarrow> json list \<Rightarrow> json list" where
  "pre_trim_messages pr usable total_est [] = []"
| "pre_trim_messages pr usable total_est (m # ms) =
     (case as_array (jidx m ''content'') of
        None \<Rightarrow> m # pre_trim_messages pr usable total_est ms
      | Some blocks \<Rightarrow>
          (let (total_est, stop, blocks') = pre_trim_blocks pr usable total_est blocks;
               m' = jset ''content'' (JArr blocks') m
           in m' # (if stop then ms else pre_trim_messages pr usable total_est ms)))"

definition pre_trim_tool_results :: "(json \<Rightarrow> string) \<Rightarrow> nat \<Rightarrow> json list \<Rightarrow> json list" where
  "pre_trim_tool_results pr usable msgs =
     (let total_est = sum_list (map (estimate_tokens pr) msgs)
      in if total_est \<le> usable then msgs else pre_trim_messages pr usable total_est msgs)"

definition valid_start :: "json \<Rightarrow> bool" where
  "valid_start m \<longleftrightarrow> jidx m ''role'' = JStr ''user''
     \<and> (case as_str (jidx (jnth (jidx m ''content'') 0) ''type'') of Some t \<Rightarrow> t | None \<Rightarrow> [])
       \<noteq> ''tool_result''"

definition drop_oldest_message :: "json list \<Rightarrow> json list" where
  "drop_oldest_message msgs = (case msgs of [] \<Rightarrow> [] | _ # ms \<Rightarrow> dropWhile (\<lambda>m. \<not> valid_start m) ms)"

definition first_text_block :: "json \<Rightarrow> string option" where
  "first_text_block content =
     Option.bind (as_array content) (\<lambda>blocks.
     Option.bind (find (\<lambda>b. jidx b ''type'' = JStr ''text'') blocks) (\<lambda>b. as_str (jidx b ''text'')))"

definition strip_tool_results :: "json \<Rightarrow> json" where
  "strip_tool_results m =
     message ''user'' (JArr (case as_array (jidx m ''content'') of
        Some blocks \<Rightarrow> filter (\<lambda>b. \<not> is_tool_result b) blocks | None \<Rightarrow> []))"

text \<open>The loop over the messages from the newest to the oldest.\<close>

fun retain :: "(json \<Rightarrow> string) \<Rightarrow> nat \<Rightarrow> json list \<Rightarrow> json list" where
  "retain pr budget [] = []"
| "retain pr budget (m # ms) =
     (if jidx m ''role'' \<noteq> JStr ''user'' then retain pr budget ms
      else case first_text_block (jidx m ''content'') of
        None \<Rightarrow> retain pr budget ms
      | Some txt \<Rightarrow>
          if starts_with txt SUMMARY_PREFIX then retain pr budget ms
          else if estimate_tokens pr m \<le> budget
          then strip_tool_results m # retain pr (budget - estimate_tokens pr m) ms
          else if budget > 100 then [text_message (truncate_for_context txt (budget * 4))]
          else [])"

definition summary_message :: "string \<Rightarrow> json" where
  "summary_message summary = text_message (SUMMARY_PREFIX @ [CHR 0x0A] @ summary)"

definition build_replacement :: "(json \<Rightarrow> string) \<Rightarrow> json list \<Rightarrow> string \<Rightarrow> json list" where
  "build_replacement pr msgs summary =
     rev (retain pr RETAINED_USER_TOKENS (rev msgs)) @ [summary_message summary]"

datatype compaction_error = NoModel | EmptyHistory | EmptySummary | ProviderFailed string | LedgerFailed ledger_error

definition summarize_body :: "string \<Rightarrow> string \<Rightarrow> json list \<Rightarrow> json" where
  "summarize_body model prompt working =
     JObj [(''max_tokens'', JInt SUMMARIZE_MAX_TOKENS),
           (''messages'', JArr (working @ [text_message prompt])),
           (''model'', JStr model), (''stream'', JBool True)]"

text \<open>The calls of the provider: the \<open>n\<close>-th answers \<open>collect n body\<close>.\<close>

function summarize ::
    "(nat \<Rightarrow> json \<Rightarrow> string + string) \<Rightarrow> string \<Rightarrow> string \<Rightarrow> nat \<Rightarrow> json list
     \<Rightarrow> compaction_error + json list \<times> string" where
  "summarize collect model prompt n working =
     (case collect n (summarize_body model prompt working) of
        Inr s \<Rightarrow> if trim s \<noteq> [] then Inr (working, trim s) else Inl EmptySummary
      | Inl e \<Rightarrow>
          if is_context_overflow e \<and> length working > 1
          then summarize collect model prompt (n + 1) (drop_oldest_message working)
          else Inl (ProviderFailed e))"
  by pat_completeness auto
termination
  by (relation "measure (\<lambda>(_, _, _, _, working). length working)")
    (auto simp: drop_oldest_message_def length_dropWhile_le less_Suc_eq_le split: list.splits)

record compaction_outcome =
  before_tokens :: nat
  after_tokens :: nat
  co_window_number :: nat

definition compact ::
    "(json \<Rightarrow> string) \<Rightarrow> (string \<Rightarrow> string) \<Rightarrow> (nat \<Rightarrow> json \<Rightarrow> string + string) \<Rightarrow> string \<Rightarrow> string \<Rightarrow> bool
     \<Rightarrow> context_manager \<times> ledger_db
     \<Rightarrow> (compaction_error + compaction_outcome) \<times> context_manager \<times> ledger_db" where
  "compact pr v2_text collect default_prompt model ok s =
     (let (cm, db) = s;
          before = st_active_tokens (status cm);
          prompt = (case compact_prompt (cm_cfg cm) of Some p \<Rightarrow> p | None \<Rightarrow> default_prompt);
          working = pre_trim_tool_results pr (usable_window (cfg_meta (cm_cfg cm)))
            (messages_for_request v2_text (cfg_version (cm_cfg cm)) (cm_ledger cm))
      in if model = [] then (Inl NoModel, s)
         else if l_turns (cm_ledger cm) = [] then (Inl EmptyHistory, s)
         else (case summarize collect model prompt 0 working of
           Inl e \<Rightarrow> (Inl e, s)
         | Inr (working, summary) \<Rightarrow>
             (case replace_all pr ok (build_replacement pr working summary) (cm_ledger cm, db) of
                Inl e \<Rightarrow> (Inl (LedgerFailed e), s)
              | Inr ((l, db'), window) \<Rightarrow>
                  (let t = (cm_tokens cm)\<lparr>last_server_total := None,
                         local_appended := sum_list (map (\<lambda>m. estimate_tokens pr (jidx m ''content'')) (messages l))\<rparr>;
                       cm' = cm\<lparr>cm_ledger := l, cm_tokens := t\<rparr>
                   in (Inr \<lparr>before_tokens = before, after_tokens = st_active_tokens (status cm'),
                            co_window_number = window\<rparr>, cm', db')))))"

end
