(* ===== verification/ContextSafety.thy ===== *)
theory ContextSafety
  imports Context "HOL-Library.Sublist"
begin

text \<open>
  What compaction may do to a history, what the token state says about it, and the bound on tool
  results that enter it.
\<close>

declare summarize.simps [simp del] search_boundary.simps [simp del] ceil_char_boundary.simps [simp del]

section \<open>The replacement\<close>

lemma role_text_message [simp]: "jidx (text_message t) ''role'' = JStr ''user''"
  by (simp add: text_message_def message_def)

lemma role_strip [simp]: "jidx (strip_tool_results m) ''role'' = JStr ''user''"
  by (simp add: strip_tool_results_def message_def)


lemma content_text_message [simp]:
  "jidx (text_message t) ''content'' = JArr [JObj [(''text'', JStr t), (''type'', JStr ''text'')]]"
  by (simp add: text_message_def message_def)

definition no_tool_results :: "json \<Rightarrow> bool" where
  "no_tool_results m \<longleftrightarrow>
     (case as_array (jidx m ''content'') of Some blocks \<Rightarrow> \<not> list_ex is_tool_result blocks | None \<Rightarrow> False)"

lemma no_tool_results_text [simp]: "no_tool_results (text_message t)"
  by (simp add: no_tool_results_def is_tool_result_def)

lemma no_tool_results_strip [simp]: "no_tool_results (strip_tool_results m)"
  by (auto simp: no_tool_results_def strip_tool_results_def message_def list_ex_iff)

definition is_summary :: "json \<Rightarrow> bool" where
  "is_summary m \<longleftrightarrow>
     (case first_text_block (jidx m ''content'') of Some t \<Rightarrow> starts_with t SUMMARY_PREFIX | None \<Rightarrow> False)"

lemma first_text_block_text [simp]: "first_text_block (jidx (text_message t) ''content'') = Some t"
  by (simp add: first_text_block_def)

lemma is_summary_text [simp]: "is_summary (text_message t) \<longleftrightarrow> starts_with t SUMMARY_PREFIX"
  unfolding is_summary_def first_text_block_text by simp









section \<open>Summarising\<close>

lemma suffix_drop_oldest: "suffix (drop_oldest_message ms) ms"
  by (cases ms) (auto simp: drop_oldest_message_def intro: suffix_dropWhile suffix_ConsI)

text \<open>The messages that were summarised are the given ones without some of the oldest.\<close>

lemma summarize_spec:
  "summarize collect model prompt n working = Inr (working', summary) \<Longrightarrow>
   suffix working' working \<and> summary \<noteq> []"
proof (induction collect model prompt n working rule: summarize.induct)
  case (1 collect model prompt n working)
  show ?case
  proof (cases "collect n (summarize_body model prompt working)")
    case (Inl e)
    with "1.prems" have more: "is_context_overflow e \<and> length working > 1"
      by (auto simp: summarize.simps [of collect _ _ n] split: if_splits)
    with Inl "1.prems" have
      "summarize collect model prompt (n + 1) (drop_oldest_message working) = Inr (working', summary)"
      by (simp add: summarize.simps [of collect _ _ n])
    with "1.IH" Inl more show ?thesis
      using suffix_drop_oldest suffix_order.trans by blast
  next
    case (Inr t)
    with "1.prems" show ?thesis by (auto simp: summarize.simps [of collect _ _ n] split: if_splits)
  qed
qed

lemma no_tool_uses: "jidx m ''role'' = JStr ''user'' \<Longrightarrow> \<not> is_assistant m"
  by simp








section \<open>Compaction is all or nothing\<close>

text \<open>The request messages the replacement is made from.\<close>

definition compaction_input :: "(json \<Rightarrow> string) \<Rightarrow> (string \<Rightarrow> string) \<Rightarrow> context_manager \<Rightarrow> json list" where
  "compaction_input pr v2_text cm = pre_trim_tool_results pr (usable_window (cfg_meta (cm_cfg cm)))
     (messages_for_request v2_text (cfg_version (cm_cfg cm)) (cm_ledger cm))"

lemma messages_replaced:
  "replace_all pr ok ms s = Inr ((l, db'), w) \<Longrightarrow> messages l = ms"
  by (auto simp: replace_all_def messages_def Let_def comp_def split: if_splits prod.splits)

lemma compact_Inr:
  assumes "compact pr v2_text collect dp model ok (cm, db) = (Inr out, cm', db')"
  obtains working summary l where
    "suffix working (compaction_input pr v2_text cm)" "summary \<noteq> []"
    "replace_all pr ok (build_replacement pr working summary) (cm_ledger cm, db) = Inr ((l, db'), co_window_number out)"
    "cm_ledger cm' = l" "cm_cfg cm' = cm_cfg cm" "last_server_total (cm_tokens cm') = None"
    "after_tokens out = st_active_tokens (status cm')"
proof -
  obtain working summary where sum: "summarize collect model
      (case compact_prompt (cm_cfg cm) of Some p \<Rightarrow> p | None \<Rightarrow> dp) 0 (compaction_input pr v2_text cm)
      = Inr (working, summary)"
    using assms by (auto simp: compact_def Let_def compaction_input_def split: if_splits sum.splits)
  obtain l w where rep: "replace_all pr ok (build_replacement pr working summary) (cm_ledger cm, db) = Inr ((l, db'), w)"
    using assms sum by (auto simp: compact_def Let_def compaction_input_def split: if_splits sum.splits)
  show ?thesis
    using that [of working summary l] assms sum rep summarize_spec [OF sum]
    by (auto simp: compact_def Let_def compaction_input_def split: if_splits)
qed




text \<open>C30: When the request to summarise overflows, the retry may drop the whole history: with one user
  message, a tool call and its result the first drop leaves nothing, the summary of the empty
  conversation is accepted, and the user's message, though far within the retained budget, is lost
  from the replacement, which is made from the working copy.\<close>

theorem overflow_retry_loses_user_message:
  "let call = message ''assistant'' (JArr [JObj [(''id'', JStr ''t''), (''name'', JStr ''bash''), (''type'', JStr ''tool_use'')]]);
       result = message ''user'' (JArr [JObj [(''content'', JStr ''r''), (''tool_use_id'', JStr ''t''), (''type'', JStr ''tool_result'')]]);
       cm = seed_manager (\<lambda>_. []) ''s''
         (with_meta \<lparr>context_window = 200000, max_output_tokens = 8000, supports_prompt_cache = True\<rparr>)
         [text_message ''please'', call, result]
   in \<exists>out cm'. compact (\<lambda>_. []) id (\<lambda>n _. if n = 0 then Inl ''prompt is too long'' else Inr ''s'') ''p'' ''m'' True (cm, db)
        = (Inr out, cm', db) \<and> messages (cm_ledger cm') = [summary_message ''s'']"
proof -
  let ?call = "message ''assistant'' (JArr [JObj [(''id'', JStr ''t''), (''name'', JStr ''bash''), (''type'', JStr ''tool_use'')]])"
    and ?result = "message ''user'' (JArr [JObj [(''content'', JStr ''r''), (''tool_use_id'', JStr ''t''), (''type'', JStr ''tool_result'')]])"
    and ?collect = "\<lambda>(n :: nat) (_ :: json). if n = 0 then Inl ''prompt is too long'' else Inr ''s''"
  let ?cm = "seed_manager (\<lambda>_. []) ''s''
    (with_meta \<lparr>context_window = 200000, max_output_tokens = 8000, supports_prompt_cache = True\<rparr>)
    [text_message ''please'', ?call, ?result]"
  have input: "messages_for_request id V1 (cm_ledger ?cm) = [text_message ''please'', ?call, ?result]"
    by (simp add: seed_manager_def seed_projected_def messages_for_request_def messages_def Let_def
        missing_tool_results_def tool_uses_def tool_results_def message_def text_message_def List.map_filter_def)
  have drop: "drop_oldest_message [text_message ''please'', ?call, ?result] = []"
    by (simp add: drop_oldest_message_def valid_start_def message_def)
  have "is_context_overflow ''prompt is too long''"
    by (simp add: is_context_overflow_def starts_with_def to_ascii_lower_def is_ascii_upper_def byte_def)
  moreover have "trim ''s'' = ''s''" by (simp add: trim_eval)
  ultimately have summ: "summarize ?collect ''m'' ''p'' 0 [text_message ''please'', ?call, ?result] = Inr ([], ''s'')"
    by (simp add: summarize.simps [of _ _ _ 0] summarize.simps [of _ _ _ "Suc 0"] drop)
  have build: "build_replacement (\<lambda>_. []) [] ''s'' = [summary_message ''s'']"
    by (simp add: build_replacement_def)
  have est: "estimate_tokens (\<lambda>_. []) = (\<lambda>_. 0)" by (simp add: fun_eq_iff estimate_tokens_def)
  have trimmed: "pre_trim_tool_results (\<lambda>_. []) n ms = ms" for n ms
    by (simp add: pre_trim_tool_results_def est Let_def)
  show ?thesis
    using input summ build unfolding Let_def
    by (simp add: compact_def Let_def trimmed replace_all_def messages_def comp_def)
      (simp add: seed_manager_def seed_projected_def with_meta_def replace_all_def messages_def comp_def Let_def)
qed

section \<open>Compaction and restart\<close>

lemma build_replacement_ne: "build_replacement pr ms summary \<noteq> []"
  by (simp add: build_replacement_def)

text \<open>C11: A compaction survives a restart: when the ledger and its tables came about by the session's
  own operations, the manager loaded from the tables right after a compaction holds the compacted
  history, and its next request is the one the running manager would make.\<close>

theorem compaction_survives_restart:
  assumes reach: "reachable new_session (ledger_step pr pa) (cm_ledger cm, db)"
    and ok: "compact pr v2_text collect dp model stored (cm, db) = (Inr out, cm', db')"
    and printed: "pa (pr (JArr (messages (cm_ledger cm')))) = Some (JArr (messages (cm_ledger cm')))"
  shows "\<exists>cm''. load_manager pr pa (l_session_pk (cm_ledger cm')) (cm_cfg cm) db' = Inr cm''
    \<and> cm_ledger cm'' = cm_ledger cm' \<and> request_messages v2_text cm'' = request_messages v2_text cm'"
proof -
  obtain working summary l where
    rep: "replace_all pr stored (build_replacement pr working summary) (cm_ledger cm, db) = Inr ((l, db'), co_window_number out)"
    and l: "cm_ledger cm' = l" "cm_cfg cm' = cm_cfg cm"
    using compact_Inr [OF ok] by metis
  have "ledger_step pr pa (cm_ledger cm, db) (l, db')"
    using printed messages_replaced [OF rep] l by (intro ledger_step.compact [OF rep build_replacement_ne]) simp
  then have "reachable new_session (ledger_step pr pa) (l, db')" using reach by (rule reachable.step [rotated])
  then have "load pa (l_session_pk l) db' = Inr l"
    by (intro load_synced durable_ledger.reachable_inv)
  then show ?thesis using l by (simp add: load_manager_def request_messages_def)
qed

theorem compaction_survives_restart_witness:
  "let m = summary_message ''s''; pr = (\<lambda>_ :: json. ''x''); pa = (\<lambda>_ :: string. Some (JArr [m]));
       cfg = \<lparr>cfg_meta = \<lparr>context_window = 0, max_output_tokens = 0, supports_prompt_cache = True\<rparr>,
              auto_compact_percent = 0, tool_output_max_bytes = 0, compact_prompt = None, cfg_version = V1\<rparr>;
       s = (\<lparr>l_session_pk = ''s'', l_store = True, l_turns = [], l_window_number = 0\<rparr>,
            \<lparr>provider_turns = [], context_checkpoints = []\<rparr>)
   in case append_user pr True (JArr [m]) s of
        Inl _ \<Rightarrow> False
      | Inr (l, db) \<Rightarrow>
          (case compact pr id (\<lambda>_ _. Inr ''s'') ''p'' ''m'' True
             (\<lparr>cm_ledger = l, cm_cfg = cfg, cm_tokens = default_tokens, last_served_model = None\<rparr>, db) of
             (Inl _, _) \<Rightarrow> False
           | (Inr out, cm', db') \<Rightarrow> \<exists>cm''. load_manager pr pa ''s'' cfg db' = Inr cm'' \<and> cm_ledger cm'' = cm_ledger cm')"
  (is "let m = ?m; pr = ?pr; pa = ?pa m; cfg = ?cfg; s = (?l, ?db) in _ m pr pa cfg s")
proof -
  let ?pa' = "?pa ?m"
  define l db where "l = ?l\<lparr>l_turns := [(1, message ''user'' (JArr [?m]))]\<rparr>"
    and "db = snd (insert_provider_turn ?pr ''s'' ''user'' (JArr [?m]) ?db)"
  then have l: "l_session_pk l = ''s''" "l_turns l = [(1, message ''user'' (JArr [?m]))]" "l_store l" "l_window_number l = 0"
    and step: "append_turn ?pr True ''user'' (JArr [?m]) (?l, ?db) = Inr (l, db)"
    by (simp_all add: append_turn_def insert_provider_turn_def Let_def max_seq_def turns_of_def)
  have "new_session (?l, ?db)" by (simp add: new_session_def turns_of_def checkpoints_of_def)
  then have "reachable new_session (ledger_step ?pr ?pa') (?l, ?db)" by (rule reachable.start)
  then have reach: "reachable new_session (ledger_step ?pr ?pa') (l, db)"
    by (rule reachable.step) (rule ledger_step.append [OF step], simp)
  let ?cm = "\<lparr>cm_ledger = l, cm_cfg = ?cfg, cm_tokens = default_tokens, last_served_model = None\<rparr>"
  let ?c = "compact ?pr id (\<lambda>_ _. Inr ''s'') ''p'' ''m'' True (?cm, db)"
  have input: "compaction_input ?pr id ?cm = [message ''user'' (JArr [?m])]"
    by (simp add: compaction_input_def pre_trim_tool_results_def messages_for_request_def messages_def l
        estimate_tokens_def missing_tool_results_def message_def Let_def)
  have summ: "summarize (\<lambda>_ _. Inr ''s'') ''m'' ''p'' 0 ms = Inr (ms, ''s'')" for ms
    by (simp add: summarize.simps trim_eval)
  have rep: "build_replacement ?pr [message ''user'' (JArr [?m])] ''s'' = [?m]"
    by (simp add: build_replacement_def first_text_block_def message_def summary_message_def text_message_def)
  obtain out cm' db' where c: "?c = (Inr out, cm', db')" and cm': "messages (cm_ledger cm') = [?m]" "l_session_pk (cm_ledger cm') = ''s''"
    using input summ rep
    by (simp add: compact_def compaction_input_def Let_def replace_all_def l messages_def comp_def)
  have "reachable new_session (ledger_step ?pr ?pa') (cm_ledger ?cm, db)" using reach by simp
  from compaction_survives_restart [OF this c] cm' step c show ?thesis
    by (auto simp: append_user_def Let_def)
qed

section \<open>Overflow\<close>

lemma usable_le: "usable_window m \<le> context_window m"
  by (simp add: usable_window_def)

lemma active_mark_full:
  "context_window (cfg_meta (cm_cfg cm)) \<le> u64_max \<Longrightarrow>
   active_tokens (cm_tokens (mark_full cm)) = usable_window (cfg_meta (cm_cfg cm))"
  using usable_le [of "cfg_meta (cm_cfg cm)"]
  by (simp add: active_tokens_def mark_full_def server_or_baseline_def add_u64_def u64_max_def u64_modulus_def)

text \<open>An overflow reported by the provider forces a compaction of any history that is not empty:
  the marked state has nothing left, and a manager of the same configuration that is seeded with its
  persisted token count, after a restart, asks for the compaction too.\<close>

theorem overflow_forces_compaction:
  assumes "context_window (cfg_meta (cm_cfg cm)) \<le> u64_max" and "l_turns (cm_ledger cm) \<noteq> []"
    and "cm_cfg resumed = cm_cfg cm" and "l_turns (cm_ledger resumed) \<noteq> []"
  shows "percent_left (status (mark_full cm)) = 0 \<and> needs_compaction (status (mark_full cm))
    \<and> needs_compaction (status (seed_active_tokens (st_active_tokens (status (mark_full cm))) resumed))"
proof -
  have cfg: "cm_cfg (mark_full cm) = cm_cfg cm" "cm_ledger (mark_full cm) = cm_ledger cm"
    by (simp_all add: mark_full_def)
  have "active_tokens (cm_tokens (seed_active_tokens (usable_window (cfg_meta (cm_cfg cm))) resumed))
      \<ge> usable_window (cfg_meta (cm_cfg cm))"
    using assms(1) usable_le [of "cfg_meta (cm_cfg cm)"]
    by (simp add: seed_active_tokens_def active_tokens_def server_or_baseline_def add_u64_def u64_max_def u64_modulus_def)
  moreover have "cm_cfg (seed_active_tokens n resumed) = cm_cfg cm"
    "cm_ledger (seed_active_tokens n resumed) = cm_ledger resumed" for n
    by (simp_all add: seed_active_tokens_def assms)
  ultimately show ?thesis
    using assms(2,4) cfg active_mark_full [OF assms(1)]
    by (simp add: status_def Let_def mul_u64_def)
qed

theorem overflow_forces_compaction_witness:
  "let cm = \<lparr>cm_ledger = \<lparr>l_session_pk = ''s'', l_store = False, l_turns = [(1, JNull)], l_window_number = 0\<rparr>,
         cm_cfg = \<lparr>cfg_meta = \<lparr>context_window = 200000, max_output_tokens = 8000, supports_prompt_cache = True\<rparr>,
           auto_compact_percent = 80, tool_output_max_bytes = 100, compact_prompt = None, cfg_version = V2\<rparr>,
         cm_tokens = default_tokens, last_served_model = None\<rparr>
   in \<not> needs_compaction (status cm)
      \<and> needs_compaction (status (seed_active_tokens (st_active_tokens (status (mark_full cm))) cm))"
proof -
  let ?cm = "\<lparr>cm_ledger = \<lparr>l_session_pk = ''s'', l_store = False, l_turns = [(1, JNull)], l_window_number = 0\<rparr>,
         cm_cfg = \<lparr>cfg_meta = \<lparr>context_window = 200000, max_output_tokens = 8000, supports_prompt_cache = True\<rparr>,
           auto_compact_percent = 80, tool_output_max_bytes = 100, compact_prompt = None, cfg_version = V2\<rparr>,
         cm_tokens = default_tokens, last_served_model = None\<rparr>"
  have "\<not> needs_compaction (status ?cm)"
    by (simp add: status_def default_tokens_def active_tokens_def server_or_baseline_def add_u64_def
        auto_compact_limit_def usable_window_def mul_u64_def OUTPUT_RESERVE_CAP_def u64_modulus_def Let_def)
  then show ?thesis
    using overflow_forces_compaction [of ?cm ?cm] by (simp add: u64_max_def)
qed


section \<open>Bounding a tool result\<close>

lemma floor_boundary: "is_char_boundary s n \<Longrightarrow> n \<le> length s \<Longrightarrow> floor_char_boundary s n = n"
  by (cases n) auto

lemma truncate_at_boundary: "is_char_boundary s n \<Longrightarrow> n \<le> length s \<Longrightarrow> truncate_utf8_bytes s n = take n s"
  by (simp add: truncate_utf8_bytes_def floor_boundary)

text \<open>The binary search returns the candidate of the last position that fits, when the positions
  that fit come before those that do not.\<close>

lemma search_boundary_spec:
  assumes "low \<le> k" "k \<le> high"
    and "\<forall>i < k. length (cand (truncate_utf8_bytes data (bs ! i))) \<le> budget"
    and "\<forall>i. k \<le> i \<and> i < high \<longrightarrow> length (cand (truncate_utf8_bytes data (bs ! i))) > budget"
    and "low > 0 \<longrightarrow> best = cand (truncate_utf8_bytes data (bs ! (low - 1)))"
    and "k > 0"
  shows "search_boundary cand budget data bs low high best = cand (truncate_utf8_bytes data (bs ! (k - 1)))"
  using assms
proof (induction cand budget data bs low high best rule: search_boundary.induct)
  case (1 cand budget data bs low high best)
  define mid where "mid = low + (high - low) div 2"
  show ?case
  proof (cases "low < high")
    case True
    then have mid: "low \<le> mid" "mid < high" by (auto simp: mid_def)
    show ?thesis
    proof (cases "mid < k")
      case fits: True
      then have "length (cand (truncate_utf8_bytes data (bs ! mid))) \<le> budget" using "1.prems"(3) by blast
      moreover from this have "search_boundary cand budget data bs (mid + 1) high
          (cand (truncate_utf8_bytes data (bs ! mid))) = cand (truncate_utf8_bytes data (bs ! (k - 1)))"
        by (intro "1.IH"(1) [OF True mid_def refl]) (use "1.prems"(2-4,6) fits in simp_all)
      ultimately show ?thesis
        using True unfolding search_boundary.simps [of cand budget data bs low high] Let_def mid_def by (simp only: if_True)
    next
      case large: False
      then have "\<not> length (cand (truncate_utf8_bytes data (bs ! mid))) \<le> budget"
        using "1.prems"(4) mid by (simp add: not_le)
      moreover from this have "search_boundary cand budget data bs low mid best
          = cand (truncate_utf8_bytes data (bs ! (k - 1)))"
        by (intro "1.IH"(2) [OF True mid_def refl]) (use "1.prems"(1,3-6) large mid in simp_all)
      ultimately show ?thesis
        using True unfolding search_boundary.simps [of cand budget data bs low high] Let_def mid_def by (simp only: if_True if_False)
    qed
  next
    case False
    with "1.prems"(1,2) have "low = k" by simp
    with False "1.prems"(5,6) show ?thesis by (simp add: search_boundary.simps [of cand budget data bs k])
  qed
qed

lemma char_offsets_facts:
  shows "set (char_offsets s) = {n. n \<le> length s \<and> is_char_boundary s n}"
    and "sorted (char_offsets s)" and "char_offsets s ! 0 = 0" and "char_offsets s \<noteq> []"
proof -
  show "set (char_offsets s) = {n. n \<le> length s \<and> is_char_boundary s n}"
    by (auto simp: char_offsets_def is_char_boundary_def)
  show "sorted (char_offsets s)"
    by (auto simp: char_offsets_def sorted_append intro: sorted_wrt_filter)
  show "char_offsets s ! 0 = 0"
    by (cases s) (simp_all add: char_offsets_def upt_conv_Cons is_char_boundary_def del: upt_Suc)
qed (simp add: char_offsets_def)

text \<open>The envelope that carries a shortened result.\<close>

definition truncated_envelope :: "json \<Rightarrow> json" where
  "truncated_envelope envelope =
     jset ''meta'' (jset ''truncated'' (JBool True) (jidx envelope ''meta'')) envelope"

text \<open>A threshold for the positions of a sorted list.\<close>

lemma fits_threshold:
  fixes P :: "nat \<Rightarrow> bool"
  assumes "\<And>i j. i \<le> j \<Longrightarrow> j < n \<Longrightarrow> P j \<Longrightarrow> P i" "P 0" "0 < n"
  obtains k where "0 < k" "k \<le> n" "\<forall>i < k. P i" "\<forall>i. k \<le> i \<and> i < n \<longrightarrow> \<not> P i"
proof (cases "\<exists>i < n. \<not> P i")
  case True
  define k where "k = (LEAST i. \<not> P i)"
  have "\<not> P k" using True LeastI_ex [of "\<lambda>i. \<not> P i"] unfolding k_def by blast
  moreover have "k < n" using True Least_le [of "\<lambda>i. \<not> P i"] le_less_trans unfolding k_def by blast
  moreover have "\<forall>i < k. P i" unfolding k_def using not_less_Least by blast
  ultimately show ?thesis using that [of k] assms by (metis gr0I less_imp_le)
next
  case False
  then show ?thesis using that [of n] assms(3) by auto
qed

text \<open>C29: A tool result that is over the budget keeps as much of its data as fits: when the printer
  gives longer data a longer text, and the envelope without data fits, the bounded result is the
  envelope, marked as truncated, with the longest prefix of the data, cut between two characters,
  whose text is within the budget.\<close>

theorem v2_result_bounded:
  assumes "pa txt = Some envelope" and "budget < length txt"
    and "Option.bind (jget ''ok'' envelope) as_bool = Some True"
    and "jget ''meta'' envelope = Some (JObj meta)" and "get_str ''data'' envelope = Some data"
    and mono: "\<And>a b. length a \<le> length b \<Longrightarrow> prefix a data \<Longrightarrow> prefix b data \<Longrightarrow>
      length (candidate pr (truncated_envelope envelope) a) \<le> length (candidate pr (truncated_envelope envelope) b)"
    and fits: "length (candidate pr (truncated_envelope envelope) []) \<le> budget"
  shows "\<exists>n. n \<le> length data \<and> is_char_boundary data n
    \<and> structurally_bound_v2_envelope pr pa txt budget = candidate pr (truncated_envelope envelope) (take n data)
    \<and> length (structurally_bound_v2_envelope pr pa txt budget) \<le> budget
    \<and> (\<forall>m. n < m \<and> m \<le> length data \<and> is_char_boundary data m \<longrightarrow>
         budget < length (candidate pr (truncated_envelope envelope) (take m data)))"
proof -
  let ?cand = "candidate pr (truncated_envelope envelope)" and ?bs = "char_offsets data"
  let ?P = "\<lambda>i. length (?cand (truncate_utf8_bytes data (?bs ! i))) \<le> budget"
  have at: "truncate_utf8_bytes data (?bs ! i) = take (?bs ! i) data"
    "?bs ! i \<le> length data" "is_char_boundary data (?bs ! i)" if "i < length ?bs" for i
    using that nth_mem [OF that] char_offsets_facts(1) [of data] truncate_at_boundary by auto
  have down: "?P i" if "i \<le> j" "j < length ?bs" "?P j" for i j
  proof -
    have le: "?bs ! i \<le> ?bs ! j" using that sorted_nth_mono [OF char_offsets_facts(2)] by blast
    have "length (?cand (take (?bs ! i) data)) \<le> length (?cand (take (?bs ! j) data))"
      by (rule mono) (use le that at(2) in \<open>simp_all add: take_is_prefix\<close>)
    then show ?thesis using that at by simp
  qed
  have first: "?P 0" using at(1) [of 0] char_offsets_facts(3,4) [of data] fits by simp
  have ne: "0 < length ?bs" using char_offsets_facts(4) by simp
  obtain k where k: "0 < k" "k \<le> length ?bs" "\<forall>i < k. ?P i" "\<forall>i. k \<le> i \<and> i < length ?bs \<longrightarrow> \<not> ?P i"
    by (rule fits_threshold [of "length ?bs" ?P, OF down first ne])
  let ?n = "?bs ! (k - 1)"
  have "structurally_bound_v2_envelope pr pa txt budget
      = search_boundary ?cand budget data ?bs 0 (length ?bs) (?cand [])"
    using assms(2) fits
    unfolding structurally_bound_v2_envelope_def assms(1,3-5) truncated_envelope_def Let_def option.case json.case
    by (simp only: simp_thms not_le if_True if_False) simp
  also have "\<dots> = ?cand (truncate_utf8_bytes data ?n)"
    using k by (intro search_boundary_spec) (auto simp: not_le)
  finally have r: "structurally_bound_v2_envelope pr pa txt budget = ?cand (take ?n data)"
    using at(1) [of "k - 1"] k by simp
  have beyond: "budget < length (?cand (take m data))"
    if "?n < m" "m \<le> length data" "is_char_boundary data m" for m
  proof -
    have "m \<in> set ?bs" unfolding char_offsets_facts(1) using that by simp
    then obtain i where i: "i < length ?bs" "?bs ! i = m" by (auto simp only: in_set_conv_nth)
    have "k \<le> i"
    proof (rule ccontr)
      assume "\<not> k \<le> i"
      then have "m \<le> ?n"
        using i k sorted_nth_mono [OF char_offsets_facts(2), of i "k - 1" data] by simp
      then show False using that(1) by simp
    qed
    then have "\<not> ?P i" using k(4) i by blast
    then show ?thesis using at(1) [OF i(1)] i(2) by simp
  qed
  have last: "k - 1 < length ?bs" "k - 1 < k" using k(1,2) by auto
  have "length (?cand (take ?n data)) \<le> budget"
    using k(3) [rule_format, OF last(2)] unfolding at(1) [OF last(1)] .
  then show ?thesis
    unfolding r using beyond at(2,3) [OF last(1)] by blast
qed


theorem v2_result_bounded_witness:
  "let envelope = JObj [(''data'', JStr ''abc''), (''meta'', JObj []), (''ok'', JBool True)];
       pr = (\<lambda>v. case get_str ''data'' v of Some d \<Rightarrow> d | None \<Rightarrow> [])
   in \<exists>n. structurally_bound_v2_envelope pr (\<lambda>_. Some envelope) ''text'' 2
        = candidate pr (truncated_envelope envelope) (take n ''abc'')
      \<and> length (structurally_bound_v2_envelope pr (\<lambda>_. Some envelope) ''text'' 2) \<le> 2"
proof -
  let ?e = "JObj [(''data'', JStr ''abc''), (''meta'', JObj []), (''ok'', JBool True)]"
    and ?pr = "\<lambda>v. case get_str ''data'' v of Some d \<Rightarrow> d | None \<Rightarrow> []"
  have prints: "candidate ?pr (truncated_envelope ?e) d = d" for d
    by (simp add: candidate_def truncated_envelope_def get_str_def)
  have "\<exists>n. n \<le> length ''abc'' \<and> is_char_boundary ''abc'' n
    \<and> structurally_bound_v2_envelope ?pr (\<lambda>_. Some ?e) ''text'' 2 = candidate ?pr (truncated_envelope ?e) (take n ''abc'')
    \<and> length (structurally_bound_v2_envelope ?pr (\<lambda>_. Some ?e) ''text'' 2) \<le> 2
    \<and> (\<forall>m. n < m \<and> m \<le> length ''abc'' \<and> is_char_boundary ''abc'' m \<longrightarrow>
         2 < length (candidate ?pr (truncated_envelope ?e) (take m ''abc'')))"
    by (rule v2_result_bounded [where meta = "[]"])
      (unfold prints, simp_all add: get_str_def)
  then show ?thesis unfolding Let_def by blast
qed

end
