(* ===== verification/Translate.thy ===== *)
theory Translate
  imports Ledger Streams
begin

text \<open>
  \<open>llm_router/translate/mod.rs\<close>: the translation between the Anthropic and the OpenAI chat
  protocols, of requests and of answers, whole and streamed; and the two pumps of
  \<open>llm_router/client.rs\<close> that put a byte stream of an upstream through the parser of server-sent
  events and the translator. The JSON printer and parser are the arguments \<open>pr\<close> and \<open>pa\<close>, the
  current time is the argument \<open>created\<close>; a printer does not fail on a JSON value, so the
  \<open>Result\<close> of the request translations, which is only that failure, is left out.
\<close>

section \<open>Values\<close>

text \<open>\<open>as_i64\<close>, and subtraction and addition of such integers, which wrap around.\<close>

definition wrap_i64 :: "int \<Rightarrow> int" where
  "wrap_i64 i = (i + 2 ^ 63) mod 2 ^ 64 - 2 ^ 63"

fun as_i64 :: "json \<Rightarrow> int option" where
  "as_i64 (JInt i) = (if - (2 ^ 63) \<le> i \<and> i < 2 ^ 63 then Some i else None)"
| "as_i64 _ = None"

definition i64_or :: "int \<Rightarrow> json \<Rightarrow> int" where
  "i64_or d v = (case as_i64 v of Some i \<Rightarrow> i | None \<Rightarrow> d)"

definition str_or :: "string \<Rightarrow> json \<Rightarrow> string" where
  "str_or d v = (case as_str v of Some s \<Rightarrow> s | None \<Rightarrow> d)"

definition array_or_empty :: "json \<Rightarrow> json list" where
  "array_or_empty v = (case as_array v of Some vs \<Rightarrow> vs | None \<Rightarrow> [])"

section \<open>Stop reasons and contents\<close>

definition oai_finish_to_anthropic :: "string \<Rightarrow> string" where
  "oai_finish_to_anthropic reason =
     (if reason = ''length'' then ''max_tokens''
      else if reason = ''tool_calls'' then ''tool_use'' else ''end_turn'')"

definition anthropic_stop_to_oai :: "string \<Rightarrow> string" where
  "anthropic_stop_to_oai reason =
     (if reason = ''max_tokens'' then ''length''
      else if reason = ''tool_use'' then ''tool_calls'' else ''stop'')"

definition block_texts :: "json list \<Rightarrow> string list" where
  "block_texts blocks =
     List.map_filter (\<lambda>b. as_str (jidx b ''text'')) (filter (\<lambda>b. jidx b ''type'' = JStr ''text'') blocks)"

fun as_text :: "json \<Rightarrow> string" where
  "as_text (JStr s) = s"
| "as_text (JArr blocks) = join [CHR 0x0A] (block_texts blocks)"
| "as_text _ = []"

fun tool_content_text :: "json \<Rightarrow> json" where
  "tool_content_text (JStr s) = JStr s"
| "tool_content_text v = JStr (as_text v)"

definition image_part :: "json \<Rightarrow> json" where
  "image_part b =
     JObj [(''image_url'', JObj [(''url'', JStr (''data:''
               @ str_or ''image/png'' (jidx (jidx b ''source'') ''media_type'') @ '';base64,''
               @ str_or [] (jidx (jidx b ''source'') ''data'')))]),
           (''type'', JStr ''image_url'')]"

definition split_tool_result_images :: "json \<Rightarrow> json \<times> json list" where
  "split_tool_result_images v =
     (case as_array v of
        None \<Rightarrow> (tool_content_text v, [])
      | Some blocks \<Rightarrow>
          (let images = map image_part (filter (\<lambda>b. jidx b ''type'' = JStr ''image'') blocks)
           in if images = [] then (tool_content_text v, [])
              else (JStr (join [CHR 0x0A] (block_texts blocks)), images)))"

section \<open>Requests\<close>

definition copy_key :: "json \<Rightarrow> string \<Rightarrow> (string \<times> json) list \<Rightarrow> (string \<times> json) list" where
  "copy_key src k dst = (case jget k src of Some v \<Rightarrow> insert_key k v dst | None \<Rightarrow> dst)"

definition copy_common :: "json \<Rightarrow> (string \<times> json) list \<Rightarrow> (string \<times> json) list" where
  "copy_common src dst =
     copy_key src ''model'' (fold (copy_key src) [''temperature'', ''top_p'', ''stream'', ''metadata''] dst)"

subsection \<open>From Anthropic to OpenAI\<close>

record turn_parts =
  text_parts :: "json list"
  tool_calls :: "json list"
  turn_results :: "json list"
  hoisted_images :: "json list"

definition text_part :: "json \<Rightarrow> json" where
  "text_part t = JObj [(''text'', t), (''type'', JStr ''text'')]"

definition tool_call :: "(json \<Rightarrow> string) \<Rightarrow> json \<Rightarrow> json" where
  "tool_call pr b =
     JObj [(''function'', JObj [(''arguments'', JStr (pr (jidx b ''input''))), (''name'', jidx b ''name'')]),
           (''id'', jidx b ''id''), (''type'', JStr ''function'')]"

definition tool_message :: "json \<Rightarrow> json \<Rightarrow> json" where
  "tool_message call_id content =
     JObj [(''content'', content), (''role'', JStr ''tool''), (''tool_call_id'', call_id)]"

definition add_block :: "(json \<Rightarrow> string) \<Rightarrow> json \<Rightarrow> turn_parts \<Rightarrow> turn_parts" where
  "add_block pr b t =
     (let kind = str_or [] (jidx b ''type'')
      in if kind = ''text'' then t\<lparr>text_parts := text_parts t @ [text_part (jidx b ''text'')]\<rparr>
         else if kind = ''image'' then t\<lparr>text_parts := text_parts t @ [image_part b]\<rparr>
         else if kind = ''tool_use'' then t\<lparr>tool_calls := tool_calls t @ [tool_call pr b]\<rparr>
         else if kind = ''tool_result'' then
           (let (content, images) = split_tool_result_images (jidx b ''content'')
            in t\<lparr>turn_results := turn_results t @ [tool_message (jidx b ''tool_use_id'') content],
                 hoisted_images := hoisted_images t @ images\<rparr>)
         else t)"

definition turn_of :: "(json \<Rightarrow> string) \<Rightarrow> json list \<Rightarrow> turn_parts" where
  "turn_of pr blocks = fold (add_block pr) blocks
     \<lparr>text_parts = [], tool_calls = [], turn_results = [], hoisted_images = []\<rparr>"

definition assistant_message :: "string \<Rightarrow> json list \<Rightarrow> json" where
  "assistant_message txt calls =
     JObj ((''content'', if txt = [] \<and> calls \<noteq> [] then JNull else JStr txt)
           # (''role'', JStr ''assistant'')
           # (if calls = [] then [] else [(''tool_calls'', JArr calls)]))"

definition hoist_messages :: "json list \<Rightarrow> json list" where
  "hoist_messages images = (if images = [] then [] else [message ''user'' (JArr images)])"

definition user_messages :: "json list \<Rightarrow> json list" where
  "user_messages parts =
     (if parts = [] then []
      else [message ''user'' (if length parts = 1 \<and> jidx (hd parts) ''type'' = JStr ''text''
              then jidx (hd parts) ''text'' else JArr parts)])"

definition turn_messages :: "(json \<Rightarrow> string) \<Rightarrow> string \<Rightarrow> json list \<Rightarrow> json list" where
  "turn_messages pr role blocks =
     (let t = turn_of pr blocks
      in if role = ''assistant'' then
           assistant_message (concat (List.map_filter (\<lambda>p. as_str (jidx p ''text'')) (text_parts t))) (tool_calls t)
           # turn_results t @ hoist_messages (hoisted_images t)
         else turn_results t @ hoist_messages (hoisted_images t) @ user_messages (text_parts t))"

definition anthropic_message_to_openai :: "(json \<Rightarrow> string) \<Rightarrow> json \<Rightarrow> json list" where
  "anthropic_message_to_openai pr m =
     (let role = str_or ''user'' (jidx m ''role'')
      in case jidx m ''content'' of
           JStr s \<Rightarrow> [message role (JStr s)]
         | JArr blocks \<Rightarrow> turn_messages pr role blocks
         | _ \<Rightarrow> [])"

definition system_messages :: "json \<Rightarrow> json list" where
  "system_messages body =
     (case jget ''system'' body of
        Some sys \<Rightarrow> if as_text sys = [] then [] else [message ''system'' (JStr (as_text sys))]
      | None \<Rightarrow> [])"

definition openai_messages :: "(json \<Rightarrow> string) \<Rightarrow> json list \<Rightarrow> json list" where
  "openai_messages pr msgs = concat (map (anthropic_message_to_openai pr) msgs)"

definition openai_tool :: "json \<Rightarrow> json" where
  "openai_tool t =
     JObj [(''function'', JObj ([(''description'', jidx t ''description''), (''name'', jidx t ''name''),
               (''parameters'', jidx t ''input_schema'')]
               @ (case jget ''strict'' t of Some s \<Rightarrow> [(''strict'', s)] | None \<Rightarrow> []))),
           (''type'', JStr ''function'')]"

definition openai_tool_choice :: "json \<Rightarrow> json" where
  "openai_tool_choice tc =
     (let kind = str_or ''auto'' (jidx tc ''type'')
      in if kind = ''any'' then JStr ''required''
         else if kind = ''tool'' then
           JObj [(''function'', JObj [(''name'', jidx tc ''name'')]), (''type'', JStr ''function'')]
         else if kind = ''none'' then JStr ''none'' else JStr ''auto'')"

definition reasoning_effort :: "int \<Rightarrow> string" where
  "reasoning_effort budget =
     (if budget \<ge> 16384 then ''high'' else if budget \<ge> 8192 then ''medium'' else ''low'')"

definition opt_key :: "string \<Rightarrow> json option \<Rightarrow> (string \<times> json) list \<Rightarrow> (string \<times> json) list" where
  "opt_key k v out = (case v of Some x \<Rightarrow> insert_key k x out | None \<Rightarrow> out)"

definition anthropic_to_openai_request :: "(json \<Rightarrow> string) \<Rightarrow> json \<Rightarrow> json" where
  "anthropic_to_openai_request pr body =
     (let out = opt_key ''stop'' (jget ''stop_sequences'' body) (copy_key body ''max_tokens'' (copy_common body []));
          out = (if Option.bind (map_of out ''stream'') as_bool = Some True
                 then insert_key ''stream_options'' (JObj [(''include_usage'', JBool True)]) out else out);
          out = insert_key ''messages''
            (JArr (system_messages body @ openai_messages pr (array_or_empty (jidx body ''messages'')))) out;
          out = opt_key ''tools'' (map_option (\<lambda>ts. JArr (map openai_tool ts)) (as_array (jidx body ''tools''))) out;
          out = opt_key ''tool_choice'' (map_option openai_tool_choice (jget ''tool_choice'' body)) out;
          out = opt_key ''reasoning_effort''
            (map_option (\<lambda>b. JStr (reasoning_effort b)) (as_i64 (jidx (jidx body ''thinking'') ''budget_tokens''))) out
      in JObj out)"

subsection \<open>From OpenAI to Anthropic\<close>

definition tool_result_block :: "json \<Rightarrow> json" where
  "tool_result_block m =
     JObj [(''content'', tool_content_text (jidx m ''content'')), (''tool_use_id'', jidx m ''tool_call_id''),
           (''type'', JStr ''tool_result'')]"

definition can_merge :: "json \<Rightarrow> bool" where
  "can_merge lst \<longleftrightarrow> jidx lst ''role'' = JStr ''user''
     \<and> (case as_array (jidx lst ''content'') of
          Some arr \<Rightarrow> arr \<noteq> [] \<and> list_all (\<lambda>b. jidx b ''type'' = JStr ''tool_result'') arr
        | None \<Rightarrow> False)"

definition push_tool_result :: "json \<Rightarrow> json list \<Rightarrow> json list" where
  "push_tool_result block msgs =
     (if msgs \<noteq> [] \<and> can_merge (last msgs)
      then butlast msgs
        @ [jset ''content'' (JArr (array_or_empty (jidx (last msgs) ''content'') @ [block])) (last msgs)]
      else msgs @ [message ''user'' (JArr [block])])"

definition tool_use_block :: "(string \<Rightarrow> json option) \<Rightarrow> json \<Rightarrow> json" where
  "tool_use_block pa tc =
     JObj [(''id'', jidx tc ''id''),
           (''input'', case pa (str_or ''{}'' (jidx (jidx tc ''function'') ''arguments'')) of
              Some v \<Rightarrow> v | None \<Rightarrow> JObj []),
           (''name'', jidx (jidx tc ''function'') ''name''), (''type'', JStr ''tool_use'')]"

definition assistant_blocks :: "(string \<Rightarrow> json option) \<Rightarrow> json \<Rightarrow> json list" where
  "assistant_blocks pa m =
     (let txt = as_text (jidx m ''content'')
      in (if txt = [] then [] else [text_part (JStr txt)])
         @ map (tool_use_block pa) (array_or_empty (jidx m ''tool_calls'')))"

definition parse_data_uri :: "string \<Rightarrow> (string \<times> string) option" where
  "parse_data_uri url = Option.bind (strip_prefix url ''data:'') (\<lambda>rest. split_once_str '';base64,'' rest)"

definition user_block :: "json \<Rightarrow> json option" where
  "user_block p =
     (let kind = str_or [] (jidx p ''type'')
      in if kind = ''text'' then Some (text_part (jidx p ''text''))
         else if kind = ''image_url'' then
           map_option (\<lambda>(mt, data). JObj [(''source'', JObj [(''data'', JStr data), (''media_type'', JStr mt),
               (''type'', JStr ''base64'')]), (''type'', JStr ''image'')])
             (parse_data_uri (str_or [] (jidx (jidx p ''image_url'') ''url'')))
         else None)"

definition add_openai_message ::
    "(string \<Rightarrow> json option) \<Rightarrow> json \<Rightarrow> string list \<times> json list \<Rightarrow> string list \<times> json list" where
  "add_openai_message pa m s =
     (let (system, msgs) = s; role = str_or ''user'' (jidx m ''role'')
      in if role = ''system'' \<or> role = ''developer'' then (system @ [as_text (jidx m ''content'')], msgs)
         else if role = ''tool'' then (system, push_tool_result (tool_result_block m) msgs)
         else if role = ''assistant'' then
           (system, if assistant_blocks pa m = [] then msgs
                    else msgs @ [message ''assistant'' (JArr (assistant_blocks pa m))])
         else (system, msgs @ [message ''user'' (case jidx m ''content'' of
                 JArr parts \<Rightarrow> JArr (List.map_filter user_block parts) | other \<Rightarrow> other)]))"

definition anthropic_messages :: "(string \<Rightarrow> json option) \<Rightarrow> json list \<Rightarrow> string list \<times> json list" where
  "anthropic_messages pa msgs = fold (add_openai_message pa) msgs ([], [])"

definition anthropic_tool :: "json \<Rightarrow> json" where
  "anthropic_tool t =
     JObj [(''description'', jidx (jidx t ''function'') ''description''),
           (''input_schema'', jidx (jidx t ''function'') ''parameters''),
           (''name'', jidx (jidx t ''function'') ''name'')]"

fun anthropic_tool_choice :: "json \<Rightarrow> json" where
  "anthropic_tool_choice (JStr s) =
     JObj [(''type'', JStr (if s = ''required'' then ''any'' else if s = ''none'' then ''none'' else ''auto''))]"
| "anthropic_tool_choice (JObj kvs) =
     JObj [(''name'', jidx (jidx (JObj kvs) ''function'') ''name''), (''type'', JStr ''tool'')]"
| "anthropic_tool_choice _ = JObj [(''type'', JStr ''auto'')]"

definition openai_to_anthropic_request :: "(string \<Rightarrow> json option) \<Rightarrow> json \<Rightarrow> json" where
  "openai_to_anthropic_request pa body =
     (let out = insert_key ''max_tokens''
            (case jget ''max_tokens'' body of Some v \<Rightarrow> v
             | None \<Rightarrow> (case jget ''max_completion_tokens'' body of Some v \<Rightarrow> v | None \<Rightarrow> JInt 4096))
            (copy_common body []);
          out = opt_key ''stop_sequences''
            (map_option (\<lambda>v. if as_str v \<noteq> None then JArr [v] else v) (jget ''stop'' body)) out;
          (system, msgs) = anthropic_messages pa (array_or_empty (jidx body ''messages''));
          out = (if system = [] then out
                 else insert_key ''system'' (JStr (join [CHR 0x0A, CHR 0x0A] system)) out);
          out = insert_key ''messages'' (JArr msgs) out;
          out = opt_key ''tools'' (map_option (\<lambda>ts. JArr (map anthropic_tool ts)) (as_array (jidx body ''tools''))) out;
          out = opt_key ''tool_choice'' (map_option anthropic_tool_choice (jget ''tool_choice'' body)) out
      in JObj out)"

section \<open>Whole answers\<close>

definition first_choice :: "json \<Rightarrow> json" where
  "first_choice v = jnth (jidx v ''choices'') 0"

definition openai_to_anthropic_response :: "(string \<Rightarrow> json option) \<Rightarrow> json \<Rightarrow> json" where
  "openai_to_anthropic_response pa resp =
     (let msg = jidx (first_choice resp) ''message'';
          content = (case as_str (jidx msg ''content'') of
              Some t \<Rightarrow> if t = [] then [] else [text_part (JStr t)] | None \<Rightarrow> [])
            @ map (tool_use_block pa) (array_or_empty (jidx msg ''tool_calls''));
          usage = jidx resp ''usage'';
          prompt_tokens = i64_or 0 (jidx usage ''prompt_tokens'');
          cached_tokens = i64_or 0 (jidx (jidx usage ''prompt_tokens_details'') ''cached_tokens'')
      in JObj [(''content'', JArr content), (''id'', jidx resp ''id''), (''model'', jidx resp ''model''),
               (''role'', JStr ''assistant''),
               (''stop_reason'', JStr (oai_finish_to_anthropic (str_or ''stop'' (jidx (first_choice resp) ''finish_reason'')))),
               (''stop_sequence'', JNull), (''type'', JStr ''message''),
               (''usage'', JObj [(''cache_read_input_tokens'', JInt cached_tokens),
                  (''input_tokens'', JInt (max (wrap_i64 (prompt_tokens - cached_tokens)) 0)),
                  (''output_tokens'', JInt (i64_or 0 (jidx usage ''completion_tokens'')))])])"

definition indexed_tool_call :: "(json \<Rightarrow> string) \<Rightarrow> nat \<Rightarrow> json \<Rightarrow> json" where
  "indexed_tool_call pr i b =
     JObj [(''function'', JObj [(''arguments'', JStr (pr (jidx b ''input''))), (''name'', jidx b ''name'')]),
           (''id'', jidx b ''id''), (''index'', JInt (int i)), (''type'', JStr ''function'')]"

definition anthropic_to_openai_response :: "(json \<Rightarrow> string) \<Rightarrow> int \<Rightarrow> json \<Rightarrow> json" where
  "anthropic_to_openai_response pr created resp =
     (let blocks = array_or_empty (jidx resp ''content'');
          txt = concat (map (\<lambda>b. str_or [] (jidx b ''text'')) (filter (\<lambda>b. str_or [] (jidx b ''type'') = ''text'') blocks));
          uses = filter (\<lambda>b. str_or [] (jidx b ''type'') = ''tool_use'') blocks;
          calls = map (\<lambda>(i, b). indexed_tool_call pr i b) (enumerate 0 uses);
          inp = i64_or 0 (jidx (jidx resp ''usage'') ''input_tokens'');
          outp = i64_or 0 (jidx (jidx resp ''usage'') ''output_tokens'')
      in JObj [(''choices'', JArr [JObj [
                  (''finish_reason'', JStr (anthropic_stop_to_oai (str_or ''end_turn'' (jidx resp ''stop_reason'')))),
                  (''index'', JInt 0), (''logprobs'', JNull),
                  (''message'', JObj ((''content'', JStr txt) # (''role'', JStr ''assistant'')
                     # (if calls = [] then [] else [(''tool_calls'', JArr calls)])))]]),
               (''created'', JInt created), (''id'', jidx resp ''id''), (''model'', jidx resp ''model''),
               (''object'', JStr ''chat.completion''),
               (''usage'', JObj [(''completion_tokens'', JInt outp), (''prompt_tokens'', JInt inp),
                  (''total_tokens'', JInt (wrap_i64 (inp + outp)))])])"


section \<open>Streams: OpenAI chunks to Anthropic events\<close>

datatype open_block = NoBlock | TextBlock | ThinkingBlock | ToolBlock

record oa_stream =
  oa_model :: string
  oa_started :: bool
  oa_block :: open_block
  oa_index :: int
  oa_finish_reason :: "string option"
  oa_output_tokens :: int
  oa_input_tokens :: int
  oa_cache_read_tokens :: int
  oa_stopped :: bool

type_synonym sse = "string \<times> json"

definition oa_new :: "string \<Rightarrow> oa_stream" where
  "oa_new model = \<lparr>oa_model = model, oa_started = False, oa_block = NoBlock, oa_index = -1,
     oa_finish_reason = None, oa_output_tokens = 0, oa_input_tokens = 0, oa_cache_read_tokens = 0,
     oa_stopped = False\<rparr>"

definition message_start :: "string \<Rightarrow> string \<Rightarrow> sse" where
  "message_start msg_id model =
     (''message_start'', JObj [(''message'', JObj [(''content'', JArr []), (''id'', JStr msg_id),
          (''model'', JStr model), (''role'', JStr ''assistant''), (''stop_reason'', JNull),
          (''stop_sequence'', JNull), (''type'', JStr ''message''),
          (''usage'', JObj [(''input_tokens'', JInt 0), (''output_tokens'', JInt 0)])]),
        (''type'', JStr ''message_start'')])"

definition block_start :: "int \<Rightarrow> json \<Rightarrow> sse" where
  "block_start i block =
     (''content_block_start'', JObj [(''content_block'', block), (''index'', JInt i),
        (''type'', JStr ''content_block_start'')])"

definition block_delta :: "int \<Rightarrow> json \<Rightarrow> sse" where
  "block_delta i delta =
     (''content_block_delta'', JObj [(''delta'', delta), (''index'', JInt i),
        (''type'', JStr ''content_block_delta'')])"

definition block_stop :: "int \<Rightarrow> sse" where
  "block_stop i =
     (''content_block_stop'', JObj [(''index'', JInt i), (''type'', JStr ''content_block_stop'')])"

definition ensure_start :: "json \<Rightarrow> oa_stream \<Rightarrow> oa_stream \<times> sse list" where
  "ensure_start chunk t =
     (if oa_started t then (t, [])
      else (t\<lparr>oa_started := True\<rparr>, [message_start (str_or ''msg_router'' (jidx chunk ''id'')) (oa_model t)]))"

definition close_block :: "oa_stream \<Rightarrow> oa_stream \<times> sse list" where
  "close_block t =
     (if oa_block t \<noteq> NoBlock then (t\<lparr>oa_block := NoBlock\<rparr>, [block_stop (oa_index t)]) else (t, []))"

definition open_new :: "open_block \<Rightarrow> json \<Rightarrow> oa_stream \<Rightarrow> oa_stream \<times> sse list" where
  "open_new kind block t =
     (let (t, out) = close_block t; t = t\<lparr>oa_index := oa_index t + 1, oa_block := kind\<rparr>
      in (t, out @ [block_start (oa_index t) block]))"

text \<open>The branches for reasoning and for text: the block is opened unless it is open.\<close>

definition feed_text :: "open_block \<Rightarrow> json \<Rightarrow> (string \<Rightarrow> json) \<Rightarrow> json \<Rightarrow> oa_stream \<Rightarrow> oa_stream \<times> sse list" where
  "feed_text kind block delta v t =
     (case as_str v of
        None \<Rightarrow> (t, [])
      | Some txt \<Rightarrow>
          if txt = [] then (t, [])
          else (let (t, out) = (if oa_block t \<noteq> kind then open_new kind block t else (t, []))
                in (t, out @ [block_delta (oa_index t) (delta txt)])))"

definition thinking_delta :: "string \<Rightarrow> json" where
  "thinking_delta txt = JObj [(''thinking'', JStr txt), (''type'', JStr ''thinking_delta'')]"

definition text_delta :: "string \<Rightarrow> json" where
  "text_delta txt = JObj [(''text'', JStr txt), (''type'', JStr ''text_delta'')]"

definition input_json_delta :: "string \<Rightarrow> json" where
  "input_json_delta frag = JObj [(''partial_json'', JStr frag), (''type'', JStr ''input_json_delta'')]"

definition thinking_block :: json where
  "thinking_block = JObj [(''thinking'', JStr []), (''type'', JStr ''thinking'')]"

definition text_block :: json where
  "text_block = JObj [(''text'', JStr []), (''type'', JStr ''text'')]"

definition open_tool_block :: "json \<Rightarrow> json \<Rightarrow> json" where
  "open_tool_block call_id name =
     JObj [(''id'', call_id), (''input'', JObj []), (''name'', name), (''type'', JStr ''tool_use'')]"

definition feed_tool_call :: "json \<Rightarrow> oa_stream \<times> sse list \<Rightarrow> oa_stream \<times> sse list" where
  "feed_tool_call tc s =
     (let (t, out) = s; f = jidx tc ''function'';
          (t, out1) = (if as_str (jidx tc ''id'') \<noteq> None \<or> as_str (jidx f ''name'') \<noteq> None
                       then open_new ToolBlock (open_tool_block (jidx tc ''id'') (jidx f ''name'')) t
                       else (t, []));
          out2 = (case as_str (jidx f ''arguments'') of
              Some frag \<Rightarrow> if frag = [] then [] else [block_delta (oa_index t) (input_json_delta frag)]
            | None \<Rightarrow> [])
      in (t, out @ out1 @ out2))"

definition observe_usage :: "json \<Rightarrow> oa_stream \<Rightarrow> oa_stream" where
  "observe_usage chunk t =
     (case jget ''usage'' chunk of
        None \<Rightarrow> t
      | Some u \<Rightarrow> t\<lparr>oa_input_tokens := i64_or (oa_input_tokens t) (jidx u ''prompt_tokens''),
                     oa_output_tokens := i64_or (oa_output_tokens t) (jidx u ''completion_tokens''),
                     oa_cache_read_tokens := i64_or (oa_cache_read_tokens t)
                       (jidx (jidx u ''prompt_tokens_details'') ''cached_tokens'')\<rparr>)"

definition oa_feed :: "json \<Rightarrow> oa_stream \<Rightarrow> oa_stream \<times> sse list" where
  "oa_feed chunk t =
     (let (t, out0) = ensure_start chunk t;
          t = observe_usage chunk t;
          choice = first_choice chunk;
          delta = jidx choice ''delta'';
          (t, out1) = feed_text ThinkingBlock thinking_block thinking_delta (jidx delta ''reasoning_content'') t;
          (t, out2) = feed_text TextBlock text_block text_delta (jidx delta ''content'') t;
          (t, out3) = fold feed_tool_call (array_or_empty (jidx delta ''tool_calls'')) (t, []);
          t = (case as_str (jidx choice ''finish_reason'') of
                 Some fr \<Rightarrow> t\<lparr>oa_finish_reason := Some fr\<rparr> | None \<Rightarrow> t)
      in (t, out0 @ out1 @ out2 @ out3))"

definition message_delta :: "string \<Rightarrow> int \<Rightarrow> int \<Rightarrow> int \<Rightarrow> sse" where
  "message_delta stop output input cache =
     (''message_delta'', JObj [(''delta'', JObj [(''stop_reason'', JStr stop), (''stop_sequence'', JNull)]),
        (''type'', JStr ''message_delta''),
        (''usage'', JObj [(''cache_read_input_tokens'', JInt cache), (''input_tokens'', JInt input),
           (''output_tokens'', JInt output)])])"

definition message_stop :: sse where
  "message_stop = (''message_stop'', JObj [(''type'', JStr ''message_stop'')])"

definition oa_finish :: "oa_stream \<Rightarrow> oa_stream \<times> sse list" where
  "oa_finish t =
     (if oa_stopped t then (t, [])
      else
        (let (t, out) = close_block (t\<lparr>oa_stopped := True\<rparr>);
             stop = (case oa_finish_reason t of Some r \<Rightarrow> oai_finish_to_anthropic r | None \<Rightarrow> ''end_turn'')
         in (t, out @ [message_delta stop (oa_output_tokens t)
                  (max (wrap_i64 (oa_input_tokens t - oa_cache_read_tokens t)) 0) (oa_cache_read_tokens t),
                message_stop])))"

definition oa_error_frame :: "string \<Rightarrow> sse list" where
  "oa_error_frame msg =
     [(''error'', JObj [(''error'', JObj [(''message'', JStr msg), (''type'', JStr ''api_error'')]),
         (''type'', JStr ''error'')])]"

definition oa_usage :: "oa_stream \<Rightarrow> int \<times> int" where
  "oa_usage t = (oa_input_tokens t, oa_output_tokens t)"

definition saw_terminal :: "oa_stream \<Rightarrow> bool" where
  "saw_terminal t \<longleftrightarrow> oa_finish_reason t \<noteq> None"

fun oa_feed_all :: "json list \<Rightarrow> oa_stream \<Rightarrow> oa_stream \<times> sse list" where
  "oa_feed_all [] t = (t, [])"
| "oa_feed_all (c # cs) t =
     (let (t, out) = oa_feed c t; (t, rest) = oa_feed_all cs t in (t, out @ rest))"

section \<open>Streams: Anthropic events to OpenAI chunks\<close>

record ao_stream =
  ao_id :: string
  ao_model :: string
  ao_sent_role :: bool
  ao_done :: bool
  ao_tool_index :: "int \<rightharpoonup> int"
  ao_next_tool :: int
  ao_finish_reason :: "string option"
  ao_input_tokens :: int
  ao_usage_out :: int

definition ao_new :: ao_stream where
  "ao_new = \<lparr>ao_id = ''chatcmpl-router'', ao_model = [], ao_sent_role = False, ao_done = False,
     ao_tool_index = Map.empty, ao_next_tool = 0, ao_finish_reason = None, ao_input_tokens = 0, ao_usage_out = 0\<rparr>"

definition ao_chunk :: "int \<Rightarrow> ao_stream \<Rightarrow> json \<Rightarrow> string option \<Rightarrow> json" where
  "ao_chunk created t delta finish =
     JObj [(''choices'', JArr [JObj [(''delta'', delta),
              (''finish_reason'', case finish of Some f \<Rightarrow> JStr f | None \<Rightarrow> JNull),
              (''index'', JInt 0), (''logprobs'', JNull)]]),
           (''created'', JInt created), (''id'', JStr (ao_id t)), (''model'', JStr (ao_model t)),
           (''object'', JStr ''chat.completion.chunk'')]"

definition call_start :: "int \<Rightarrow> json \<Rightarrow> json \<Rightarrow> json" where
  "call_start i call_id name =
     JObj [(''tool_calls'', JArr [JObj [(''function'', JObj [(''arguments'', JStr []), (''name'', name)]),
        (''id'', call_id), (''index'', JInt i), (''type'', JStr ''function'')]])]"

definition call_fragment :: "int \<Rightarrow> json \<Rightarrow> json" where
  "call_fragment i frag =
     JObj [(''tool_calls'', JArr [JObj [(''function'', JObj [(''arguments'', frag)]), (''index'', JInt i)]])]"

definition ao_message_start :: "int \<Rightarrow> json \<Rightarrow> ao_stream \<Rightarrow> ao_stream \<times> json list" where
  "ao_message_start created data t =
     (let msg = jidx data ''message'';
          t = t\<lparr>ao_id := str_or (ao_id t) (jidx msg ''id''), ao_model := str_or (ao_model t) (jidx msg ''model''),
                ao_input_tokens := i64_or (ao_input_tokens t) (jidx (jidx msg ''usage'') ''input_tokens''),
                ao_sent_role := True\<rparr>
      in (t, [ao_chunk created t (JObj [(''content'', JStr []), (''role'', JStr ''assistant'')]) None]))"

definition ao_block_start :: "int \<Rightarrow> json \<Rightarrow> ao_stream \<Rightarrow> ao_stream \<times> json list" where
  "ao_block_start created data t =
     (let block = jidx data ''content_block''
      in if jidx block ''type'' = JStr ''tool_use'' then
           (let oidx = ao_next_tool t;
                t = t\<lparr>ao_next_tool := oidx + 1,
                      ao_tool_index := (ao_tool_index t)(i64_or 0 (jidx data ''index'') \<mapsto> oidx)\<rparr>
            in (t, [ao_chunk created t (call_start oidx (jidx block ''id'') (jidx block ''name'')) None]))
         else (t, []))"

definition ao_block_delta :: "int \<Rightarrow> json \<Rightarrow> ao_stream \<Rightarrow> ao_stream \<times> json list" where
  "ao_block_delta created data t =
     (let d = jidx data ''delta''; kind = str_or [] (jidx d ''type'')
      in if kind = ''text_delta'' then (t, [ao_chunk created t (JObj [(''content'', jidx d ''text'')]) None])
         else if kind = ''input_json_delta'' then
           (let oidx = (case ao_tool_index t (i64_or 0 (jidx data ''index'')) of Some i \<Rightarrow> i | None \<Rightarrow> 0)
            in (t, [ao_chunk created t (call_fragment oidx (jidx d ''partial_json'')) None]))
         else (t, []))"

definition ao_message_delta :: "json \<Rightarrow> ao_stream \<Rightarrow> ao_stream" where
  "ao_message_delta data t =
     (let t = (case as_str (jidx (jidx data ''delta'') ''stop_reason'') of
                 Some sr \<Rightarrow> t\<lparr>ao_finish_reason := Some (anthropic_stop_to_oai sr)\<rparr> | None \<Rightarrow> t)
      in t\<lparr>ao_usage_out := i64_or (ao_usage_out t) (jidx (jidx data ''usage'') ''output_tokens'')\<rparr>)"

definition ao_feed :: "int \<Rightarrow> sse \<Rightarrow> ao_stream \<Rightarrow> ao_stream \<times> json list" where
  "ao_feed created ev t =
     (let (name, data) = ev
      in if name = ''message_start'' then ao_message_start created data t
         else if name = ''content_block_start'' then ao_block_start created data t
         else if name = ''content_block_delta'' then ao_block_delta created data t
         else if name = ''message_delta'' then (ao_message_delta data t, [])
         else if name = ''message_stop'' then
           (t\<lparr>ao_done := True\<rparr>,
            [ao_chunk created t (JObj []) (Some (case ao_finish_reason t of Some f \<Rightarrow> f | None \<Rightarrow> ''stop''))])
         else (t, []))"

definition ao_finish :: "ao_stream \<Rightarrow> bool" where
  "ao_finish t = ao_done t"

definition ao_error_frame :: "string \<Rightarrow> json" where
  "ao_error_frame msg =
     JObj [(''error'', JObj [(''message'', JStr msg), (''type'', JStr ''api_error'')])]"

definition ao_usage :: "ao_stream \<Rightarrow> int \<times> int" where
  "ao_usage t = (ao_input_tokens t, ao_usage_out t)"

fun ao_feed_all :: "int \<Rightarrow> sse list \<Rightarrow> ao_stream \<Rightarrow> ao_stream \<times> json list" where
  "ao_feed_all created [] t = (t, [])"
| "ao_feed_all created (e # es) t =
     (let (t, out) = ao_feed created e t; (t, rest) = ao_feed_all created es t in (t, out @ rest))"

section \<open>The pumps\<close>

text \<open>
  What the upstream delivers: byte chunks, and perhaps a transport error after which nothing is
  read. The consumer of the channel is taken to stay; one that leaves sees a prefix of the events.
\<close>

fun pump_chunks :: "(string \<Rightarrow> json option) \<Rightarrow> sse_event list \<Rightarrow> oa_stream \<Rightarrow> oa_stream \<times> sse list" where
  "pump_chunks pa [] t = (t, [])"
| "pump_chunks pa (ev # evs) t =
     (if se_data ev = ''[DONE]'' then pump_chunks pa evs t
      else case pa (se_data ev) of
             None \<Rightarrow> pump_chunks pa evs t
           | Some v \<Rightarrow> (let (t, out) = oa_feed v t; (t, rest) = pump_chunks pa evs t in (t, out @ rest)))"

fun pump_openai_loop ::
    "(string \<Rightarrow> json option) \<Rightarrow> (string + string) list \<Rightarrow> sse_parser \<Rightarrow> oa_stream
     \<Rightarrow> oa_stream \<times> string option \<times> sse list" where
  "pump_openai_loop pa [] p t = (t, None, [])"
| "pump_openai_loop pa (Inl e # items) p t = (t, Some e, [])"
| "pump_openai_loop pa (Inr bytes # items) p t =
     (let (evs, p) = sse_feed bytes p; (t, out) = pump_chunks pa evs t;
          (t, err, rest) = pump_openai_loop pa items p t
      in (t, err, out @ rest))"

definition pump_openai_translated ::
    "(string \<Rightarrow> json option) \<Rightarrow> string \<Rightarrow> (string + string) list \<Rightarrow> sse list \<times> (int \<times> int) \<times> bool" where
  "pump_openai_translated pa model items =
     (let (t, err, out) = pump_openai_loop pa items sse_default (oa_new model)
      in case err of
           Some e \<Rightarrow> (out @ oa_error_frame (''upstream stream interrupted: '' @ e), oa_usage t, True)
         | None \<Rightarrow>
             if saw_terminal t then (out @ snd (oa_finish t), oa_usage (fst (oa_finish t)), False)
             else (out @ oa_error_frame ''upstream stream ended without a terminal event'', oa_usage t, True))"

end
