(* ===== verification/TranslateSafety.thy ===== *)
theory TranslateSafety
  imports Translate StreamSafety
begin

text \<open>
  What the translated streams mean. An OpenAI stream is read as its \<open>parts\<close> (thinking, text, tool
  calls and fragments of their arguments), an Anthropic stream by a client that accepts only the
  event order of the protocol and collects the content blocks.
\<close>

section \<open>Parts of a stream\<close>

datatype part = PThink string | PText string | PCall int json json | PArgs int string

definition text_parts_of :: "(string \<Rightarrow> part) \<Rightarrow> json \<Rightarrow> part list" where
  "text_parts_of mk v = (case as_str v of Some s \<Rightarrow> if s = [] then [] else [mk s] | None \<Rightarrow> [])"

definition call_parts :: "json \<Rightarrow> part list" where
  "call_parts tc =
     (let f = jidx tc ''function''; i = i64_or 0 (jidx tc ''index'')
      in (if as_str (jidx tc ''id'') \<noteq> None \<or> as_str (jidx f ''name'') \<noteq> None
          then [PCall i (jidx tc ''id'') (jidx f ''name'')] else [])
         @ text_parts_of (PArgs i) (jidx f ''arguments''))"

definition chunk_parts :: "json \<Rightarrow> part list" where
  "chunk_parts chunk =
     (let delta = jidx (first_choice chunk) ''delta''
      in text_parts_of PThink (jidx delta ''reasoning_content'') @ text_parts_of PText (jidx delta ''content'')
         @ concat (map call_parts (array_or_empty (jidx delta ''tool_calls''))))"

definition stream_parts :: "json list \<Rightarrow> part list" where
  "stream_parts chunks = concat (map chunk_parts chunks)"

text \<open>The last finish reason of the stream.\<close>

definition chunk_finish :: "json \<Rightarrow> string option" where
  "chunk_finish chunk = as_str (jidx (first_choice chunk) ''finish_reason'')"

fun stream_finish :: "json list \<Rightarrow> string option \<Rightarrow> string option" where
  "stream_finish [] r = r"
| "stream_finish (c # cs) r = stream_finish cs (case chunk_finish c of Some f \<Rightarrow> Some f | None \<Rightarrow> r)"

text \<open>What the translator does with one part.\<close>

definition emit_text :: "open_block \<Rightarrow> json \<Rightarrow> json \<Rightarrow> oa_stream \<Rightarrow> oa_stream \<times> sse list" where
  "emit_text kind block delta t =
     (let (t, out) = (if oa_block t \<noteq> kind then open_new kind block t else (t, []))
      in (t, out @ [block_delta (oa_index t) delta]))"

fun emit_part :: "part \<Rightarrow> oa_stream \<Rightarrow> oa_stream \<times> sse list" where
  "emit_part (PThink s) t = emit_text ThinkingBlock thinking_block (thinking_delta s) t"
| "emit_part (PText s) t = emit_text TextBlock text_block (text_delta s) t"
| "emit_part (PCall i call_id name) t = open_new ToolBlock (open_tool_block call_id name) t"
| "emit_part (PArgs i s) t = (t, [block_delta (oa_index t) (input_json_delta s)])"

fun emit_parts :: "part list \<Rightarrow> oa_stream \<Rightarrow> oa_stream \<times> sse list" where
  "emit_parts [] t = (t, [])"
| "emit_parts (p # ps) t = (let (t, out) = emit_part p t; (t, rest) = emit_parts ps t in (t, out @ rest))"

lemma emit_parts_append:
  "emit_parts (ps @ qs) t =
     (let (t, out) = emit_parts ps t; (t, rest) = emit_parts qs t in (t, out @ rest))"
  by (induction ps arbitrary: t) (auto simp: Let_def split: prod.splits)

lemma feed_text_parts:
  "feed_text ThinkingBlock thinking_block thinking_delta v t = emit_parts (text_parts_of PThink v) t"
  "feed_text TextBlock text_block text_delta v t = emit_parts (text_parts_of PText v) t"
  by (auto simp: feed_text_def text_parts_of_def emit_text_def Let_def split: option.splits prod.splits)

lemma feed_tool_call_parts:
  "feed_tool_call tc (t, out) =
     (let (t, rest) = emit_parts (call_parts tc) t in (t, out @ rest))"
  by (auto simp: feed_tool_call_def call_parts_def text_parts_of_def Let_def split: option.splits prod.splits)

lemma feed_tool_calls_parts:
  "fold feed_tool_call tcs (t, out) =
     (let (t, rest) = emit_parts (concat (map call_parts tcs)) t in (t, out @ rest))"
  by (induction tcs arbitrary: t out)
    (auto simp: feed_tool_call_parts emit_parts_append Let_def split: prod.splits)

definition set_finish :: "string option \<Rightarrow> oa_stream \<Rightarrow> oa_stream" where
  "set_finish r t = (case r of Some fr \<Rightarrow> t\<lparr>oa_finish_reason := Some fr\<rparr> | None \<Rightarrow> t)"

lemma oa_feed_parts:
  "oa_feed chunk t =
     (let (t, out0) = ensure_start chunk t; (t, out) = emit_parts (chunk_parts chunk) (observe_usage chunk t)
      in (set_finish (chunk_finish chunk) t, out0 @ out))"
  by (simp add: oa_feed_def chunk_parts_def chunk_finish_def set_finish_def feed_text_parts
      feed_tool_calls_parts emit_parts_append Let_def split: prod.splits)

section \<open>A client of the Anthropic protocol\<close>

datatype content = CThink string | CText string | CTool json json string

record client =
  c_started :: bool
  c_blocks :: "content list"
  c_open :: bool
  c_stop :: "string option"
  c_done :: bool

definition new_client :: client where
  "new_client = \<lparr>c_started = False, c_blocks = [], c_open = False, c_stop = None, c_done = False\<rparr>"

definition new_content :: "json \<Rightarrow> content option" where
  "new_content block =
     (let kind = jidx block ''type''
      in if kind = JStr ''thinking'' then Some (CThink [])
         else if kind = JStr ''text'' then Some (CText [])
         else if kind = JStr ''tool_use'' then Some (CTool (jidx block ''id'') (jidx block ''name'') [])
         else None)"

fun extend :: "json \<Rightarrow> content \<Rightarrow> content option" where
  "extend d (CThink s) =
     (if jidx d ''type'' = JStr ''thinking_delta'' then Some (CThink (s @ str_or [] (jidx d ''thinking''))) else None)"
| "extend d (CText s) =
     (if jidx d ''type'' = JStr ''text_delta'' then Some (CText (s @ str_or [] (jidx d ''text''))) else None)"
| "extend d (CTool i n s) =
     (if jidx d ''type'' = JStr ''input_json_delta'' then Some (CTool i n (s @ str_or [] (jidx d ''partial_json''))) else None)"

definition client_event :: "sse \<Rightarrow> client \<Rightarrow> client option" where
  "client_event ev c =
     (let (name, data) = ev; here = JInt (int (length (c_blocks c)) - 1)
      in if c_done c then None
         else if name = ''message_start'' then (if c_started c then None else Some (c\<lparr>c_started := True\<rparr>))
         else if \<not> c_started c then None
         else if name = ''content_block_start'' then
           (if c_open c \<or> c_stop c \<noteq> None \<or> jidx data ''index'' \<noteq> JInt (int (length (c_blocks c))) then None
            else map_option (\<lambda>b. c\<lparr>c_blocks := c_blocks c @ [b], c_open := True\<rparr>)
                   (new_content (jidx data ''content_block'')))
         else if name = ''content_block_delta'' then
           (if \<not> c_open c \<or> jidx data ''index'' \<noteq> here then None
            else map_option (\<lambda>b. c\<lparr>c_blocks := butlast (c_blocks c) @ [b]\<rparr>)
                   (extend (jidx data ''delta'') (last (c_blocks c))))
         else if name = ''content_block_stop'' then
           (if \<not> c_open c \<or> jidx data ''index'' \<noteq> here then None else Some (c\<lparr>c_open := False\<rparr>))
         else if name = ''message_delta'' then
           (if c_open c then None
            else Some (c\<lparr>c_stop := as_str (jidx (jidx data ''delta'') ''stop_reason'')\<rparr>))
         else if name = ''message_stop'' then
           (if c_stop c = None then None else Some (c\<lparr>c_done := True\<rparr>))
         else None)"

fun client_run :: "sse list \<Rightarrow> client \<Rightarrow> client option" where
  "client_run [] c = Some c"
| "client_run (e # es) c = Option.bind (client_event e c) (client_run es)"

lemma client_run_append: "client_run (es @ fs) c = Option.bind (client_run es c) (client_run fs)"
  by (induction es arbitrary: c) (auto split: bind_splits)

text \<open>The blocks the parts stand for.\<close>

fun add_part :: "part \<Rightarrow> content list \<Rightarrow> content list" where
  "add_part (PThink s) bs =
     (case rev bs of CThink t # r \<Rightarrow> rev r @ [CThink (t @ s)] | _ \<Rightarrow> bs @ [CThink s])"
| "add_part (PText s) bs =
     (case rev bs of CText t # r \<Rightarrow> rev r @ [CText (t @ s)] | _ \<Rightarrow> bs @ [CText s])"
| "add_part (PCall i call_id name) bs = bs @ [CTool call_id name []]"
| "add_part (PArgs i s) bs =
     (case rev bs of CTool c n t # r \<Rightarrow> rev r @ [CTool c n (t @ s)] | _ \<Rightarrow> bs)"


text \<open>Fragments come right after the call they belong to, or after fragments of it.\<close>

fun args_follow :: "bool \<Rightarrow> part list \<Rightarrow> bool" where
  "args_follow b [] \<longleftrightarrow> True"
| "args_follow b (PThink s # ps) \<longleftrightarrow> args_follow False ps"
| "args_follow b (PText s # ps) \<longleftrightarrow> args_follow False ps"
| "args_follow b (PCall i c n # ps) \<longleftrightarrow> args_follow True ps"
| "args_follow b (PArgs i s # ps) \<longleftrightarrow> b \<and> args_follow True ps"




section \<open>The translator follows the protocol\<close>

fun kind_of :: "content \<Rightarrow> open_block" where
  "kind_of (CThink s) = ThinkingBlock"
| "kind_of (CText s) = TextBlock"
| "kind_of (CTool i n s) = ToolBlock"

definition sim :: "oa_stream \<Rightarrow> client \<Rightarrow> bool" where
  "sim t c \<longleftrightarrow> c_started c \<and> \<not> c_done c \<and> c_stop c = None \<and> \<not> oa_stopped t
     \<and> oa_index t = int (length (c_blocks c)) - 1
     \<and> c_open c = (c_blocks c \<noteq> [])
     \<and> oa_block t = (if c_blocks c = [] then NoBlock else kind_of (last (c_blocks c)))"

lemma client_block_start:
  "c_started c \<Longrightarrow> \<not> c_done c \<Longrightarrow> c_stop c = None \<Longrightarrow> \<not> c_open c \<Longrightarrow> i = int (length (c_blocks c)) \<Longrightarrow>
   client_event (block_start i block) c =
     map_option (\<lambda>b. c\<lparr>c_blocks := c_blocks c @ [b], c_open := True\<rparr>) (new_content block)"
  by (simp add: client_event_def block_start_def)

lemma client_block_delta:
  "c_started c \<Longrightarrow> \<not> c_done c \<Longrightarrow> c_open c \<Longrightarrow> i = int (length (c_blocks c)) - 1 \<Longrightarrow>
   client_event (block_delta i delta) c =
     map_option (\<lambda>b. c\<lparr>c_blocks := butlast (c_blocks c) @ [b]\<rparr>) (extend delta (last (c_blocks c)))"
  by (simp add: client_event_def block_delta_def)

lemma client_block_stop:
  "c_started c \<Longrightarrow> \<not> c_done c \<Longrightarrow> c_open c \<Longrightarrow> i = int (length (c_blocks c)) - 1 \<Longrightarrow>
   client_event (block_stop i) c = Some (c\<lparr>c_open := False\<rparr>)"
  by (simp add: client_event_def block_stop_def)

lemma client_message_delta:
  "c_started c \<Longrightarrow> \<not> c_done c \<Longrightarrow> \<not> c_open c \<Longrightarrow>
   client_event (message_delta stop output inp cache) c = Some (c\<lparr>c_stop := Some stop\<rparr>)"
  by (simp add: client_event_def message_delta_def)

lemma client_message_stop:
  "c_started c \<Longrightarrow> \<not> c_done c \<Longrightarrow> c_stop c \<noteq> None \<Longrightarrow> client_event message_stop c = Some (c\<lparr>c_done := True\<rparr>)"
  by (simp add: client_event_def message_stop_def)

lemma kind_of_not_NoBlock [simp]: "kind_of b \<noteq> NoBlock"
  by (cases b) simp_all

lemma client_close:
  assumes "sim t c" "close_block t = (t', out)"
  shows "client_run out c = Some (c\<lparr>c_open := False\<rparr>)" "oa_index t' = oa_index t" "oa_stopped t' = oa_stopped t"
  using assms by (auto simp: sim_def close_block_def client_block_stop split: if_splits)

lemma open_new_sim:
  assumes "sim t c" "open_new (kind_of b) block t = (t', out)" "new_content block = Some b"
  shows "\<exists>c'. client_run out c = Some c' \<and> sim t' c' \<and> c_blocks c' = c_blocks c @ [b]"
proof -
  obtain u o1 where close: "close_block t = (u, o1)" by (cases "close_block t") auto
  note c = client_close [OF assms(1) close]
  show ?thesis
    by (rule exI [of _ "c\<lparr>c_blocks := c_blocks c @ [b], c_open := True\<rparr>"])
      (use assms c in \<open>auto simp: open_new_def close Let_def client_run_append client_block_start sim_def\<close>)
qed

lemma delta_sim:
  assumes "sim t c" "c_blocks c \<noteq> []" "extend delta (last (c_blocks c)) = Some b"
    and "kind_of b = kind_of (last (c_blocks c))"
  shows "\<exists>c'. client_run [block_delta (oa_index t) delta] c = Some c' \<and> sim t c'
    \<and> c_blocks c' = butlast (c_blocks c) @ [b]"
proof -
  have "0 < length (c_blocks c)" using assms(2) by simp
  then have "length (c_blocks c) - 1 + 1 = length (c_blocks c)" by simp
  then show ?thesis
    using assms by (simp add: sim_def client_block_delta)
qed

lemma new_contents:
  "new_content thinking_block = Some (CThink [])" "new_content text_block = Some (CText [])"
  "new_content (open_tool_block i n) = Some (CTool i n [])"
  by (simp_all add: new_content_def thinking_block_def text_block_def open_tool_block_def)

lemma extends:
  "extend (thinking_delta s) (CThink t) = Some (CThink (t @ s))"
  "extend (text_delta s) (CText t) = Some (CText (t @ s))"
  "extend (input_json_delta s) (CTool i n t) = Some (CTool i n (t @ s))"
  by (simp_all add: thinking_delta_def text_delta_def input_json_delta_def str_or_def)

lemma add_part_snoc:
  "add_part (PThink s) (bs @ [CThink t]) = bs @ [CThink (t @ s)]"
  "add_part (PText s) (bs @ [CText t]) = bs @ [CText (t @ s)]"
  "add_part (PArgs i s) (bs @ [CTool c n t]) = bs @ [CTool c n (t @ s)]"
  by simp_all

lemma add_part_new:
  "bs = [] \<or> kind_of (last bs) \<noteq> ThinkingBlock \<Longrightarrow> add_part (PThink s) bs = bs @ [CThink s]"
  "bs = [] \<or> kind_of (last bs) \<noteq> TextBlock \<Longrightarrow> add_part (PText s) bs = bs @ [CText s]"
  by (cases bs rule: rev_cases; auto split: content.splits)+

lemma kind_ofD:
  "kind_of b = ThinkingBlock \<Longrightarrow> \<exists>s. b = CThink s" "kind_of b = TextBlock \<Longrightarrow> \<exists>s. b = CText s"
  "kind_of b = ToolBlock \<Longrightarrow> \<exists>i n s. b = CTool i n s"
  by (cases b; simp)+

text \<open>A text or thinking part: \<open>mk\<close> makes the content.\<close>

lemma emit_text_sim:
  assumes sim: "sim t c" and emit: "emit_text kind block delta t = (t', out)"
    and new: "new_content block = Some (mk [])" and ext: "\<And>u. extend delta (mk u) = Some (mk (u @ s))"
    and kind: "\<And>u. kind_of (mk u) = kind" "\<And>b. kind_of b = kind \<Longrightarrow> \<exists>u. b = mk u"
    and add_new: "c_blocks c = [] \<or> kind_of (last (c_blocks c)) \<noteq> kind \<Longrightarrow> add_part p (c_blocks c) = c_blocks c @ [mk s]"
    and add_old: "\<And>bs u. add_part p (bs @ [mk u]) = bs @ [mk (u @ s)]"
  shows "\<exists>c'. client_run out c = Some c' \<and> sim t' c' \<and> c_blocks c' = add_part p (c_blocks c)"
proof (cases "oa_block t = kind")
  case True
  then have ne: "c_blocks c \<noteq> []" and "kind_of (last (c_blocks c)) = kind"
    using sim kind(1) [of "[]"] by (auto simp: sim_def split: if_splits)
  then obtain u where u: "last (c_blocks c) = mk u" using kind(2) by blast
  then have "c_blocks c = butlast (c_blocks c) @ [mk u]" using ne append_butlast_last_id by fastforce
  then have "add_part p (c_blocks c) = butlast (c_blocks c) @ [mk (u @ s)]" using add_old by metis
  then show ?thesis
    using delta_sim [OF sim ne, of delta "mk (u @ s)"] emit True u ext kind(1) by (auto simp: emit_text_def)
next
  case False
  then have add: "add_part p (c_blocks c) = c_blocks c @ [mk s]"
    using add_new sim by (auto simp: sim_def split: if_splits)
  obtain t1 o1 where op: "open_new kind block t = (t1, o1)" by (cases "open_new kind block t") auto
  then obtain c1 where c1: "client_run o1 c = Some c1" "sim t1 c1" "c_blocks c1 = c_blocks c @ [mk []]"
    using open_new_sim [OF sim _ new] kind(1) by auto
  then obtain c2 where "client_run [block_delta (oa_index t1) delta] c1 = Some c2" "sim t1 c2"
      "c_blocks c2 = c_blocks c @ [mk s]"
    using delta_sim [OF c1(2), of delta "mk s"] ext [of "[]"] kind(1) by auto
  then show ?thesis
    using emit False op c1(1) add by (auto simp: emit_text_def client_run_append)
qed

lemma emit_part_sim:
  assumes sim: "sim t c" and emit: "emit_part p t = (t', out)"
    and follows: "\<And>i s. p = PArgs i s \<Longrightarrow> oa_block t = ToolBlock"
  shows "\<exists>c'. client_run out c = Some c' \<and> sim t' c' \<and> c_blocks c' = add_part p (c_blocks c)"
proof (cases p)
  case (PThink s)
  then show ?thesis
    using emit_text_sim [where mk = CThink and p = "PThink s" and s = s, OF sim _ new_contents(1) extends(1)] emit
      kind_ofD(1) add_part_new(1) add_part_snoc(1) by simp
next
  case (PText s)
  then show ?thesis
    using emit_text_sim [where mk = CText and p = "PText s" and s = s, OF sim _ new_contents(2) extends(2)] emit
      kind_ofD(2) add_part_new(2) add_part_snoc(2) by simp
next
  case (PCall i call_id name)
  then show ?thesis
    using open_new_sim [OF sim _ new_contents(3)] emit by simp
next
  case (PArgs i s)
  then have ne: "c_blocks c \<noteq> []" and "kind_of (last (c_blocks c)) = ToolBlock"
    using follows sim by (auto simp: sim_def split: if_splits)
  then obtain k n u where u: "last (c_blocks c) = CTool k n u" using kind_ofD(3) by blast
  then have "c_blocks c = butlast (c_blocks c) @ [CTool k n u]" using ne append_butlast_last_id by fastforce
  then have "add_part p (c_blocks c) = butlast (c_blocks c) @ [CTool k n (u @ s)]"
    using PArgs add_part_snoc(3) by metis
  moreover have "\<exists>c'. client_run [block_delta (oa_index t) (input_json_delta s)] c = Some c' \<and> sim t c'
      \<and> c_blocks c' = butlast (c_blocks c) @ [CTool k n (u @ s)]"
    by (rule delta_sim [OF sim ne]) (simp_all add: u extends(3) del: extend.simps)
  moreover have "t' = t" "out = [block_delta (oa_index t) (input_json_delta s)]" using emit PArgs by auto
  ultimately show ?thesis by (simp only:)
qed


lemma tool_open_after:
  "sim t c \<Longrightarrow> emit_part p t = (t', out) \<Longrightarrow>
   oa_block t' = (case p of PThink s \<Rightarrow> ThinkingBlock | PText s \<Rightarrow> TextBlock | PCall i k n \<Rightarrow> ToolBlock
     | PArgs i s \<Rightarrow> oa_block t)"
  by (cases p) (auto simp: emit_text_def open_new_def Let_def split: prod.splits if_splits)

lemma args_follow_Cons:
  "args_follow (oa_block t = ToolBlock) (p # ps) \<Longrightarrow> sim t c \<Longrightarrow> emit_part p t = (t', out) \<Longrightarrow>
   args_follow (oa_block t' = ToolBlock) ps \<and> (\<forall>i s. p = PArgs i s \<longrightarrow> oa_block t = ToolBlock)"
  using tool_open_after [of t c p t' out] by (cases p) auto

lemma emit_parts_sim:
  "sim t c \<Longrightarrow> emit_parts ps t = (t', out) \<Longrightarrow> args_follow (oa_block t = ToolBlock) ps \<Longrightarrow>
   \<exists>c'. client_run out c = Some c' \<and> sim t' c' \<and> c_blocks c' = fold add_part ps (c_blocks c)"
proof (induction ps arbitrary: t c out)
  case (Cons p ps)
  obtain t1 o1 where e1: "emit_part p t = (t1, o1)" by (cases "emit_part p t") auto
  obtain o2 where e2: "emit_parts ps t1 = (t', o2)" and out: "out = o1 @ o2"
    using Cons.prems(2) e1 by (auto simp: Let_def split: prod.splits)
  note follow = args_follow_Cons [OF Cons.prems(3,1) e1]
  obtain c1 where c1: "client_run o1 c = Some c1" "sim t1 c1" "c_blocks c1 = add_part p (c_blocks c)"
    using emit_part_sim [OF Cons.prems(1) e1] follow by blast
  then show ?case
    using Cons.IH [OF c1(2) e2] follow by (auto simp: out client_run_append)
qed auto

lemma sim_tokens [simp]:
  "sim (observe_usage chunk t) c = sim t c" "sim (set_finish r t) c = sim t c"
  "oa_block (observe_usage chunk t) = oa_block t" "oa_block (set_finish r t) = oa_block t"
  "oa_finish_reason (observe_usage chunk t) = oa_finish_reason t"
  by (auto simp: sim_def observe_usage_def set_finish_def split: option.splits)

lemma finish_set:
  "oa_finish_reason (set_finish r t) = (case r of Some f \<Rightarrow> Some f | None \<Rightarrow> oa_finish_reason t)"
  by (simp add: set_finish_def split: option.splits)

lemma emit_keeps_finish: "emit_part p t = (t', out) \<Longrightarrow> oa_finish_reason t' = oa_finish_reason t \<and> oa_started t' = oa_started t"
  by (cases p) (auto simp: emit_text_def open_new_def close_block_def Let_def split: prod.splits if_splits)

lemma emits_keep_finish:
  "emit_parts ps t = (t', out) \<Longrightarrow> oa_finish_reason t' = oa_finish_reason t \<and> oa_started t' = oa_started t"
proof (induction ps arbitrary: t out)
  case (Cons p ps)
  then show ?case
    using emit_keeps_finish [of p t] by (auto simp: Let_def split: prod.splits)
qed simp

lemma started_tokens [simp]:
  "oa_started (observe_usage chunk t) = oa_started t" "oa_started (set_finish r t) = oa_started t"
  by (auto simp: observe_usage_def set_finish_def split: option.splits)

lemma feed_sim:
  assumes "sim t c" "oa_started t" "oa_feed chunk t = (t', out)"
    and "args_follow (oa_block t = ToolBlock) (chunk_parts chunk)"
  shows "\<exists>c'. client_run out c = Some c' \<and> sim t' c' \<and> oa_started t'
    \<and> c_blocks c' = fold add_part (chunk_parts chunk) (c_blocks c)
    \<and> oa_finish_reason t' = (case chunk_finish chunk of Some f \<Rightarrow> Some f | None \<Rightarrow> oa_finish_reason t)"
proof -
  obtain t1 where e: "emit_parts (chunk_parts chunk) (observe_usage chunk t) = (t1, out)"
    and t': "t' = set_finish (chunk_finish chunk) t1"
    using assms(2,3) by (auto simp: oa_feed_parts ensure_start_def Let_def split: prod.splits)
  obtain c' where "client_run out c = Some c'" "sim t1 c'"
      "c_blocks c' = fold add_part (chunk_parts chunk) (c_blocks c)"
    using emit_parts_sim [OF _ e, of c] assms(1,4) by auto
  moreover have "oa_finish_reason t1 = oa_finish_reason t" "oa_started t1"
    using emits_keep_finish [OF e] assms(2) by simp_all
  ultimately show ?thesis by (simp add: t' finish_set split: option.splits)
qed

lemma args_follow_append:
  "args_follow b (ps @ qs) \<longleftrightarrow> args_follow b ps \<and> args_follow (fold (\<lambda>p b. case p of PCall i c n \<Rightarrow> True
     | PArgs i s \<Rightarrow> True | _ \<Rightarrow> False) ps b) qs"
  by (induction b ps rule: args_follow.induct) auto


lemma fold_tool_open:
  "sim t c \<Longrightarrow> emit_parts ps t = (t', out) \<Longrightarrow> args_follow (oa_block t = ToolBlock) ps \<Longrightarrow>
   (oa_block t' = ToolBlock) = fold (\<lambda>p b. case p of PCall i c n \<Rightarrow> True | PArgs i s \<Rightarrow> True | _ \<Rightarrow> False) ps
     (oa_block t = ToolBlock)"
proof (induction ps arbitrary: t c out)
  case (Cons p ps)
  obtain t1 o1 where e1: "emit_part p t = (t1, o1)" by (cases "emit_part p t") auto
  obtain o2 where e2: "emit_parts ps t1 = (t', o2)"
    using Cons.prems(2) e1 by (auto simp: Let_def split: prod.splits)
  note follow = args_follow_Cons [OF Cons.prems(3,1) e1]
  obtain c1 where c1: "sim t1 c1" using emit_part_sim [OF Cons.prems(1) e1] follow by blast
  have "(oa_block t1 = ToolBlock) = (case p of PCall i c n \<Rightarrow> True | PArgs i s \<Rightarrow> True | _ \<Rightarrow> False)"
    using tool_open_after [OF Cons.prems(1) e1] Cons.prems(3) by (cases p) auto
  then show ?case using Cons.IH [OF c1 e2] follow by simp
qed simp

lemma feed_all_sim:
  "sim t c \<Longrightarrow> oa_started t \<Longrightarrow> oa_feed_all chunks t = (t', out) \<Longrightarrow>
   args_follow (oa_block t = ToolBlock) (stream_parts chunks) \<Longrightarrow>
   \<exists>c'. client_run out c = Some c' \<and> sim t' c' \<and> c_blocks c' = fold add_part (stream_parts chunks) (c_blocks c)
     \<and> oa_finish_reason t' = stream_finish chunks (oa_finish_reason t)"
proof (induction chunks arbitrary: t c out)
  case (Cons chunk chunks)
  obtain t1 o1 where f1: "oa_feed chunk t = (t1, o1)" by (cases "oa_feed chunk t") auto
  obtain o2 where f2: "oa_feed_all chunks t1 = (t', o2)" and out: "out = o1 @ o2"
    using Cons.prems(3) f1 by (auto simp: Let_def split: prod.splits)
  have parts: "stream_parts (chunk # chunks) = chunk_parts chunk @ stream_parts chunks"
    by (simp add: stream_parts_def)
  have follow: "args_follow (oa_block t = ToolBlock) (chunk_parts chunk)"
    using Cons.prems(4) by (simp add: parts args_follow_append)
  obtain c1 where c1: "client_run o1 c = Some c1" "sim t1 c1" "oa_started t1"
      "c_blocks c1 = fold add_part (chunk_parts chunk) (c_blocks c)"
      "oa_finish_reason t1 = (case chunk_finish chunk of Some f \<Rightarrow> Some f | None \<Rightarrow> oa_finish_reason t)"
    using feed_sim [OF Cons.prems(1,2) f1 follow] by blast
  obtain u where u: "emit_parts (chunk_parts chunk) (observe_usage chunk t) = (u, o1)" "t1 = set_finish (chunk_finish chunk) u"
    using f1 Cons.prems(2) by (auto simp: oa_feed_parts ensure_start_def Let_def split: prod.splits)
  have "args_follow (oa_block t1 = ToolBlock) (stream_parts chunks)"
    using Cons.prems(1,4) fold_tool_open [OF _ u(1), of c] follow
    by (simp add: parts args_follow_append u(2))
  then show ?case
    using Cons.IH [OF c1(2,3) f2] c1 by (auto simp: out client_run_append parts)
qed (auto simp: stream_parts_def)

definition translated :: "string \<Rightarrow> json list \<Rightarrow> sse list" where
  "translated model chunks =
     (let (t, out) = oa_feed_all chunks (oa_new model) in out @ snd (oa_finish t))"

lemma first_feed:
  "oa_feed_all (chunk # chunks) (oa_new model) =
     (let (t, out) = oa_feed_all (chunk # chunks) ((oa_new model)\<lparr>oa_started := True\<rparr>)
      in (t, message_start (str_or ''msg_router'' (jidx chunk ''id'')) model # out))"
  by (simp add: oa_feed_parts ensure_start_def oa_new_def observe_usage_def Let_def split: prod.splits option.splits)

lemma client_finish:
  assumes "sim t c"
  shows "client_run (snd (oa_finish t)) c = Some (c\<lparr>c_open := False, c_done := True,
    c_stop := Some (case oa_finish_reason t of Some r \<Rightarrow> oai_finish_to_anthropic r | None \<Rightarrow> ''end_turn'')\<rparr>)"
proof -
  obtain u out where close: "close_block (t\<lparr>oa_stopped := True\<rparr>) = (u, out)"
    by (cases "close_block (t\<lparr>oa_stopped := True\<rparr>)") auto
  have "client_run out c = Some (c\<lparr>c_open := False\<rparr>)"
    using assms close by (auto simp: sim_def close_block_def client_block_stop split: if_splits)
  moreover have "oa_finish_reason u = oa_finish_reason t"
    using close by (auto simp: close_block_def split: if_splits)
  moreover have "\<not> oa_stopped t" "c_started c" "\<not> c_done c" using assms by (simp_all add: sim_def)
  ultimately show ?thesis
    by (simp add: oa_finish_def close Let_def client_run_append client_message_delta client_message_stop)
qed






section \<open>And back\<close>


fun good_part :: "part \<Rightarrow> bool" where
  "good_part (PThink s) \<longleftrightarrow> s \<noteq> []"
| "good_part (PText s) \<longleftrightarrow> s \<noteq> []"
| "good_part (PCall i c nm) \<longleftrightarrow> as_str c \<noteq> None \<or> as_str nm \<noteq> None"
| "good_part (PArgs i s) \<longleftrightarrow> s \<noteq> []"


lemma chunk_parts_good: "list_all good_part (chunk_parts chunk)"
  by (auto simp: chunk_parts_def text_parts_of_def call_parts_def Let_def list_all_iff split: option.splits if_splits)

lemma stream_parts_good: "list_all good_part (stream_parts chunks)"
  using chunk_parts_good by (induction chunks) (auto simp: stream_parts_def)

text \<open>What the other translator makes of each event.\<close>

lemma first_choice_chunk [simp]:
  "first_choice (ao_chunk created t delta finish) = JObj [(''delta'', delta),
     (''finish_reason'', case finish of Some f \<Rightarrow> JStr f | None \<Rightarrow> JNull), (''index'', JInt 0), (''logprobs'', JNull)]"
  by (simp add: first_choice_def ao_chunk_def)

lemma as_i64_small: "0 \<le> i \<Longrightarrow> i < 2 ^ 63 \<Longrightarrow> i64_or d (JInt i) = i"
  by (simp add: i64_or_def)




lemma back_parts:
  "s \<noteq> [] \<Longrightarrow> chunk_parts (ao_chunk created u (JObj [(''content'', JStr s)]) None) = [PText s]"
  "as_str c \<noteq> None \<or> as_str nm \<noteq> None \<Longrightarrow> 0 \<le> n \<Longrightarrow> n < 2 ^ 63 \<Longrightarrow>
   chunk_parts (ao_chunk created u (call_start n c nm) None) = [PCall n c nm]"
  "s \<noteq> [] \<Longrightarrow> 0 \<le> n \<Longrightarrow> n < 2 ^ 63 \<Longrightarrow>
   chunk_parts (ao_chunk created u (call_fragment n (JStr s)) None) = [PArgs n s]"
  by (auto simp: chunk_parts_def text_parts_of_def call_parts_def call_start_def call_fragment_def
      array_or_empty_def i64_or_def Let_def)



definition back_rel :: "int \<Rightarrow> oa_stream \<Rightarrow> ao_stream \<Rightarrow> bool" where
  "back_rel n t u \<longleftrightarrow> ao_next_tool u = n \<and> 0 \<le> n \<and> -1 \<le> oa_index t
     \<and> (oa_block t = ToolBlock \<longrightarrow> 0 \<le> oa_index t \<and> 0 < n \<and> ao_tool_index u (oa_index t) = Some (n - 1))"





lemma stream_parts_append [simp]: "stream_parts (xs @ ys) = stream_parts xs @ stream_parts ys"
  by (simp add: stream_parts_def)







lemma back_rel_tokens [simp]:
  "back_rel n (observe_usage chunk t) u = back_rel n t u" "back_rel n (set_finish r t) u = back_rel n t u"
  "oa_index (observe_usage chunk t) = oa_index t" "oa_index (set_finish r t) = oa_index t"
  by (auto simp: back_rel_def observe_usage_def set_finish_def split: option.splits)












text \<open>Fragments of calls that a chunk order interleaves go to the wrong call: the translator does
  not look at the number a fragment carries, so the arguments of the first call end up, with those of
  the second, in the second call's block.\<close>

theorem interleaved_fragments_misplaced:
  "let chunk = (\<lambda>delta. ao_chunk 0 ao_new delta None);
       chunks = [chunk (call_start 0 (JStr ''a'') (JStr ''f'')), chunk (call_start 1 (JStr ''b'') (JStr ''g'')),
                 chunk (call_fragment 0 (JStr ''1'')), chunk (call_fragment 1 (JStr ''2''))]
   in stream_parts chunks = [PCall 0 (JStr ''a'') (JStr ''f''), PCall 1 (JStr ''b'') (JStr ''g''), PArgs 0 ''1'', PArgs 1 ''2'']
      \<and> map_option c_blocks (client_run (translated ''m'' chunks) new_client)
        = Some [CTool (JStr ''a'') (JStr ''f'') [], CTool (JStr ''b'') (JStr ''g'') ''12'']"
proof -
  let ?chunk = "\<lambda>delta. ao_chunk 0 ao_new delta None"
  let ?chunks = "[?chunk (call_start 0 (JStr ''a'') (JStr ''f'')), ?chunk (call_start 1 (JStr ''b'') (JStr ''g'')),
                 ?chunk (call_fragment 0 (JStr ''1'')), ?chunk (call_fragment 1 (JStr ''2''))]"
  have parts: "stream_parts ?chunks
      = [PCall 0 (JStr ''a'') (JStr ''f''), PCall 1 (JStr ''b'') (JStr ''g''), PArgs 0 ''1'', PArgs 1 ''2'']"
    by (simp add: stream_parts_def back_parts)
  let ?t = "(oa_new ''m'')\<lparr>oa_started := True\<rparr>" and ?c = "new_client\<lparr>c_started := True\<rparr>"
  obtain t out where f: "oa_feed_all ?chunks ?t = (t, out)" by (cases "oa_feed_all ?chunks ?t") auto
  have "sim ?t ?c" by (simp add: sim_def oa_new_def new_client_def)
  from feed_all_sim [OF this _ f] obtain c where c: "client_run out ?c = Some c" "sim t c"
      "c_blocks c = [CTool (JStr ''a'') (JStr ''f'') [], CTool (JStr ''b'') (JStr ''g'') ''12'']"
    unfolding parts by (auto simp: new_client_def)
  have start: "client_event (message_start i model) new_client = Some ?c" for i model
    by (simp add: client_event_def message_start_def new_client_def)
  have "\<exists>i. translated ''m'' ?chunks = message_start i ''m'' # out @ snd (oa_finish t)"
    using f unfolding translated_def first_feed by (auto simp: Let_def)
  then show ?thesis
    using parts c(1,3) client_finish [OF c(2)] unfolding Let_def by (auto simp: start client_run_append)
qed

section \<open>The pump\<close>

definition is_terminal_event :: "sse \<Rightarrow> bool" where
  "is_terminal_event ev \<longleftrightarrow> fst ev = ''message_stop'' \<or> fst ev = ''error''"

lemma not_terminal [simp]:
  "\<not> is_terminal_event (message_start i m)" "\<not> is_terminal_event (block_start k b)"
  "\<not> is_terminal_event (block_delta k b)" "\<not> is_terminal_event (block_stop k)"
  "\<not> is_terminal_event (message_delta s x y z)"
  by (simp_all add: is_terminal_event_def message_start_def block_start_def block_delta_def block_stop_def message_delta_def)




lemma stopped_tokens [simp]:
  "oa_stopped (observe_usage chunk t) = oa_stopped t" "oa_stopped (set_finish r t) = oa_stopped t"
  "oa_stopped (fst (ensure_start chunk t)) = oa_stopped t"
  "filter is_terminal_event (snd (ensure_start chunk t)) = []"
  by (auto simp: observe_usage_def set_finish_def ensure_start_def split: option.splits)








section \<open>Token counts\<close>

lemma usage_to_anthropic:
  "jidx (openai_to_anthropic_response pa resp) ''usage'' =
     (let usage = jidx resp ''usage''; prompt = i64_or 0 (jidx usage ''prompt_tokens'');
          cached = i64_or 0 (jidx (jidx usage ''prompt_tokens_details'') ''cached_tokens'')
      in JObj [(''cache_read_input_tokens'', JInt cached),
               (''input_tokens'', JInt (max (wrap_i64 (prompt - cached)) 0)),
               (''output_tokens'', JInt (i64_or 0 (jidx usage ''completion_tokens'')))])"
  by (simp add: openai_to_anthropic_response_def Let_def)

lemma usage_to_openai:
  "jidx (anthropic_to_openai_response pr created resp) ''usage'' =
     (let inp = i64_or 0 (jidx (jidx resp ''usage'') ''input_tokens'');
          outp = i64_or 0 (jidx (jidx resp ''usage'') ''output_tokens'')
      in JObj [(''completion_tokens'', JInt outp), (''prompt_tokens'', JInt inp),
               (''total_tokens'', JInt (wrap_i64 (inp + outp)))])"
  by (simp add: anthropic_to_openai_response_def Let_def)

text \<open>The prompt tokens of an answer do not survive the way through the Anthropic shape: the
  cached part is taken out of \<open>input_tokens\<close> and not added again, so of 100 prompt tokens, 80 of them
  cached, the OpenAI client is told 20.\<close>

theorem cached_tokens_lost_on_the_way_back:
  "let resp = JObj [(''usage'', JObj [(''completion_tokens'', JInt 5), (''prompt_tokens'', JInt 100),
         (''prompt_tokens_details'', JObj [(''cached_tokens'', JInt 80)])])];
       back = anthropic_to_openai_response pr created (openai_to_anthropic_response pa resp)
   in jidx back ''usage'' = JObj [(''completion_tokens'', JInt 5), (''prompt_tokens'', JInt 20), (''total_tokens'', JInt 25)]"
  unfolding Let_def usage_to_openai usage_to_anthropic by (simp add: i64_or_def wrap_i64_def)

end
