(* ===== verification/TranslateRequests.thy ===== *)
theory TranslateRequests
  imports Translate "HOL-Library.Multiset"
begin

text \<open>
  What the translation of requests keeps: the answers to tool calls stay next to the calls, and a
  history in the shape the runtime builds comes back from the OpenAI shape as it was.
\<close>

section \<open>The pieces of a turn\<close>

lemma turn_of_append: "turn_of pr (blocks @ [b]) = add_block pr b (turn_of pr blocks)"
  by (simp add: turn_of_def)

lemma message_parts [simp]:
  "jidx (message r c) ''role'' = JStr r" "jidx (message r c) ''content'' = c"
  by (simp_all add: message_def)

lemma tool_message_parts [simp]:
  "jidx (tool_message i c) ''role'' = JStr ''tool''" "jidx (tool_message i c) ''content'' = c"
  "jidx (tool_message i c) ''tool_call_id'' = i"
  by (simp_all add: tool_message_def)

lemma assistant_message_parts [simp]:
  "jidx (assistant_message txt calls) ''role'' = JStr ''assistant''"
  "jidx (assistant_message txt calls) ''content'' = (if txt = [] \<and> calls \<noteq> [] then JNull else JStr txt)"
  "array_or_empty (jidx (assistant_message txt calls) ''tool_calls'') = calls"
  by (simp_all add: assistant_message_def array_or_empty_def)

definition kind :: "json \<Rightarrow> string" where
  "kind b = str_or [] (jidx b ''type'')"

lemma turn_of_fields:
  "tool_calls (turn_of pr blocks) = map (tool_call pr) (filter (\<lambda>b. kind b = ''tool_use'') blocks)"
  "turn_results (turn_of pr blocks) =
     map (\<lambda>b. tool_message (jidx b ''tool_use_id'') (fst (split_tool_result_images (jidx b ''content''))))
       (filter (\<lambda>b. kind b = ''tool_result'') blocks)"
  "text_parts (turn_of pr blocks) =
     map (\<lambda>b. if kind b = ''text'' then text_part (jidx b ''text'') else image_part b)
       (filter (\<lambda>b. kind b = ''text'' \<or> kind b = ''image'') blocks)"
  "hoisted_images (turn_of pr blocks) =
     concat (map (\<lambda>b. snd (split_tool_result_images (jidx b ''content'')))
       (filter (\<lambda>b. kind b = ''tool_result'') blocks))"
proof (induction blocks rule: rev_induct)
  case Nil
  { case 1 show ?case by (simp add: turn_of_def) }
  { case 2 show ?case by (simp add: turn_of_def) }
  { case 3 show ?case by (simp add: turn_of_def) }
  { case 4 show ?case by (simp add: turn_of_def) }
next
  case (snoc b blocks)
  { case 1 show ?case
      using snoc(1) by (auto simp: turn_of_append add_block_def kind_def Let_def split: prod.splits) }
  { case 2 show ?case
      using snoc(2) by (auto simp: turn_of_append add_block_def kind_def Let_def split: prod.splits) }
  { case 3 show ?case
      using snoc(3) by (auto simp: turn_of_append add_block_def kind_def Let_def split: prod.splits) }
  { case 4 show ?case
      using snoc(4) by (auto simp: turn_of_append add_block_def kind_def Let_def split: prod.splits) }
qed

section \<open>Answers stay next to their calls\<close>

definition blocks_in :: "json \<Rightarrow> json list" where
  "blocks_in m = array_or_empty (jidx m ''content'')"

definition use_ids :: "json \<Rightarrow> json list" where
  "use_ids m = map (\<lambda>b. jidx b ''id'') (filter (\<lambda>b. kind b = ''tool_use'') (blocks_in m))"

definition result_ids :: "json \<Rightarrow> json list" where
  "result_ids m = map (\<lambda>b. jidx b ''tool_use_id'') (filter (\<lambda>b. kind b = ''tool_result'') (blocks_in m))"

text \<open>An Anthropic history in which each call is answered once, in the message that follows.\<close>

fun answered_history :: "json list \<Rightarrow> json list \<Rightarrow> bool" where
  "answered_history pend [] \<longleftrightarrow> pend = []"
| "answered_history pend (m # ms) \<longleftrightarrow>
     (if jidx m ''role'' = JStr ''assistant''
      then pend = [] \<and> result_ids m = [] \<and> answered_history (use_ids m) ms
      else mset (result_ids m) = mset pend \<and> answered_history [] ms)"

text \<open>An OpenAI history in which the messages right after the calls answer each of them once, and
  nothing else is said before all are answered.\<close>

definition call_ids :: "json \<Rightarrow> json list" where
  "call_ids m = map (\<lambda>c. jidx c ''id'') (array_or_empty (jidx m ''tool_calls''))"

fun calls_answered :: "json list \<Rightarrow> json list \<Rightarrow> bool" where
  "calls_answered pend [] \<longleftrightarrow> pend = []"
| "calls_answered pend (m # ms) \<longleftrightarrow>
     (if jidx m ''role'' = JStr ''tool''
      then jidx m ''tool_call_id'' \<in> set pend \<and> calls_answered (remove1 (jidx m ''tool_call_id'') pend) ms
      else pend = [] \<and> calls_answered (call_ids m) ms)"

lemma calls_answered_results:
  "mset (map f bs) = mset pend \<Longrightarrow>
   calls_answered pend (map (\<lambda>b. tool_message (f b) (g b)) bs @ ms) = calls_answered [] ms"
proof (induction bs arbitrary: pend)
  case (Cons b bs)
  then have "f b \<in> set pend" by (metis list.set_intros(1) list.simps(9) mset_eq_setD)
  moreover have "mset (map f bs) = mset (remove1 (f b) pend)" using Cons.prems by (metis add_mset_remove_trivial list.simps(9) mset.simps(2) mset_remove1)
  ultimately show ?case using Cons.IH by simp
qed simp

lemma calls_answered_plain:
  "list_all (\<lambda>m. jidx m ''role'' \<noteq> JStr ''tool'' \<and> call_ids m = []) ns \<Longrightarrow>
   calls_answered [] (ns @ ms) = calls_answered [] ms"
  by (induction ns) auto

lemma hoist_plain:
  "list_all (\<lambda>m. jidx m ''role'' \<noteq> JStr ''tool'' \<and> call_ids m = []) (hoist_messages images @ user_messages parts)"
  by (simp add: hoist_messages_def user_messages_def call_ids_def message_def array_or_empty_def)

lemma tool_call_id: "jidx (tool_call pr b) ''id'' = jidx b ''id''"
  by (simp add: tool_call_def)

lemma assistant_step:
  assumes "jidx m ''role'' = JStr ''assistant''" "result_ids m = []"
  shows "calls_answered [] (anthropic_message_to_openai pr m @ ms) = calls_answered (use_ids m) ms"
proof -
  have role: "str_or ''user'' (jidx m ''role'') = ''assistant''" using assms(1) by (simp add: str_or_def)
  show ?thesis
  proof (cases "jidx m ''content''")
    case (JArr bs)
    have "filter (\<lambda>b. kind b = ''tool_result'') bs = []"
      using assms(2) JArr by (simp add: result_ids_def blocks_in_def array_or_empty_def)
    then have "turn_results (turn_of pr bs) = []" "hoisted_images (turn_of pr bs) = []"
      by (simp_all add: turn_of_fields)
    moreover have "map (\<lambda>c. jidx c ''id'') (tool_calls (turn_of pr bs)) = use_ids m"
      using JArr by (simp add: turn_of_fields use_ids_def blocks_in_def array_or_empty_def tool_call_id)
    ultimately show ?thesis
      using JArr role by (simp add: anthropic_message_to_openai_def turn_messages_def Let_def
          hoist_messages_def call_ids_def)
  qed (use role in \<open>simp_all add: anthropic_message_to_openai_def call_ids_def message_def array_or_empty_def
      use_ids_def blocks_in_def\<close>)
qed

lemma answered_user_step:
  assumes "jidx m ''role'' \<noteq> JStr ''tool''" "jidx m ''role'' \<noteq> JStr ''assistant''"
    and "mset (result_ids m) = mset pend"
  shows "calls_answered pend (anthropic_message_to_openai pr m @ ms) = calls_answered [] ms"
proof -
  have role: "str_or ''user'' (jidx m ''role'') \<noteq> ''assistant''" "str_or ''user'' (jidx m ''role'') \<noteq> ''tool''"
    using assms(1,2) by (cases "jidx m ''role''"; simp add: str_or_def)+
  show ?thesis
  proof (cases "jidx m ''content''")
    case (JArr bs)
    have ids: "mset (map (\<lambda>b. jidx b ''tool_use_id'') (filter (\<lambda>b. kind b = ''tool_result'') bs)) = mset pend"
      using assms(3) JArr by (simp add: result_ids_def blocks_in_def array_or_empty_def)
    show ?thesis
      using role JArr calls_answered_results [OF ids] calls_answered_plain [OF hoist_plain]
      by (simp add: anthropic_message_to_openai_def turn_messages_def Let_def turn_of_fields(2))
  next
    case (JStr s)
    then have "pend = []" using assms(3) by (simp add: result_ids_def blocks_in_def array_or_empty_def)
    then show ?thesis
      using role JStr by (simp add: anthropic_message_to_openai_def call_ids_def message_def array_or_empty_def)
  qed (use assms(3) in \<open>simp_all add: anthropic_message_to_openai_def result_ids_def blocks_in_def array_or_empty_def\<close>)
qed


text \<open>C14: The translation of an Anthropic request keeps the answers next to their calls: when in the
  history every tool call is answered exactly once in the message right after it, in any order and
  with text, images and images inside results besides, then in the OpenAI messages the calls of an
  assistant message are answered by the \<open>tool\<close> messages right after it, each exactly once, and
  nothing comes between.\<close>

theorem tool_answers_stay_adjacent:
  assumes "answered_history [] msgs" and "list_all (\<lambda>m. jidx m ''role'' \<noteq> JStr ''tool'') msgs"
  shows "calls_answered [] (openai_messages pr msgs)"
proof -
  have "calls_answered pend (openai_messages pr msgs)"
    if "answered_history pend msgs" "list_all (\<lambda>m. jidx m ''role'' \<noteq> JStr ''tool'') msgs" for pend
    using that
  proof (induction msgs arbitrary: pend)
    case (Cons m ms)
    show ?case
    proof (cases "jidx m ''role'' = JStr ''assistant''")
      case True
      then show ?thesis
        using Cons.prems Cons.IH [of "use_ids m"] assistant_step [OF True] by (simp add: openai_messages_def)
    next
      case False
      then show ?thesis
        using Cons.prems Cons.IH [of "[]"] answered_user_step [of m pend] by (simp add: openai_messages_def)
    qed
  qed (simp add: openai_messages_def)
  then show ?thesis using assms by blast
qed

definition use_of :: "string \<Rightarrow> json \<Rightarrow> json" where
  "use_of i input = JObj [(''id'', JStr i), (''input'', input), (''name'', JStr ''t''), (''type'', JStr ''tool_use'')]"

definition result_of :: "string \<Rightarrow> json \<Rightarrow> json" where
  "result_of i content = JObj [(''content'', content), (''tool_use_id'', JStr i), (''type'', JStr ''tool_result'')]"

lemma text_part_text [simp]: "jidx (text_part t) ''text'' = t"
  by (simp add: text_part_def)

lemma use_result_parts [simp]:
  "kind (use_of i v) = ''tool_use''" "jidx (use_of i v) ''id'' = JStr i"
  "kind (result_of i c) = ''tool_result''" "jidx (result_of i c) ''tool_use_id'' = JStr i"
  "kind (text_part t) = ''text''"
  by (simp_all add: kind_def use_of_def result_of_def text_part_def str_or_def)

theorem tool_answers_stay_adjacent_witness:
  "calls_answered [] (openai_messages (\<lambda>_. [])
     [message ''assistant'' (JArr [use_of ''a'' JNull, use_of ''b'' JNull]),
      message ''user'' (JArr [text_part (JStr ''hi''), result_of ''b'' (JStr ''2''), result_of ''a'' (JStr ''1'')])])"
  by (rule tool_answers_stay_adjacent)
    (simp_all add: result_ids_def use_ids_def blocks_in_def array_or_empty_def)

section \<open>A history that comes back\<close>

text \<open>The messages the runtime writes: plain user text, answers to tool calls, and assistant turns.\<close>

datatype turn =
    Said string
  | Answers "(string \<times> string) list"
  | Turn string "(string \<times> string \<times> json) list"

definition use_block :: "string \<times> string \<times> json \<Rightarrow> json" where
  "use_block c = (case c of (i, name, input) \<Rightarrow>
     JObj [(''id'', JStr i), (''input'', input), (''name'', JStr name), (''type'', JStr ''tool_use'')])"

definition answer_block :: "string \<times> string \<Rightarrow> json" where
  "answer_block a = (case a of (i, txt) \<Rightarrow>
     JObj [(''content'', JStr txt), (''tool_use_id'', JStr i), (''type'', JStr ''tool_result'')])"

fun turn_json :: "turn \<Rightarrow> json" where
  "turn_json (Said s) = message ''user'' (JStr s)"
| "turn_json (Answers as) = message ''user'' (JArr (map answer_block as))"
| "turn_json (Turn txt cs) =
     message ''assistant'' (JArr ((if txt = [] then [] else [text_part (JStr txt)]) @ map use_block cs))"

fun is_answers :: "turn \<Rightarrow> bool" where
  "is_answers (Answers as) \<longleftrightarrow> True"
| "is_answers _ \<longleftrightarrow> False"

fun good_turn :: "(json \<Rightarrow> string) \<Rightarrow> (string \<Rightarrow> json option) \<Rightarrow> turn \<Rightarrow> bool" where
  "good_turn pr pa (Said s) \<longleftrightarrow> True"
| "good_turn pr pa (Answers as) \<longleftrightarrow> as \<noteq> []"
| "good_turn pr pa (Turn txt cs) \<longleftrightarrow> (txt \<noteq> [] \<or> cs \<noteq> [])
     \<and> list_all (\<lambda>c. pa (pr (snd (snd c))) = Some (snd (snd c))) cs"

fun no_adjacent_answers :: "turn list \<Rightarrow> bool" where
  "no_adjacent_answers (s # t # ts) \<longleftrightarrow> \<not> (is_answers s \<and> is_answers t) \<and> no_adjacent_answers (t # ts)"
| "no_adjacent_answers _ \<longleftrightarrow> True"

lemma block_kinds [simp]:
  "kind (use_block c) = ''tool_use''" "kind (answer_block a) = ''tool_result''"
  "jidx (answer_block a) ''type'' = JStr ''tool_result''"
  "jidx (answer_block a) ''tool_use_id'' = JStr (fst a)" "jidx (answer_block a) ''content'' = JStr (snd a)"
  by (simp_all add: kind_def use_block_def answer_block_def str_or_def split: prod.splits)

lemma answers_to_openai:
  "anthropic_message_to_openai pr (turn_json (Answers as)) = map (\<lambda>a. tool_message (JStr (fst a)) (JStr (snd a))) as"
  by (simp add: anthropic_message_to_openai_def turn_messages_def Let_def turn_of_fields str_or_def
      hoist_messages_def user_messages_def split_tool_result_images_def comp_def concat_map_singleton)


lemma said_to_openai: "anthropic_message_to_openai pr (turn_json (Said s)) = [message ''user'' (JStr s)]"
  by (simp add: anthropic_message_to_openai_def str_or_def)

lemma turn_to_openai:
  "anthropic_message_to_openai pr (turn_json (Turn txt cs)) =
     [assistant_message txt (map (\<lambda>c. tool_call pr (use_block c)) cs)]"
  by (simp add: anthropic_message_to_openai_def turn_messages_def Let_def turn_of_fields str_or_def
      hoist_messages_def List.map_filter_def comp_def)

lemma use_comes_back:
  "pa (pr (snd (snd c))) = Some (snd (snd c)) \<Longrightarrow> tool_use_block pa (tool_call pr (use_block c)) = use_block c"
  by (cases c) (simp add: tool_use_block_def tool_call_def use_block_def str_or_def)

lemma answer_comes_back: "tool_result_block (tool_message (JStr (fst a)) (JStr (snd a))) = answer_block a"
  by (cases a) (simp add: tool_result_block_def answer_block_def)

lemma add_said: "add_openai_message pa (message ''user'' (JStr s)) (sys, msgs) = (sys, msgs @ [turn_json (Said s)])"
  by (simp add: add_openai_message_def Let_def str_or_def)

lemma add_turn:
  assumes "good_turn pr pa (Turn txt cs)"
  shows "add_openai_message pa (assistant_message txt (map (\<lambda>c. tool_call pr (use_block c)) cs)) (sys, msgs)
    = (sys, msgs @ [turn_json (Turn txt cs)])"
proof -
  have "map (\<lambda>c. tool_use_block pa (tool_call pr (use_block c))) cs = map use_block cs"
    using assms use_comes_back [of pa pr] by (simp add: list_all_iff)
  then have "assistant_blocks pa (assistant_message txt (map (\<lambda>c. tool_call pr (use_block c)) cs))
      = (if txt = [] then [] else [text_part (JStr txt)]) @ map use_block cs"
    by (simp add: assistant_blocks_def Let_def comp_def)
  then show ?thesis
    using assms by (auto simp: add_openai_message_def Let_def str_or_def)
qed

lemma can_merge_answers: "can_merge (message ''user'' (JArr (map answer_block as))) \<longleftrightarrow> as \<noteq> []"
  by (simp add: can_merge_def list_all_iff)

lemma push_merges:
  "as \<noteq> [] \<Longrightarrow> push_tool_result (answer_block a) (msgs @ [turn_json (Answers as)]) = msgs @ [turn_json (Answers (as @ [a]))]"
  by (simp add: push_tool_result_def can_merge_answers array_or_empty_def) (simp add: message_def)

lemma add_tool_message:
  "add_openai_message pa (tool_message (JStr (fst a)) (JStr (snd a))) (sys, msgs)
     = (sys, push_tool_result (answer_block a) msgs)"
  by (simp add: add_openai_message_def Let_def str_or_def answer_comes_back)

lemma add_more_answers:
  "bs \<noteq> [] \<Longrightarrow> fold (add_openai_message pa) (map (\<lambda>a. tool_message (JStr (fst a)) (JStr (snd a))) as)
     (sys, msgs @ [turn_json (Answers bs)]) = (sys, msgs @ [turn_json (Answers (bs @ as))])"
  by (induction as arbitrary: bs) (simp_all add: add_tool_message push_merges del: turn_json.simps)

lemma add_answers:
  assumes "as \<noteq> []" "msgs = [] \<or> \<not> can_merge (last msgs)"
  shows "fold (add_openai_message pa) (map (\<lambda>a. tool_message (JStr (fst a)) (JStr (snd a))) as) (sys, msgs)
    = (sys, msgs @ [turn_json (Answers as)])"
proof -
  obtain a bs where as: "as = a # bs" using assms(1) by (cases as) auto
  have "push_tool_result (answer_block a) msgs = msgs @ [turn_json (Answers [a])]"
    using assms(2) by (auto simp: push_tool_result_def)
  then show ?thesis
    using add_more_answers [of "[a]" pa bs sys msgs] by (simp add: as add_tool_message del: turn_json.simps)
qed

lemma can_merge_turn: "good_turn pr pa t \<Longrightarrow> can_merge (turn_json t) = is_answers t"
  by (cases t) (simp_all add: can_merge_answers, simp_all add: can_merge_def)

lemma no_adjacent_Cons:
  "no_adjacent_answers (t # ts) \<longleftrightarrow>
     no_adjacent_answers ts \<and> (ts \<noteq> [] \<and> is_answers (hd ts) \<longrightarrow> \<not> is_answers t)"
  by (cases ts) auto

lemma fold_turns:
  assumes "list_all (good_turn pr pa) ts" "no_adjacent_answers ts"
    and "ts \<noteq> [] \<and> is_answers (hd ts) \<longrightarrow> msgs = [] \<or> \<not> can_merge (last msgs)"
  shows "fold (add_openai_message pa) (openai_messages pr (map turn_json ts)) (sys, msgs) = (sys, msgs @ map turn_json ts)"
  using assms
proof (induction ts arbitrary: msgs)
  case (Cons t ts)
  have rest: "no_adjacent_answers ts" "ts \<noteq> [] \<and> is_answers (hd ts) \<longrightarrow> \<not> is_answers t"
    using Cons.prems(2) unfolding no_adjacent_Cons by blast+
  have "fold (add_openai_message pa) (anthropic_message_to_openai pr (turn_json t)) (sys, msgs) = (sys, msgs @ [turn_json t])"
  proof (cases t)
    case (Said x)
    then show ?thesis using said_to_openai add_said by simp
  next
    case (Answers al)
    then have "al \<noteq> []" "msgs = [] \<or> \<not> can_merge (last msgs)" using Cons.prems(1,3) by simp_all
    then show ?thesis unfolding Answers answers_to_openai by (rule add_answers)
  next
    case (Turn said cs)
    then have "good_turn pr pa (Turn said cs)" using Cons.prems(1) by simp
    then show ?thesis unfolding Turn turn_to_openai using add_turn by simp
  qed
  moreover have "can_merge (turn_json t) = is_answers t" using Cons.prems(1) can_merge_turn [of pr pa t] by simp
  ultimately show ?case
    using Cons.IH [of "msgs @ [turn_json t]"] Cons.prems(1) rest by (simp add: openai_messages_def del: turn_json.simps)
qed (simp add: openai_messages_def)

text \<open>C15: A history of the runtime's turns, plain user texts, groups of answers and assistant turns
  with a text or calls, comes back unchanged when its OpenAI translation is translated to Anthropic
  again: each group of \<open>tool\<close> messages is one user message again, the arguments are the inputs, and
  no system text appears.\<close>

theorem history_translation_roundtrip:
  assumes "list_all (good_turn pr pa) ts" and "no_adjacent_answers ts"
  shows "anthropic_messages pa (openai_messages pr (map turn_json ts)) = ([], map turn_json ts)"
  unfolding anthropic_messages_def using fold_turns [OF assms, of "[]"] by simp

theorem history_translation_roundtrip_witness:
  "anthropic_messages (\<lambda>_. Some JNull) (openai_messages (\<lambda>_. [])
     (map turn_json [Said ''go'', Turn ''ok'' [(''a'', ''f'', JNull), (''b'', ''f'', JNull)],
        Answers [(''a'', ''1''), (''b'', ''2'')], Turn ''end'' []]))
   = ([], map turn_json [Said ''go'', Turn ''ok'' [(''a'', ''f'', JNull), (''b'', ''f'', JNull)],
        Answers [(''a'', ''1''), (''b'', ''2'')], Turn ''end'' []])"
  by (rule history_translation_roundtrip) simp_all

end
