(* ===== verification/ToolErrors.thy ===== *)
theory ToolErrors
  imports Context
begin

text \<open>
  \<open>harness/native/tool_contract.rs\<close>: the error a tool reports (\<open>ToolError\<close>), the builder methods
  that bound what may enter it, and its public form: \<open>Serialize\<close> writes it from a fixed vocabulary,
  \<open>Deserialize\<close> reads it back through the same builders.

  \<open>Path::components\<close> is that of Unix: the components of a path are its non-empty segments, and a
  segment \<open>..\<close> is the parent directory. The derived reader of the raw error takes an object; the
  positional form it accepts too is not modelled.
\<close>

section \<open>The error\<close>

datatype tool_error_category =
    TeCaller | TePrecondition | TeConflict | TePermission | TeTransient | TeTimeout | TeCancelled
  | TeInternal

fun category_str :: "tool_error_category \<Rightarrow> string" where
  "category_str TeCaller = ''caller''"
| "category_str TePrecondition = ''precondition''"
| "category_str TeConflict = ''conflict''"
| "category_str TePermission = ''permission''"
| "category_str TeTransient = ''transient''"
| "category_str TeTimeout = ''timeout''"
| "category_str TeCancelled = ''cancelled''"
| "category_str TeInternal = ''internal''"

definition category_from_str :: "string \<Rightarrow> tool_error_category option" where
  "category_from_str s =
     (if s = ''caller'' then Some TeCaller
      else if s = ''precondition'' then Some TePrecondition
      else if s = ''conflict'' then Some TeConflict
      else if s = ''permission'' then Some TePermission
      else if s = ''transient'' then Some TeTransient
      else if s = ''timeout'' then Some TeTimeout
      else if s = ''cancelled'' then Some TeCancelled
      else if s = ''internal'' then Some TeInternal
      else None)"

interpretation tool_category: strict_codec category_str category_from_str
proof
  show "category_from_str (category_str x) = Some x" for x
    by (cases x) (simp_all add: category_from_str_def)
qed (auto simp: category_from_str_def split: if_splits)

datatype tool_error_strategy = Retry | ReviseInput | RequestPermission | Wait | ContactSupport

fun strategy_str :: "tool_error_strategy \<Rightarrow> string" where
  "strategy_str Retry = ''retry''"
| "strategy_str ReviseInput = ''revise_input''"
| "strategy_str RequestPermission = ''request_permission''"
| "strategy_str Wait = ''wait''"
| "strategy_str ContactSupport = ''contact_support''"

definition strategy_from_str :: "string \<Rightarrow> tool_error_strategy option" where
  "strategy_from_str s =
     (if s = ''retry'' then Some Retry
      else if s = ''revise_input'' then Some ReviseInput
      else if s = ''request_permission'' then Some RequestPermission
      else if s = ''wait'' then Some Wait
      else if s = ''contact_support'' then Some ContactSupport
      else None)"

interpretation tool_strategy: strict_codec strategy_str strategy_from_str
proof
  show "strategy_from_str (strategy_str x) = Some x" for x
    by (cases x) (simp_all add: strategy_from_str_def)
qed (auto simp: strategy_from_str_def split: if_splits)

record tool_field_error =
  fe_field :: string
  fe_code :: string
  fe_message :: string

datatype tool_error_candidate =
    TokenCandidate string
  | FileCandidate string string
  | LineCandidate nat string

record tool_error =
  te_category :: tool_error_category
  te_code :: string
  te_message :: string
  te_retryable :: bool
  te_strategy :: "tool_error_strategy option"
  te_field_errors :: "tool_field_error list"
  te_candidates :: "tool_error_candidate list"
  te_details :: "json option"

definition MAX_TOOL_ERROR_FIELD_ERRORS :: nat where "MAX_TOOL_ERROR_FIELD_ERRORS = 8"
definition MAX_TOOL_ERROR_CANDIDATES :: nat where "MAX_TOOL_ERROR_CANDIDATES = 8"
definition MAX_FILE_TOOL_ERROR_CANDIDATES :: nat where "MAX_FILE_TOOL_ERROR_CANDIDATES = 5"
definition MAX_TOOL_ERROR_LINE_CANDIDATES :: nat where "MAX_TOOL_ERROR_LINE_CANDIDATES = 5"
definition MAX_TOOL_ERROR_LINE_PREVIEW_CHARS :: nat where
  "MAX_TOOL_ERROR_LINE_PREVIEW_CHARS = 240"
definition MAX_TOOL_ERROR_MESSAGE_BYTES :: nat where "MAX_TOOL_ERROR_MESSAGE_BYTES = 512"
definition MAX_FILE_REFERENCE_PATH_BYTES :: nat where "MAX_FILE_REFERENCE_PATH_BYTES = 512"

lemmas tool_error_limits =
  MAX_TOOL_ERROR_FIELD_ERRORS_def MAX_TOOL_ERROR_CANDIDATES_def MAX_FILE_TOOL_ERROR_CANDIDATES_def
  MAX_TOOL_ERROR_LINE_CANDIDATES_def MAX_TOOL_ERROR_LINE_PREVIEW_CHARS_def
  MAX_TOOL_ERROR_MESSAGE_BYTES_def MAX_FILE_REFERENCE_PATH_BYTES_def

section \<open>The fixed vocabulary\<close>

definition is_ascii_lower :: "char \<Rightarrow> bool" where
  "is_ascii_lower c \<longleftrightarrow> 97 \<le> byte c \<and> byte c \<le> 122"

definition stable_error_code :: "string \<Rightarrow> string" where
  "stable_error_code code =
     (if code \<noteq> [] \<and> length code \<le> 64
         \<and> list_all (\<lambda>b. is_ascii_lower b \<or> is_ascii_digit b \<or> b = CHR ''_'') code
      then code else ''other'')"

definition public_messages :: "(string \<times> string) list" where
  "public_messages =
     [(''invalid_input'', ''Tool input is invalid''),
      (''invalid_arguments'', ''Tool input is invalid''),
      (''bad_argument'', ''Bad argument''),
      (''invalid_tool_metadata_token'', ''Tool metadata token is invalid''),
      (''duplicate_tool_metadata'', ''Tool metadata contains a duplicate fact''),
      (''tool_metadata_limit'', ''Tool metadata exceeds the bounded fact limit''),
      (''direct_tool_surface_unavailable'', ''Direct function tools are unavailable''),
      (''tool_not_found'', ''Tool was not found''),
      (''tool_not_v2_eligible'', ''Tool is not eligible for V2''),
      (''invalid_tool_schema'', ''Tool input schema is invalid''),
      (''unsupported_open_object_schema'', ''Tool input schema is not supported''),
      (''tool_contract_too_large'', ''Tool contract exceeds a safety limit''),
      (''path_kind_mismatch'', ''Path kind does not match the tool contract''),
      (''expected_file'', ''Expected a file''),
      (''expected_directory'', ''Expected a directory''),
      (''path_not_found'', ''Path was not found''),
      (''path_unavailable'', ''Path is unavailable''),
      (''file_precondition_changed'', ''File target changed after preflight''),
      (''edit_ambiguous'', ''Edit match is ambiguous''),
      (''edit_match_not_found'', ''Edit match was not found''),
      (''edit_precondition_changed'', ''Edit precondition changed after approval''),
      (''invalid_path_reference'', ''File path reference is invalid''),
      (''conflicting_file_location'', ''File location conflicts with explicit arguments''),
      (''tool_not_in_plan'', ''Tool is not part of this run's frozen facade''),
      (''invalid_persisted_tool_plan'', ''The frozen tool plan is invalid''),
      (''capability_unavailable'', ''Tool is currently unavailable''),
      (''permission_denied'', ''Tool call was denied''),
      (''hook_denied'', ''Tool call was denied by a policy hook''),
      (''cancelled'', ''Tool call was cancelled''),
      (''tool_failed'', ''Tool execution failed''),
      (''tool_internal_error'', ''Tool execution failed'')]"

fun category_message :: "tool_error_category \<Rightarrow> string" where
  "category_message TeCaller = ''Tool input is invalid''"
| "category_message TePrecondition = ''Tool precondition was not met''"
| "category_message TeConflict = ''Tool call conflicts with current state''"
| "category_message TePermission = ''Tool call was denied''"
| "category_message TeTransient = ''Tool is temporarily unavailable''"
| "category_message TeTimeout = ''Tool call timed out''"
| "category_message TeCancelled = ''Tool call was cancelled''"
| "category_message TeInternal = ''Tool execution failed''"

definition public_error_message :: "tool_error_category \<Rightarrow> string \<Rightarrow> string" where
  "public_error_message category code =
     truncate_utf8_bytes
       (case map_of public_messages code of Some m \<Rightarrow> m | None \<Rightarrow> category_message category)
       MAX_TOOL_ERROR_MESSAGE_BYTES"

definition field_pointer :: "string \<Rightarrow> bool" where
  "field_pointer field \<longleftrightarrow>
     starts_with field ''/'' \<and> length field \<le> 256
     \<and> list_all (\<lambda>b. is_ascii_alphanumeric b \<or> b \<in> set ''/~_-.'') field"

definition stable_field_name :: "string \<Rightarrow> string" where
  "stable_field_name field =
     (if field_pointer field then field
      else if field \<in> set [''arguments'', ''command'', ''content'', ''cursor'', ''id'', ''input'',
                ''name'', ''path'', ''prompt'', ''query'', ''url'', ''value''] then field
      else ''field'')"

definition stable_field_error_message :: "string \<Rightarrow> string" where
  "stable_field_error_message msg =
     (if msg \<in> set [''Missing required field'', ''Wrong type'', ''Disallowed option'',
           ''Array too short'', ''Array too long'', ''Unexpected field'', ''Ambiguous union'',
           ''Schema constraint failed''] then msg
      else ''Invalid field value'')"

definition stable_error_candidate :: "string \<Rightarrow> string" where
  "stable_error_candidate token =
     (if token \<in> set [''attachments'', ''contact_support'', ''directory'', ''file'',
           ''literal_path'', ''missing'', ''other'', ''request_permission'', ''retry'',
           ''revise_input'', ''skill_directory'', ''source_reference'', ''wait'', ''workspace'']
      then token else ''other'')"

text \<open>\<open>char::is_control\<close>: the control characters below 160.\<close>

definition is_control :: "string \<Rightarrow> bool" where
  "is_control ch =
     (case ch of
        [c] \<Rightarrow> byte c < 32 \<or> byte c = 127
      | [a, b] \<Rightarrow> byte a = 0xC2 \<and> 0x80 \<le> byte b \<and> byte b < 0xA0
      | _ \<Rightarrow> False)"

definition REPLACEMENT_CHAR :: string where
  "REPLACEMENT_CHAR = map char_of [0xEF, 0xBF, 0xBD :: nat]"

definition visible_char :: "string \<Rightarrow> string" where
  "visible_char ch = (if ch = [CHR 0x09] \<or> \<not> is_control ch then ch else REPLACEMENT_CHAR)"

definition stable_line_candidate_preview :: "string \<Rightarrow> string" where
  "stable_line_candidate_preview preview =
     concat (map visible_char (take MAX_TOOL_ERROR_LINE_PREVIEW_CHARS (chars preview)))"

definition stable_file_candidate_kind :: "string \<Rightarrow> string option" where
  "stable_file_candidate_kind kind =
     (if kind \<in> set [''file'', ''directory'', ''symlink'', ''other''] then Some kind else None)"

text \<open>\<open>str::replace('\\', "/")\<close>.\<close>

definition forward_slashes :: "string \<Rightarrow> string" where
  "forward_slashes = map (\<lambda>c. if c = CHR 0x5C then CHR ''/'' else c)"

definition windows_absolute :: "string \<Rightarrow> bool" where
  "windows_absolute s \<longleftrightarrow>
     3 \<le> length s \<and> (is_ascii_upper (s ! 0) \<or> is_ascii_lower (s ! 0)) \<and> s ! 1 = CHR '':''
     \<and> s ! 2 = CHR ''/''"

definition stable_file_candidate_path :: "string \<Rightarrow> string option" where
  "stable_file_candidate_path path =
     (let normalized = forward_slashes path
      in if normalized = [] \<or> MAX_FILE_REFERENCE_PATH_BYTES < length normalized
            \<or> starts_with normalized ''/'' \<or> starts_with normalized ''//''
            \<or> windows_absolute normalized
            \<or> list_ex (\<lambda>c. c = ''..'') (split_char (CHR ''/'') normalized)
         then None else Some normalized)"

definition root_suffix :: "string \<Rightarrow> string option" where
  "root_suffix normalized =
     (case strip_prefix normalized ''worktree/'' of Some s \<Rightarrow> Some s
      | None \<Rightarrow> (case strip_prefix normalized ''attachments/'' of Some s \<Rightarrow> Some s
         | None \<Rightarrow> strip_prefix normalized ''skills/''))"

definition stable_effective_root :: "string \<Rightarrow> string option" where
  "stable_effective_root root =
     (let normalized = forward_slashes root;
          allowed = normalized = ''worktree'' \<or> normalized = ''attachments''
            \<or> starts_with normalized ''worktree/'' \<or> starts_with normalized ''attachments/''
            \<or> starts_with normalized ''skills/'';
          suffix = root_suffix normalized
      in if \<not> allowed \<or> MAX_FILE_REFERENCE_PATH_BYTES < length normalized then None
         else case suffix of
             Some s \<Rightarrow> (if stable_file_candidate_path s = None then None else Some normalized)
           | None \<Rightarrow> Some normalized)"

section \<open>Details\<close>

text \<open>The four shapes of details the public form knows, tried in the order of the code.\<close>

fun as_object :: "json \<Rightarrow> (string \<times> json) list option" where
  "as_object (JObj kvs) = Some kvs"
| "as_object _ = None"

definition get_u64 :: "string \<Rightarrow> json \<Rightarrow> nat option" where
  "get_u64 k v = Option.bind (jget k v) as_u64"

definition get_bool :: "string \<Rightarrow> json \<Rightarrow> bool option" where
  "get_bool k v = Option.bind (jget k v) as_bool"

definition limit_details :: "string \<Rightarrow> nat \<Rightarrow> nat \<Rightarrow> json option" where
  "limit_details limit actual_bytes max_bytes =
     (if limit \<in> set [''MAX_TOOL_DESCRIPTION_BYTES'', ''MAX_TOOL_SCHEMA_BYTES'']
      then Some (JObj [(''actual_bytes'', JInt (int actual_bytes)), (''limit'', JStr limit),
                       (''max_bytes'', JInt (int max_bytes))])
      else None)"

definition directory_details :: "bool \<Rightarrow> string \<Rightarrow> json option" where
  "directory_details expected_directory actual_kind =
     (if actual_kind \<in> set [''directory'', ''file'', ''missing'', ''other'', ''symlink'']
      then Some (JObj [(''actual_kind'', JStr actual_kind),
                       (''expected_directory'', JBool expected_directory)])
      else None)"

text \<open>
  An optional entry: absent, or checked and inserted; a value the check refuses drops the whole
  details (the \<open>?\<close> and the \<open>return None\<close> of the code).
\<close>

definition add_checked ::
    "string \<Rightarrow> (string \<Rightarrow> string option) \<Rightarrow> json \<Rightarrow> (string \<times> json) list
       \<Rightarrow> (string \<times> json) list option" where
  "add_checked k check v details =
     (case get_str k v of
        None \<Rightarrow> Some details
      | Some s \<Rightarrow> Option.bind (check s) (\<lambda>s'. Some (insert_key k (JStr s') details)))"

definition known_tool :: "string \<Rightarrow> string option" where
  "known_tool s = (if s \<in> set [''read'', ''ls''] then Some s else None)"

definition kind_details :: "string \<Rightarrow> json \<Rightarrow> (string \<times> json) list option" where
  "kind_details expected_kind v =
     (if expected_kind \<in> set [''file'', ''directory'']
      then Option.bind
             (add_checked ''actual_kind'' stable_file_candidate_kind v
               (insert_key ''expected_kind'' (JStr expected_kind) [])) (\<lambda>details.
           Option.bind (add_checked ''suggested_tool'' known_tool v details) (\<lambda>details.
           add_checked ''effective_root'' stable_effective_root v details))
      else None)"

definition typed_error_details :: "json \<Rightarrow> json option" where
  "typed_error_details v =
     (if as_object v = None then None
      else case get_u64 ''match_count'' v of
        Some match_count \<Rightarrow> Some (JObj [(''match_count'', JInt (int match_count))])
      | None \<Rightarrow>
     (case get_str ''reason'' v of
        Some reason \<Rightarrow>
          (if reason \<in> set [''explicit_additional_properties'', ''schema_compilation_failed'']
           then Some (JObj [(''reason'', JStr reason)]) else None)
      | None \<Rightarrow>
     (case (get_str ''limit'' v, get_u64 ''actual_bytes'' v, get_u64 ''max_bytes'' v) of
        (Some limit, Some actual_bytes, Some max_bytes) \<Rightarrow>
          limit_details limit actual_bytes max_bytes
      | _ \<Rightarrow>
     (case (get_bool ''expected_directory'' v, get_str ''actual_kind'' v) of
        (Some expected_directory, Some actual_kind) \<Rightarrow>
          directory_details expected_directory actual_kind
      | _ \<Rightarrow>
     (case get_str ''expected_kind'' v of
        Some expected_kind \<Rightarrow>
          Option.bind (kind_details expected_kind v) (\<lambda>details.
            if 1 < length details then Some (JObj details) else None)
      | None \<Rightarrow> None)))))"

section \<open>Building an error\<close>

definition field_error_new :: "string \<Rightarrow> string \<Rightarrow> string \<Rightarrow> tool_field_error" where
  "field_error_new field code msg =
     \<lparr>fe_field = stable_field_name field, fe_code = stable_error_code code,
      fe_message = stable_field_error_message msg\<rparr>"

definition sanitized :: "tool_field_error \<Rightarrow> tool_field_error" where
  "sanitized f = field_error_new (fe_field f) (fe_code f) (fe_message f)"

definition tool_error_new :: "tool_error_category \<Rightarrow> string \<Rightarrow> string \<Rightarrow> tool_error" where
  "tool_error_new category code untrusted_message =
     (let code = stable_error_code code
      in \<lparr>te_category = category, te_code = code,
          te_message = public_error_message category code,
          te_retryable = (category = TeTransient \<or> category = TeTimeout),
          te_strategy = None, te_field_errors = [], te_candidates = [], te_details = None\<rparr>)"

definition caller :: "string \<Rightarrow> string \<Rightarrow> tool_error" where
  "caller = tool_error_new TeCaller"

definition precondition :: "string \<Rightarrow> string \<Rightarrow> tool_error" where
  "precondition = tool_error_new TePrecondition"

definition transient :: "string \<Rightarrow> string \<Rightarrow> tool_error" where
  "transient = tool_error_new TeTransient"

definition internal :: "string \<Rightarrow> string \<Rightarrow> tool_error" where
  "internal = tool_error_new TeInternal"

definition with_details :: "tool_error \<Rightarrow> json \<Rightarrow> tool_error" where
  "with_details e details = e\<lparr>te_details := typed_error_details details\<rparr>"

definition with_strategy :: "tool_error \<Rightarrow> tool_error_strategy \<Rightarrow> tool_error" where
  "with_strategy e strategy = e\<lparr>te_strategy := Some strategy\<rparr>"

definition with_field_error :: "tool_error \<Rightarrow> tool_field_error \<Rightarrow> tool_error" where
  "with_field_error e f =
     (if length (te_field_errors e) < MAX_TOOL_ERROR_FIELD_ERRORS
      then e\<lparr>te_field_errors := te_field_errors e @ [sanitized f]\<rparr> else e)"

definition push_candidate :: "tool_error \<Rightarrow> tool_error_candidate \<Rightarrow> tool_error" where
  "push_candidate e c = e\<lparr>te_candidates := te_candidates e @ [c]\<rparr>"

definition with_candidate :: "tool_error \<Rightarrow> string \<Rightarrow> tool_error" where
  "with_candidate e token =
     (if length (te_candidates e) < MAX_TOOL_ERROR_CANDIDATES
      then push_candidate e (TokenCandidate (stable_error_candidate token)) else e)"

fun is_file :: "tool_error_candidate \<Rightarrow> bool" where
  "is_file (FileCandidate p k) = True"
| "is_file _ = False"

fun is_line :: "tool_error_candidate \<Rightarrow> bool" where
  "is_line (LineCandidate l p) = True"
| "is_line _ = False"

definition with_file_candidate :: "tool_error \<Rightarrow> string \<Rightarrow> string \<Rightarrow> tool_error" where
  "with_file_candidate e path kind =
     (if length (te_candidates e) < MAX_TOOL_ERROR_CANDIDATES
         \<and> length (filter is_file (te_candidates e)) < MAX_FILE_TOOL_ERROR_CANDIDATES
      then (case (stable_file_candidate_path path, stable_file_candidate_kind kind) of
              (Some path, Some kind) \<Rightarrow> push_candidate e (FileCandidate path kind)
            | _ \<Rightarrow> e)
      else e)"

definition with_line_candidate :: "tool_error \<Rightarrow> nat \<Rightarrow> string \<Rightarrow> tool_error" where
  "with_line_candidate e line preview =
     (if 0 < line \<and> length (te_candidates e) < MAX_TOOL_ERROR_CANDIDATES
         \<and> length (filter is_line (te_candidates e)) < MAX_TOOL_ERROR_LINE_CANDIDATES
      then push_candidate e (LineCandidate line (stable_line_candidate_preview preview)) else e)"

definition public_message :: "tool_error \<Rightarrow> string" where
  "public_message e = public_error_message (te_category e) (stable_error_code (te_code e))"

section \<open>The public form\<close>

definition field_error_json :: "tool_field_error \<Rightarrow> json" where
  "field_error_json f =
     JObj [(''code'', JStr (stable_error_code (fe_code f))),
           (''field'', JStr (stable_field_name (fe_field f))),
           (''message'', JStr (stable_field_error_message (fe_message f)))]"

fun stable_error_candidate_value :: "tool_error_candidate \<Rightarrow> json option" where
  "stable_error_candidate_value (TokenCandidate token) =
     Some (JStr (stable_error_candidate token))"
| "stable_error_candidate_value (FileCandidate path kind) =
     (case (stable_file_candidate_path path, stable_file_candidate_kind kind) of
        (Some path, Some kind) \<Rightarrow> Some (JObj [(''kind'', JStr kind), (''path'', JStr path)])
      | _ \<Rightarrow> None)"
| "stable_error_candidate_value (LineCandidate line preview) =
     (if 0 < line
      then Some (JObj [(''line'', JInt (int line)),
                       (''preview'', JStr (stable_line_candidate_preview preview))])
      else None)"

text \<open>The \<open>filter_map\<close> over the candidates, with its two counters.\<close>

fun public_candidates :: "nat \<Rightarrow> nat \<Rightarrow> tool_error_candidate list \<Rightarrow> json list" where
  "public_candidates files lines [] = []"
| "public_candidates files lines (c # cs) =
     (let stable = stable_error_candidate_value c
      in if is_file c \<and> MAX_FILE_TOOL_ERROR_CANDIDATES \<le> files
            \<or> is_line c \<and> MAX_TOOL_ERROR_LINE_CANDIDATES \<le> lines
         then public_candidates files lines cs
         else case stable of
             None \<Rightarrow> public_candidates files lines cs
           | Some v \<Rightarrow> v # public_candidates (if is_file c then files + 1 else files)
                             (if is_line c then lines + 1 else lines) cs)"

fun strategy_json :: "tool_error_strategy option \<Rightarrow> json" where
  "strategy_json None = JNull"
| "strategy_json (Some s) = JStr (strategy_str s)"

definition tool_error_json :: "tool_error \<Rightarrow> json" where
  "tool_error_json e =
     (let stable = JObj
        [(''candidates'',
            JArr (public_candidates 0 0 (take MAX_TOOL_ERROR_CANDIDATES (te_candidates e)))),
         (''category'', JStr (category_str (te_category e))),
         (''code'', JStr (stable_error_code (te_code e))),
         (''field_errors'',
            JArr (map field_error_json (take MAX_TOOL_ERROR_FIELD_ERRORS (te_field_errors e)))),
         (''message'', JStr (public_message e)),
         (''retryable'', JBool (te_retryable e)),
         (''strategy'', strategy_json (te_strategy e))]
      in case Option.bind (te_details e) typed_error_details of
           Some details \<Rightarrow> jset ''details'' details stable
         | None \<Rightarrow> stable)"

section \<open>Reading it back\<close>

text \<open>A field of a derived reader: its text, its default when it is absent, or an error.\<close>

definition required_str :: "string \<Rightarrow> json \<Rightarrow> unit + string" where
  "required_str k v = (case get_str k v of Some s \<Rightarrow> Inr s | None \<Rightarrow> Inl ())"

fun field_error_from_json :: "json \<Rightarrow> unit + tool_field_error" where
  "field_error_from_json (JObj kvs) =
     try_bind (required_str ''field'' (JObj kvs)) (\<lambda>field.
     try_bind (required_str ''code'' (JObj kvs)) (\<lambda>code.
     try_bind (required_str ''message'' (JObj kvs)) (\<lambda>msg.
     Inr (field_error_new field code msg))))"
| "field_error_from_json _ = Inl ()"

fun collect :: "('e + 'a) list \<Rightarrow> 'e + 'a list" where
  "collect [] = Inr []"
| "collect (r # rs) = try_bind r (\<lambda>a. try_bind (collect rs) (\<lambda>rest. Inr (a # rest)))"

definition default_array :: "string \<Rightarrow> json \<Rightarrow> unit + json list" where
  "default_array k v =
     (case jget k v of None \<Rightarrow> Inr [] | Some (JArr vs) \<Rightarrow> Inr vs | Some _ \<Rightarrow> Inl ())"

definition raw_category :: "json \<Rightarrow> unit + tool_error_category" where
  "raw_category v =
     (case Option.bind (get_str ''category'' v) category_from_str of
        Some c \<Rightarrow> Inr c | None \<Rightarrow> Inl ())"

definition raw_strategy :: "json \<Rightarrow> unit + tool_error_strategy option" where
  "raw_strategy v =
     (case jget ''strategy'' v of
        None \<Rightarrow> Inr None
      | Some JNull \<Rightarrow> Inr None
      | Some (JStr s) \<Rightarrow> (case strategy_from_str s of Some x \<Rightarrow> Inr (Some x) | None \<Rightarrow> Inl ())
      | Some _ \<Rightarrow> Inl ())"

definition raw_defaults_ok :: "json \<Rightarrow> bool" where
  "raw_defaults_ok v \<longleftrightarrow>
     (case jget ''message'' v of None \<Rightarrow> True | Some (JStr s) \<Rightarrow> True | Some _ \<Rightarrow> False)
     \<and> (case jget ''retryable'' v of None \<Rightarrow> True | Some (JBool b) \<Rightarrow> True | Some _ \<Rightarrow> False)"

definition raw_details :: "json \<Rightarrow> json option" where
  "raw_details v =
     (case jget ''details'' v of None \<Rightarrow> None | Some JNull \<Rightarrow> None | Some d \<Rightarrow> Some d)"

definition read_candidate :: "tool_error \<Rightarrow> json \<Rightarrow> tool_error" where
  "read_candidate e v =
     (case v of
        JStr token \<Rightarrow> with_candidate e token
      | JObj kvs \<Rightarrow>
          (case (get_u64 ''line'' v, get_str ''preview'' v) of
             (Some line, Some preview) \<Rightarrow> with_line_candidate e line preview
           | _ \<Rightarrow>
             (case (get_str ''path'' v, get_str ''kind'' v) of
                (Some path, Some kind) \<Rightarrow> with_file_candidate e path kind
              | _ \<Rightarrow> e))
      | _ \<Rightarrow> e)"

fun tool_error_from_json :: "json \<Rightarrow> unit + tool_error" where
  "tool_error_from_json (JObj kvs) =
     (let v = JObj kvs in
      if \<not> raw_defaults_ok v then Inl () else
      try_bind (raw_category v) (\<lambda>category.
      try_bind (required_str ''code'' v) (\<lambda>code.
      try_bind (raw_strategy v) (\<lambda>strategy.
      try_bind (default_array ''field_errors'' v) (\<lambda>raw_fields.
      try_bind (collect (map field_error_from_json raw_fields)) (\<lambda>field_errors.
      try_bind (default_array ''candidates'' v) (\<lambda>candidates.
        let e = (tool_error_new category code (case get_str ''message'' v of Some m \<Rightarrow> m | None \<Rightarrow> []))\<lparr>te_strategy := strategy\<rparr>;
            e = foldl with_field_error e (take MAX_TOOL_ERROR_FIELD_ERRORS field_errors);
            e = foldl read_candidate e (take MAX_TOOL_ERROR_CANDIDATES candidates)
        in Inr (case raw_details v of Some d \<Rightarrow> with_details e d | None \<Rightarrow> e))))))))"
| "tool_error_from_json _ = Inl ()"

section \<open>The cleaning functions are idempotent\<close>

lemma stable_error_code_again [simp]: "stable_error_code (stable_error_code s) = stable_error_code s"
proof -
  have "list_all (\<lambda>b. is_ascii_lower b \<or> is_ascii_digit b \<or> b = CHR ''_'') ''other''"
    by (simp add: is_ascii_lower_def byte_def)
  then show ?thesis by (simp add: stable_error_code_def)
qed

interpretation error_code: normaliser stable_error_code
  by unfold_locales simp

interpretation field_name: normaliser stable_field_name
  by unfold_locales (simp add: stable_field_name_def)

interpretation field_message: normaliser stable_field_error_message
  by unfold_locales (simp add: stable_field_error_message_def)

interpretation candidate_token: normaliser stable_error_candidate
  by unfold_locales (simp add: stable_error_candidate_def)

lemma sanitized_again: "sanitized (sanitized f) = sanitized f"
  by (simp add: sanitized_def field_error_new_def error_code.clean_clean field_name.clean_clean
      field_message.clean_clean)

interpretation field_error: normaliser sanitized
  by unfold_locales (rule sanitized_again)

text \<open>A character of a string: one byte with the continuation bytes that follow it.\<close>

definition one_char :: "string \<Rightarrow> bool" where
  "one_char ch \<longleftrightarrow> ch \<noteq> [] \<and> list_all is_cont (tl ch)"

lemma chars_one_char: "ch \<in> set (chars s) \<Longrightarrow> one_char ch"
proof (induction s rule: chars.induct)
  case (2 c cs)
  have "list_all is_cont (takeWhile is_cont cs)" by (induction cs) auto
  with 2 show ?case by (auto simp: one_char_def)
qed simp

lemma chars_append_one:
  "one_char ch \<Longrightarrow> s = [] \<or> \<not> is_cont (hd s) \<Longrightarrow> chars (ch @ s) = ch # chars s"
proof -
  assume ch: "one_char ch" and s: "s = [] \<or> \<not> is_cont (hd s)"
  obtain c cs where c: "ch = c # cs" "list_all is_cont cs" using ch by (cases ch) (auto simp: one_char_def)
  have "takeWhile is_cont s = []" "dropWhile is_cont s = s" using s by (cases s; simp)+
  moreover have "takeWhile is_cont (cs @ s) = cs @ takeWhile is_cont s"
    "dropWhile is_cont (cs @ s) = dropWhile is_cont s"
    using c(2) by (induction cs) auto
  ultimately show ?thesis using c by simp
qed

lemma chars_concat:
  "list_all one_char xs \<Longrightarrow> list_all (\<lambda>x. \<not> is_cont (hd x)) (tl xs) \<Longrightarrow> chars (concat xs) = xs"
proof (induction xs)
  case (Cons x xs)
  have tail: "concat xs = [] \<or> \<not> is_cont (hd (concat xs))"
    using Cons.prems by (cases xs) (auto simp: one_char_def)
  have "list_all (\<lambda>x. \<not> is_cont (hd x)) (tl xs)" using Cons.prems by (cases xs) auto
  with Cons have "chars (concat xs) = xs" by simp
  then show ?case using chars_append_one [OF _ tail] Cons.prems by simp
qed simp

lemma chars_heads: "list_all (\<lambda>x. \<not> is_cont (hd x)) (tl (chars s))"
proof (induction s rule: chars.induct)
  case (2 c cs)
  show ?case
  proof (cases "dropWhile is_cont cs")
    case Nil
    show ?thesis unfolding chars.simps Nil by simp
  next
    case (Cons d ds)
    then have "\<not> is_cont d" by (metis hd_dropWhile list.distinct(1) list.sel(1))
    then show ?thesis using 2 Cons by simp
  qed
qed simp

lemma replacement_char: "one_char REPLACEMENT_CHAR" "\<not> is_cont (hd REPLACEMENT_CHAR)"
  "\<not> is_control REPLACEMENT_CHAR"
  by (simp_all add: one_char_def REPLACEMENT_CHAR_def is_cont_def byte_def is_control_def)

lemma visible_char_again [simp]: "visible_char (visible_char ch) = visible_char ch"
  using replacement_char by (simp add: visible_char_def)

lemma one_char_visible: "one_char ch \<Longrightarrow> one_char (visible_char ch)"
  using replacement_char by (simp add: visible_char_def)

lemma head_visible: "\<not> is_cont (hd ch) \<Longrightarrow> \<not> is_cont (hd (visible_char ch))"
  using replacement_char by (simp add: visible_char_def)

lemma chars_preview:
  "chars (concat (map visible_char (take n (chars s)))) = map visible_char (take n (chars s))"
proof (rule chars_concat)
  show "list_all one_char (map visible_char (take n (chars s)))"
    by (auto simp: list_all_iff dest!: in_set_takeD chars_one_char intro: one_char_visible)
  have "set (tl (take n (chars s))) \<subseteq> set (tl (chars s))"
    by (metis list.sel(2) set_take_subset take_Nil take_tl tl_take)
  then show "list_all (\<lambda>x. \<not> is_cont (hd x)) (tl (map visible_char (take n (chars s))))"
    using chars_heads [of s] by (auto simp: list_all_iff map_tl [symmetric] intro!: head_visible)
qed

interpretation line_preview: normaliser stable_line_candidate_preview
  by unfold_locales (simp add: stable_line_candidate_preview_def chars_preview take_map comp_def)

lemma forward_slashes_again [simp]: "forward_slashes (forward_slashes s) = forward_slashes s"
  by (simp add: forward_slashes_def)

interpretation file_path: partial_normaliser stable_file_candidate_path
  by unfold_locales (auto simp: stable_file_candidate_path_def Let_def split: if_splits)

interpretation file_kind: partial_normaliser stable_file_candidate_kind
  by unfold_locales (auto simp: stable_file_candidate_kind_def split: if_splits)

lemma stable_effective_root_slashes: "stable_effective_root (forward_slashes s) = stable_effective_root s"
  by (simp only: stable_effective_root_def forward_slashes_again)

lemma stable_effective_root_Some: "stable_effective_root s = Some t \<Longrightarrow> t = forward_slashes s"
  unfolding stable_effective_root_def Let_def
  by (simp only: option.inject option.distinct split: if_split_asm option.split_asm)

interpretation effective_root: partial_normaliser stable_effective_root
  using stable_effective_root_slashes stable_effective_root_Some by unfold_locales metis

interpretation suggested_tool: partial_normaliser known_tool
  by unfold_locales (auto simp: known_tool_def split: if_splits)

lemma get_lookups [simp]:
  "get_u64 k (JObj kvs) = Option.bind (map_of kvs k) as_u64"
  "get_bool k (JObj kvs) = Option.bind (map_of kvs k) as_bool"
  "get_str k (JObj kvs) = Option.bind (map_of kvs k) as_str"
  by (simp_all add: get_u64_def get_bool_def get_str_def)

lemma get_u64_bound: "get_u64 k v = Some n \<Longrightarrow> n \<le> u64_max"
  unfolding get_u64_def by (cases "jget k v"; simp; rename_tac x; case_tac x; simp split: if_splits)

lemma as_u64_int: "n \<le> u64_max \<Longrightarrow> as_u64 (JInt (int n)) = Some n"
  by simp

text \<open>What the check of the kind details makes: a small object that the check maps to itself.\<close>

lemma kind_details_shape:
  assumes "kind_details k v = Some details"
  obtains a b c where "k \<in> set [''file'', ''directory'']"
    and "details = (case a of None \<Rightarrow> [] | Some s \<Rightarrow> [(''actual_kind'', JStr s)])
      @ (case c of None \<Rightarrow> [] | Some s \<Rightarrow> [(''effective_root'', JStr s)]) @ [(''expected_kind'', JStr k)]
      @ (case b of None \<Rightarrow> [] | Some s \<Rightarrow> [(''suggested_tool'', JStr s)])"
    and "\<And>s. a = Some s \<Longrightarrow> stable_file_candidate_kind s = Some s"
    and "\<And>s. b = Some s \<Longrightarrow> known_tool s = Some s"
    and "\<And>s. c = Some s \<Longrightarrow> stable_effective_root s = Some s"
proof -
  obtain d1 d2 where k: "k \<in> set [''file'', ''directory'']"
    and d1: "add_checked ''actual_kind'' stable_file_candidate_kind v [(''expected_kind'', JStr k)] = Some d1"
    and d2: "add_checked ''suggested_tool'' known_tool v d1 = Some d2"
    and d3: "add_checked ''effective_root'' stable_effective_root v d2 = Some details"
    using assms by (auto simp: kind_details_def bind_eq_Some_conv split: if_splits)
  obtain a where 1: "d1 = (case a of None \<Rightarrow> [] | Some s \<Rightarrow> [(''actual_kind'', JStr s)])
      @ [(''expected_kind'', JStr k)]" "\<And>s. a = Some s \<Longrightarrow> stable_file_candidate_kind s = Some s"
  proof (cases "get_str ''actual_kind'' v")
    case None
    then show ?thesis using d1 that [of None] by (simp add: add_checked_def)
  next
    case (Some s)
    then obtain s' where s': "stable_file_candidate_kind s = Some s'"
      "d1 = insert_key ''actual_kind'' (JStr s') [(''expected_kind'', JStr k)]"
      using d1 by (auto simp: add_checked_def bind_eq_Some_conv)
    show ?thesis using that [of "Some s'"] s' file_kind.check_again by simp
  qed
  obtain b where 2: "d2 = d1 @ (case b of None \<Rightarrow> [] | Some s \<Rightarrow> [(''suggested_tool'', JStr s)])"
    "\<And>s. b = Some s \<Longrightarrow> known_tool s = Some s"
  proof (cases "get_str ''suggested_tool'' v")
    case None
    then show ?thesis using d2 that [of None] by (simp add: add_checked_def)
  next
    case (Some s)
    then obtain s' where s': "known_tool s = Some s'" "d2 = insert_key ''suggested_tool'' (JStr s') d1"
      using d2 by (auto simp: add_checked_def bind_eq_Some_conv)
    show ?thesis using that [of "Some s'"] s' suggested_tool.check_again 1(1) by (cases a) simp_all
  qed
  obtain c where 3: "details =
      (case a of None \<Rightarrow> [] | Some s \<Rightarrow> [(''actual_kind'', JStr s)])
      @ (case c of None \<Rightarrow> [] | Some s \<Rightarrow> [(''effective_root'', JStr s)]) @ [(''expected_kind'', JStr k)]
      @ (case b of None \<Rightarrow> [] | Some s \<Rightarrow> [(''suggested_tool'', JStr s)])"
    "\<And>s. c = Some s \<Longrightarrow> stable_effective_root s = Some s"
  proof (cases "get_str ''effective_root'' v")
    case None
    then show ?thesis using d3 1 2 that [of None] by (simp add: add_checked_def)
  next
    case (Some s)
    then obtain s' where s': "stable_effective_root s = Some s'"
      "details = insert_key ''effective_root'' (JStr s') d2"
      using d3 by (auto simp: add_checked_def bind_eq_Some_conv)
    show ?thesis using that [of "Some s'"] s' effective_root.check_again 1(1) 2(1)
      by (cases a; cases b) simp_all
  qed
  show ?thesis by (rule that [OF k 3(1) 1(2) 2(2) 3(2)])
qed

lemma kind_details_again:
  assumes "kind_details k v = Some details"
  shows "kind_details k (JObj details) = Some details"
    and "get_str ''expected_kind'' (JObj details) = Some k"
    and "map_of details ''match_count'' = None" "map_of details ''reason'' = None"
      "map_of details ''limit'' = None" "map_of details ''expected_directory'' = None"
proof -
  obtain a b c where abc: "k \<in> set [''file'', ''directory'']"
    "details = (case a of None \<Rightarrow> [] | Some s \<Rightarrow> [(''actual_kind'', JStr s)])
      @ (case c of None \<Rightarrow> [] | Some s \<Rightarrow> [(''effective_root'', JStr s)]) @ [(''expected_kind'', JStr k)]
      @ (case b of None \<Rightarrow> [] | Some s \<Rightarrow> [(''suggested_tool'', JStr s)])"
    "\<And>s. a = Some s \<Longrightarrow> stable_file_candidate_kind s = Some s"
    "\<And>s. b = Some s \<Longrightarrow> known_tool s = Some s"
    "\<And>s. c = Some s \<Longrightarrow> stable_effective_root s = Some s"
    using kind_details_shape [OF assms] by blast
  show "kind_details k (JObj details) = Some details"
    using abc
    by (cases a; cases b; cases c) (simp_all add: kind_details_def add_checked_def)
  show "get_str ''expected_kind'' (JObj details) = Some k"
    using abc(2) by (cases a; cases b; cases c) simp_all
  show "map_of details ''match_count'' = None" "map_of details ''reason'' = None"
      "map_of details ''limit'' = None" "map_of details ''expected_directory'' = None"
    using abc(2) by (cases a; cases b; cases c; simp)+
qed

lemma kind_branch_again:
  assumes "kind_details k v = Some details" "1 < length details"
  shows "typed_error_details (JObj details) = Some (JObj details)"
  using kind_details_again [OF assms(1)] assms(2)
  by (simp add: typed_error_details_def split: option.splits)

lemma limit_branch_again:
  "limit_details l a m = Some d \<Longrightarrow> a \<le> u64_max \<Longrightarrow> m \<le> u64_max \<Longrightarrow> typed_error_details d = Some d"
  by (auto simp: limit_details_def typed_error_details_def split: if_splits)

lemma directory_branch_again: "directory_details b k = Some d \<Longrightarrow> typed_error_details d = Some d"
  by (auto simp: directory_details_def typed_error_details_def split: if_splits)

lemma typed_error_details_again:
  assumes "typed_error_details v = Some d"
  shows "typed_error_details d = Some d"
proof (cases "get_u64 ''match_count'' v")
  case (Some n)
  then have "d = JObj [(''match_count'', JInt (int n))]" "n \<le> u64_max"
    using assms get_u64_bound [OF Some] by (auto simp: typed_error_details_def split: if_splits)
  then show ?thesis by (simp add: typed_error_details_def)
next
  case none: None
  show ?thesis
  proof (cases "get_str ''reason'' v")
    case (Some r)
    then have "d = JObj [(''reason'', JStr r)]"
      "r \<in> set [''explicit_additional_properties'', ''schema_compilation_failed'']"
      using assms none by (auto simp: typed_error_details_def split: if_splits)
    then show ?thesis by (auto simp: typed_error_details_def)
  next
    case reason: None
    consider (limit) l a m where "limit_details l a m = Some d" "a \<le> u64_max" "m \<le> u64_max"
      | (directory) b k where "directory_details b k = Some d"
      | (kind) k details where "kind_details k v = Some details" "1 < length details" "d = JObj details"
      using assms none reason get_u64_bound
      by (auto simp: typed_error_details_def bind_eq_Some_conv split: if_splits option.splits)
    then show ?thesis
      using limit_branch_again directory_branch_again kind_branch_again by cases auto
  qed
qed

interpretation error_details: partial_normaliser typed_error_details
  using typed_error_details_again by unfold_locales

section \<open>The errors the module builds\<close>

fun stable_candidate :: "tool_error_candidate \<Rightarrow> bool" where
  "stable_candidate (TokenCandidate token) \<longleftrightarrow> stable_error_candidate token = token"
| "stable_candidate (FileCandidate path kind) \<longleftrightarrow>
     stable_file_candidate_path path = Some path \<and> stable_file_candidate_kind kind = Some kind"
| "stable_candidate (LineCandidate line preview) \<longleftrightarrow>
     0 < line \<and> line \<le> u64_max \<and> stable_line_candidate_preview preview = preview"

definition stable_error :: "tool_error \<Rightarrow> bool" where
  "stable_error e \<longleftrightarrow>
     stable_error_code (te_code e) = te_code e
     \<and> te_message e = public_message e
     \<and> te_retryable e = (te_category e = TeTransient \<or> te_category e = TeTimeout)
     \<and> length (te_field_errors e) \<le> MAX_TOOL_ERROR_FIELD_ERRORS
     \<and> (\<forall>f \<in> set (te_field_errors e). sanitized f = f)
     \<and> length (te_candidates e) \<le> MAX_TOOL_ERROR_CANDIDATES
     \<and> length (filter is_file (te_candidates e)) \<le> MAX_FILE_TOOL_ERROR_CANDIDATES
     \<and> length (filter is_line (te_candidates e)) \<le> MAX_TOOL_ERROR_LINE_CANDIDATES
     \<and> (\<forall>c \<in> set (te_candidates e). stable_candidate c)
     \<and> Option.bind (te_details e) typed_error_details = te_details e"

inductive error_step :: "tool_error \<Rightarrow> tool_error \<Rightarrow> bool" where
  details: "error_step e (with_details e d)"
| strategy: "error_step e (with_strategy e s)"
| field: "error_step e (with_field_error e f)"
| token: "error_step e (with_candidate e t)"
| path: "error_step e (with_file_candidate e p k)"
| line: "l \<le> u64_max \<Longrightarrow> error_step e (with_line_candidate e l p)"

definition error_init :: "tool_error \<Rightarrow> bool" where
  "error_init e \<longleftrightarrow> (\<exists>category code msg. e = tool_error_new category code msg)"

lemma stable_new: "stable_error (tool_error_new category code msg)"
  by (simp add: stable_error_def tool_error_new_def public_message_def Let_def tool_error_limits)

lemma stable_with_details: "stable_error e \<Longrightarrow> stable_error (with_details e d)"
  by (simp add: stable_error_def with_details_def public_message_def error_details.check_check)

lemma stable_with_strategy: "stable_error e \<Longrightarrow> stable_error (with_strategy e s)"
  by (simp add: stable_error_def with_strategy_def public_message_def)

lemma stable_with_field_error: "stable_error e \<Longrightarrow> stable_error (with_field_error e f)"
  by (auto simp: stable_error_def with_field_error_def public_message_def sanitized_again)

lemma stable_push:
  assumes "stable_error e" "length (te_candidates e) < MAX_TOOL_ERROR_CANDIDATES" "stable_candidate c"
    and "is_file c \<Longrightarrow> length (filter is_file (te_candidates e)) < MAX_FILE_TOOL_ERROR_CANDIDATES"
    and "is_line c \<Longrightarrow> length (filter is_line (te_candidates e)) < MAX_TOOL_ERROR_LINE_CANDIDATES"
  shows "stable_error (push_candidate e c)"
  using assms by (auto simp: stable_error_def push_candidate_def public_message_def)

lemma stable_with_candidate: "stable_error e \<Longrightarrow> stable_error (with_candidate e t)"
  by (auto simp: with_candidate_def candidate_token.clean_clean intro!: stable_push)

lemma stable_with_file: "stable_error e \<Longrightarrow> stable_error (with_file_candidate e p k)"
  by (auto simp: with_file_candidate_def file_path.check_again file_kind.check_again
      split: option.splits intro!: stable_push)

lemma stable_with_line: "stable_error e \<Longrightarrow> l \<le> u64_max \<Longrightarrow> stable_error (with_line_candidate e l p)"
  by (auto simp: with_line_candidate_def line_preview.clean_clean intro!: stable_push)

lemmas stable_builders =
  stable_with_details stable_with_strategy stable_with_field_error stable_with_candidate
  stable_with_file stable_with_line

interpretation tool_errors: machine error_init error_step stable_error
proof
  show "stable_error e" if "error_init e" for e
    using that stable_new by (auto simp: error_init_def)
  show "stable_error e'" if "stable_error e" "error_step e e'" for e e'
    using that(2,1) by cases (simp_all add: stable_builders)
qed

section \<open>Writing and reading\<close>

lemma public_candidates_stable:
  "list_all stable_candidate cs \<Longrightarrow>
   files + length (filter is_file cs) \<le> MAX_FILE_TOOL_ERROR_CANDIDATES \<Longrightarrow>
   lines + length (filter is_line cs) \<le> MAX_TOOL_ERROR_LINE_CANDIDATES \<Longrightarrow>
   public_candidates files lines cs = map (\<lambda>c. the (stable_error_candidate_value c)) cs"
proof (induction cs arbitrary: files lines)
  case (Cons c cs)
  then show ?case by (cases c) (simp_all add: Let_def)
qed simp

lemma read_candidate_stable:
  assumes "stable_candidate c" "length (te_candidates e) < MAX_TOOL_ERROR_CANDIDATES"
    and "is_file c \<Longrightarrow> length (filter is_file (te_candidates e)) < MAX_FILE_TOOL_ERROR_CANDIDATES"
    and "is_line c \<Longrightarrow> length (filter is_line (te_candidates e)) < MAX_TOOL_ERROR_LINE_CANDIDATES"
  shows "read_candidate e (the (stable_error_candidate_value c)) = push_candidate e c"
  using assms
  by (cases c) (simp_all add: read_candidate_def with_candidate_def with_file_candidate_def
      with_line_candidate_def)

lemma read_candidates_stable:
  "list_all stable_candidate cs \<Longrightarrow>
   length (te_candidates e @ cs) \<le> MAX_TOOL_ERROR_CANDIDATES \<Longrightarrow>
   length (filter is_file (te_candidates e @ cs)) \<le> MAX_FILE_TOOL_ERROR_CANDIDATES \<Longrightarrow>
   length (filter is_line (te_candidates e @ cs)) \<le> MAX_TOOL_ERROR_LINE_CANDIDATES \<Longrightarrow>
   foldl read_candidate e (map (\<lambda>c. the (stable_error_candidate_value c)) cs) =
     e\<lparr>te_candidates := te_candidates e @ cs\<rparr>"
proof (induction cs arbitrary: e)
  case (Cons c cs)
  have "read_candidate e (the (stable_error_candidate_value c)) = push_candidate e c"
    using Cons.prems by (intro read_candidate_stable) (auto split: if_splits)
  moreover have "foldl read_candidate (push_candidate e c)
      (map (\<lambda>c. the (stable_error_candidate_value c)) cs) =
      (push_candidate e c)\<lparr>te_candidates := te_candidates (push_candidate e c) @ cs\<rparr>"
    using Cons.prems by (intro Cons.IH) (simp_all add: push_candidate_def)
  ultimately show ?case by (simp add: push_candidate_def)
qed simp

lemma raw_strategy_written: "jget ''strategy'' v = Some (strategy_json s) \<Longrightarrow> raw_strategy v = Inr s"
  by (cases s) (simp_all add: raw_strategy_def tool_strategy.dec_enc)

lemma field_errors_read:
  "collect (map (field_error_from_json \<circ> field_error_json) fs) = Inr (map sanitized fs)"
  by (induction fs)
    (simp_all add: field_error_json_def required_str_def field_error_new_def sanitized_def
      error_code.clean_clean field_name.clean_clean field_message.clean_clean)

lemma foldl_with_field_error:
  "length (te_field_errors e @ fs) \<le> MAX_TOOL_ERROR_FIELD_ERRORS \<Longrightarrow>
   foldl with_field_error e fs = e\<lparr>te_field_errors := te_field_errors e @ map sanitized fs\<rparr>"
proof (induction fs arbitrary: e)
  case (Cons f fs)
  then show ?case by (simp add: with_field_error_def)
qed simp

lemma stable_error_roundtrip:
  assumes "stable_error e"
  shows "tool_error_from_json (tool_error_json e) = Inr e"
proof -
  let ?fs = "te_field_errors e" and ?cs = "te_candidates e"
  let ?new = "tool_error_new (te_category e) (te_code e) (public_message e)"
  have fs: "take MAX_TOOL_ERROR_FIELD_ERRORS ?fs = ?fs" and cs: "take MAX_TOOL_ERROR_CANDIDATES ?cs = ?cs"
    using assms by (simp_all add: stable_error_def)
  have san: "map sanitized ?fs = ?fs" using assms by (simp add: stable_error_def map_idI)
  have pc: "public_candidates 0 0 ?cs = map (\<lambda>c. the (stable_error_candidate_value c)) ?cs"
    using assms by (intro public_candidates_stable) (simp_all add: stable_error_def list_all_iff)
  have code: "stable_error_code (te_code e) = te_code e" using assms by (simp add: stable_error_def)
  have fields: "foldl with_field_error (?new\<lparr>te_strategy := te_strategy e\<rparr>) ?fs =
      ?new\<lparr>te_strategy := te_strategy e, te_field_errors := ?fs\<rparr>"
    using assms by (subst foldl_with_field_error) (simp_all add: stable_error_def tool_error_new_def Let_def san)
  have cands: "foldl read_candidate (?new\<lparr>te_strategy := te_strategy e, te_field_errors := ?fs\<rparr>)
      (map (\<lambda>c. the (stable_error_candidate_value c)) ?cs) =
      ?new\<lparr>te_strategy := te_strategy e, te_field_errors := ?fs, te_candidates := ?cs\<rparr>"
    using assms by (subst read_candidates_stable)
      (simp_all add: stable_error_def tool_error_new_def Let_def list_all_iff)
  have whole: "?new\<lparr>te_strategy := te_strategy e, te_field_errors := ?fs, te_candidates := ?cs,
      te_details := te_details e\<rparr> = e"
    using assms by (cases e) (simp add: stable_error_def tool_error_new_def public_message_def Let_def)
  have bare: "?new\<lparr>te_strategy := te_strategy e, te_field_errors := ?fs, te_candidates := ?cs\<rparr> = e"
    if "te_details e = None"
    using assms that by (cases e) (simp add: stable_error_def tool_error_new_def public_message_def Let_def)
  show ?thesis
  proof (cases "te_details e")
    case None
    then show ?thesis
      using bare
      by (simp add: tool_error_json_def Let_def fs cs pc code raw_defaults_ok_def raw_category_def
          tool_category.dec_enc required_str_def raw_strategy_written take_map
          default_array_def field_errors_read san fields cands raw_details_def)
  next
    case (Some d)
    then have "typed_error_details d = Some d" using assms by (simp add: stable_error_def)
    moreover have "d \<noteq> JNull" using calculation by (auto simp: typed_error_details_def)
    ultimately show ?thesis
      using whole Some
      by (cases d) (simp_all add: tool_error_json_def Let_def fs cs pc code raw_defaults_ok_def raw_category_def
          tool_category.dec_enc required_str_def raw_strategy_written take_map
          default_array_def field_errors_read san fields cands raw_details_def with_details_def)
  qed
qed

section \<open>What is read is built\<close>

lemma foldl_reachable:
  assumes "\<And>e x. x \<in> set xs \<Longrightarrow> f e x = e \<or> error_step e (f e x)"
    and "reachable error_init error_step e"
  shows "reachable error_init error_step (foldl f e xs)"
  using assms
proof (induction xs arbitrary: e)
  case (Cons x xs)
  have "reachable error_init error_step (f e x)"
    using Cons.prems(1) [of x e] Cons.prems(2) by (auto intro: reachable.step)
  then show ?case using Cons by simp
qed simp

lemma read_candidate_step: "read_candidate e v = e \<or> error_step e (read_candidate e v)"
proof (cases v)
  case (JObj kvs)
  show ?thesis
  proof (cases "get_u64 ''line'' v")
    case (Some l)
    then have "error_step e (with_line_candidate e l p)" for p
      by (intro error_step.line get_u64_bound)
    then show ?thesis
      using Some JObj by (auto simp: read_candidate_def simp del: get_lookups split: option.splits
          intro: error_step.path)
  next
    case None
    then show ?thesis
      using JObj by (auto simp: read_candidate_def simp del: get_lookups split: option.splits
          intro: error_step.path)
  qed
qed (auto simp: read_candidate_def intro: error_step.token)

lemma read_error_reachable:
  assumes "tool_error_from_json v = Inr e"
  shows "reachable error_init error_step e"
proof -
  obtain kvs where v: "v = JObj kvs" using assms by (cases v) auto
  obtain category code msg strategy fs cs where e: "e =
      (let e = foldl read_candidate (foldl with_field_error
          ((tool_error_new category code msg)\<lparr>te_strategy := strategy\<rparr>)
          (take MAX_TOOL_ERROR_FIELD_ERRORS fs)) (take MAX_TOOL_ERROR_CANDIDATES cs)
       in case raw_details v of Some d \<Rightarrow> with_details e d | None \<Rightarrow> e)"
    using assms by (simp add: v try_bind_Inr Let_def split: if_splits) blast
  have new: "reachable error_init error_step (tool_error_new category code msg)"
    by (rule reachable.start) (auto simp: error_init_def)
  have "reachable error_init error_step ((tool_error_new category code msg)\<lparr>te_strategy := strategy\<rparr>)"
  proof (cases strategy)
    case None
    then show ?thesis using new by (simp add: tool_error_new_def Let_def)
  next
    case (Some s)
    then show ?thesis using reachable.step [OF new error_step.strategy [of _ s]] by (simp add: with_strategy_def)
  qed
  then have "reachable error_init error_step (foldl with_field_error
      ((tool_error_new category code msg)\<lparr>te_strategy := strategy\<rparr>) (take MAX_TOOL_ERROR_FIELD_ERRORS fs))"
    by (rule foldl_reachable [rotated]) (auto intro: error_step.field)
  then have "reachable error_init error_step (foldl read_candidate (foldl with_field_error
      ((tool_error_new category code msg)\<lparr>te_strategy := strategy\<rparr>)
      (take MAX_TOOL_ERROR_FIELD_ERRORS fs)) (take MAX_TOOL_ERROR_CANDIDATES cs))"
    by (rule foldl_reachable [rotated]) (rule read_candidate_step)
  then show ?thesis
    unfolding e Let_def by (cases "raw_details v") (auto intro: reachable.step error_step.details)
qed

section \<open>Bounds on the public form\<close>
























section \<open>Properties\<close>

text \<open>C21: The public form of a tool error loses nothing and cannot be forged. An error built by the
  operations of the module, in any order and from any texts, is exactly what reading its public
  form gives back; and whatever JSON value is read as an error, the result is one that those
  operations build, so its texts went through the same cleaning.\<close>

theorem tool_error_roundtrip:
  "(reachable error_init error_step e \<longrightarrow> tool_error_from_json (tool_error_json e) = Inr e)
   \<and> (tool_error_from_json v = Inr e' \<longrightarrow> reachable error_init error_step e')"
  using tool_errors.reachable_inv stable_error_roundtrip read_error_reachable by blast

theorem tool_error_roundtrip_witness:
  "tool_error_from_json (tool_error_json (with_line_candidate (caller ''edit_ambiguous'' ''secret'') 3 ''x''))
     = Inr (with_line_candidate (caller ''edit_ambiguous'' ''secret'') 3 ''x'')"
proof -
  have "reachable error_init error_step (caller ''edit_ambiguous'' ''secret'')"
    by (rule reachable.start) (auto simp: error_init_def caller_def)
  then have "reachable error_init error_step (with_line_candidate (caller ''edit_ambiguous'' ''secret'') 3 ''x'')"
    by (rule reachable.step) (auto simp: u64_max_def intro: error_step.line)
  then show ?thesis using tool_error_roundtrip by blast
qed


end
