(* ===== verification/ToolOutput.thy ===== *)
theory ToolOutput
  imports ToolErrors
begin

text \<open>
  The result of a native tool and the bound on its model-visible text
  (\<open>harness/native/tools/mod.rs\<close>). \<open>None\<close> is a panic: \<open>String::truncate\<close> panics when the cut is not
  between two characters.
\<close>

section \<open>Results\<close>

record tool_output =
  for_model :: string
  model_blocks :: "json list option"
  display :: "json option"
  is_error :: bool
  structured_error :: "tool_error option"

definition output_ok :: "string \<Rightarrow> tool_output" where
  "output_ok txt =
     \<lparr>for_model = txt, model_blocks = None, display = None, is_error = False,
      structured_error = None\<rparr>"

definition output_error :: "string \<Rightarrow> tool_output" where
  "output_error txt =
     \<lparr>for_model = txt, model_blocks = None, display = None, is_error = True,
      structured_error = Some (internal ''tool_failed'' txt)\<rparr>"

definition output_from_error :: "tool_error \<Rightarrow> tool_output" where
  "output_from_error e =
     \<lparr>for_model = public_message e, model_blocks = None, display = None, is_error = True,
      structured_error = Some e\<rparr>"

section \<open>The bound on the text\<close>

record output_caps =
  max_lines :: nat
  max_bytes :: nat

definition default_caps :: output_caps where
  "default_caps = \<lparr>max_lines = 2000, max_bytes = 50000\<rparr>"

definition line_feed :: string where
  "line_feed = [CHR 0x0A]"

definition drop_marker :: "output_caps \<Rightarrow> nat \<Rightarrow> string" where
  "drop_marker caps dropped =
     line_feed @ line_feed @ ELLIPSIS @ '' [truncated '' @ show_nat dropped
     @ '' lines; output exceeded '' @ show_nat (max_lines caps) @ '' lines / ''
     @ show_nat (max_bytes caps) @ '' bytes] '' @ ELLIPSIS @ line_feed @ line_feed"

definition hard_cap_marker :: string where
  "hard_cap_marker = line_feed @ ELLIPSIS @ '' [hard byte cap] '' @ ELLIPSIS"

definition head_and_tail :: "output_caps \<Rightarrow> string list \<Rightarrow> string" where
  "head_and_tail caps ls =
     (let keep = max (max_lines caps) 2;
          head_n = keep div 2;
          tail_n = keep - head_n;
          front = take head_n ls;
          rear = drop (length ls - tail_n) ls;
          dropped = length ls - (length front + length rear)
      in join line_feed front @ drop_marker caps dropped @ join line_feed rear)"

definition truncate_output :: "string \<Rightarrow> output_caps \<Rightarrow> string option" where
  "truncate_output txt caps =
     (let ls = str_lines txt;
          over_lines = max_lines caps < length ls;
          over_bytes = max_bytes caps < length txt
      in if \<not> over_lines \<and> \<not> over_bytes then Some txt
         else let out = head_and_tail caps ls
              in if max_bytes caps * 2 < length out
                 then (if is_char_boundary out (max_bytes caps)
                       then Some (take (max_bytes caps) out @ hard_cap_marker) else None)
                 else Some out)"

section \<open>Properties\<close>

lemma length_hard_cap_marker: "length hard_cap_marker = 24"
  by (simp add: hard_cap_marker_def line_feed_def ELLIPSIS_def)

text \<open>What a tool shows to the model is unchanged when it is within both caps, and otherwise has
  at most twice the bytes of the byte cap, or the byte cap and the 24 bytes of the marker.\<close>

theorem truncate_bounded:
  "truncate_output txt caps = Some out \<Longrightarrow>
     (length (str_lines txt) \<le> max_lines caps \<and> length txt \<le> max_bytes caps \<and> out = txt)
     \<or> length out \<le> max (max_bytes caps * 2) (max_bytes caps + 24)"
  by (auto simp: truncate_output_def Let_def length_hard_cap_marker split: if_splits)

lemma split_char_none: "d \<notin> set s \<Longrightarrow> split_char d s = [s]"
  by (induction s) auto

definition accents :: "nat \<Rightarrow> string" where
  "accents n = CHR ''a'' # concat (replicate n [CHR 0xC3, CHR 0xA9])"

lemma nth_accents: "i < n \<Longrightarrow> accents n ! (2 * i + 2) = CHR 0xA9"
proof (induction n arbitrary: i)
  case (Suc n)
  show ?case
  proof (cases i)
    case (Suc j)
    then have "accents n ! (2 * j + 2) = CHR 0xA9" using Suc.IH Suc.prems by simp
    then show ?thesis by (simp add: accents_def Suc nth_Cons split: nat.splits)
  qed (simp add: accents_def)
qed simp

lemma length_accents: "length (accents n) = 2 * n + 1"
  by (induction n) (simp_all add: accents_def)

lemma set_accents: "CHR 0x0A \<notin> set (accents n)" "last (accents n) \<noteq> CHR 0x0D" "accents n \<noteq> []"
  by (induction n) (auto simp: accents_def)

lemma lines_accents: "str_lines (accents n) = [accents n]"
proof -
  have "strip_suffix (accents n) [CHR 0x0D] = None"
    using set_accents(2,3) [of n] by (metis last_snoc not_None_eq strip_suffix_Some)
  then show ?thesis using set_accents [of n] by (simp add: str_lines_def split_char_none)
qed

text \<open>C36: The hard cut panics inside a character: on one long line of two-byte characters after a
  single one-byte character, whatever its length from 50001 bytes on, the default caps cut at an
  odd place and the tool call panics instead of returning its output.\<close>

theorem truncate_panics:
  "25000 \<le> n \<Longrightarrow> truncate_output (accents n) default_caps = None"
proof -
  assume n: "25000 \<le> n"
  let ?out = "head_and_tail default_caps [accents n]"
  have out: "?out = accents n @ drop_marker default_caps 0 @ accents n"
    by (simp add: head_and_tail_def default_caps_def)
  have "?out ! 50000 = accents n ! (2 * 24999 + 2)"
    using n by (simp add: out nth_append length_accents)
  then have "is_cont (?out ! 50000)"
    using n by (simp only: nth_accents) (simp add: is_cont_def byte_def)
  moreover have "50000 * 2 < length ?out" using n by (simp add: out length_accents)
  ultimately show ?thesis
    using n by (simp add: truncate_output_def lines_accents length_accents default_caps_def
        is_char_boundary_def [of _ 50000] Let_def)
qed

theorem truncate_panics_witness: "truncate_output (accents 30000) default_caps = None"
  by (rule truncate_panics) simp

text \<open>A text within the line cap that exceeds the byte cap is not shortened when it has more lines
  than half the line cap: the head and the tail overlap, so the lines in the middle are shown
  twice, and the marker says that no line was dropped.\<close>

theorem truncate_repeats:
  assumes "2 \<le> max_lines caps" and "length (str_lines txt) \<le> max_lines caps"
    and "max_lines caps < 2 * length (str_lines txt)" and "max_bytes caps < length txt"
    and "length (head_and_tail caps (str_lines txt)) \<le> max_bytes caps * 2"
  shows "\<exists>before again after.
    str_lines txt = before @ again @ after \<and> length again = max_lines caps - length (str_lines txt)
    \<and> truncate_output txt caps =
        Some (join line_feed (before @ again) @ drop_marker caps 0 @ join line_feed (again @ after))"
proof -
  let ?ls = "str_lines txt"
  define n h where "n = length ?ls" and "h = max_lines caps div 2"
  define t where "t = max_lines caps - h"
  have size: "h \<le> n" "t \<le> n" "n - t \<le> h" "h - (n - t) = max_lines caps - n"
    using assms(1-3) by (auto simp: n_def h_def t_def)
  let ?before = "take (n - t) ?ls" and ?again = "take (h - (n - t)) (drop (n - t) ?ls)" and ?after = "drop h ?ls"
  have front: "take h ?ls = ?before @ ?again" using size(3) by (metis le_add_diff_inverse take_add)
  have rear: "drop (n - t) ?ls = ?again @ ?after"
    using size(3) append_take_drop_id [of "h - (n - t)" "drop (n - t) ?ls"] by simp
  have keep: "max (max_lines caps) 2 = max_lines caps" using assms(1) by simp
  have "n - (length (take h ?ls) + length (drop (n - t) ?ls)) = 0" using size by (simp add: n_def)
  then have "head_and_tail caps ?ls = join line_feed (?before @ ?again) @ drop_marker caps 0 @ join line_feed (?again @ ?after)"
    unfolding head_and_tail_def Let_def keep n_def [symmetric] h_def [symmetric] t_def [symmetric]
    by (simp only: front [symmetric] rear [symmetric])
  moreover have "?ls = ?before @ ?again @ ?after" by (simp add: rear [symmetric])
  moreover have "length ?again = max_lines caps - n" using size by (simp add: n_def)
  moreover have "truncate_output txt caps = Some (head_and_tail caps ?ls)"
    using assms(4,5) by (simp add: truncate_output_def Let_def)
  ultimately show ?thesis unfolding n_def by metis
qed

definition nine_lines :: string where
  "nine_lines = concat (map (\<lambda>c. replicate 11 c @ line_feed) ''abcdefghi'')"

definition ten_line_caps :: output_caps where
  "ten_line_caps = \<lparr>max_lines = 10, max_bytes = 105\<rparr>"

lemma nine_lines_lines: "str_lines nine_lines = map (replicate 11) ''abcdefghi''"
  by code_simp

theorem truncate_repeats_witness:
  "\<exists>before again after.
    str_lines nine_lines = before @ again @ after \<and> length again = 1
    \<and> truncate_output nine_lines ten_line_caps =
        Some (join line_feed (before @ again) @ drop_marker ten_line_caps 0 @ join line_feed (again @ after))"
proof -
  have "length nine_lines = 108" by (simp add: nine_lines_def line_feed_def)
  moreover have "length (head_and_tail ten_line_caps (str_lines nine_lines)) \<le> 210"
    unfolding nine_lines_lines by code_simp
  ultimately show ?thesis
    using truncate_repeats [of ten_line_caps nine_lines]
    by (simp add: nine_lines_lines ten_line_caps_def)
qed

end
