(* ===== verification/Edit.thy ===== *)
theory Edit
  imports ToolOutput Streams
begin

text \<open>
  \<open>harness/native/tools/edit.rs\<close>: the replacement of a text in a file, and the suggestions it
  makes when the text is not found.

  The regular expressions are those of the \<open>regex\<close> crate, which is an argument: \<open>esc\<close> quotes one
  character (\<open>regex::escape\<close>), and \<open>find_iter pattern text\<close> lists the byte ranges of the successive
  matches. Arguments are also the SHA-256 digest, the printer of the unified diff and the formatter
  that may run after a write. What is read from the file at each place is an argument of the call,
  because others may write to the file in between.
\<close>

section \<open>Matching\<close>

text \<open>\<open>newline_tolerant_pattern\<close>, over the characters of the text.\<close>

fun newline_pattern :: "(string \<Rightarrow> string) \<Rightarrow> string list \<Rightarrow> string" where
  "newline_pattern esc [] = []"
| "newline_pattern esc (ch # cs) =
     (if ch = [CHR 0x0D] \<and> cs \<noteq> [] \<and> hd cs = [CHR 0x0A] then
        [CHR 0x5C, CHR ''r'', CHR 0x5C, CHR ''n''] @ newline_pattern esc (tl cs)
      else if ch = [CHR 0x0A] then
        [CHR 0x5C, CHR ''r'', CHR ''?'', CHR 0x5C, CHR ''n''] @ newline_pattern esc cs
      else esc ch @ newline_pattern esc cs)"

definition newline_tolerant_pattern :: "(string \<Rightarrow> string) \<Rightarrow> string \<Rightarrow> string" where
  "newline_tolerant_pattern esc txt = newline_pattern esc (chars txt)"

definition line_starts :: "string \<Rightarrow> nat list" where
  "line_starts content =
     0 # map Suc (filter (\<lambda>i. content ! i = CHR 0x0A) [0..<length content])"

text \<open>\<open>partition_point\<close> on the ascending starts.\<close>

definition line_for_offset :: "nat list \<Rightarrow> nat \<Rightarrow> nat" where
  "line_for_offset starts offset = max (length (takeWhile (\<lambda>start. start \<le> offset) starts)) 1"

definition bounded_line_preview :: "string \<Rightarrow> nat list \<Rightarrow> nat \<Rightarrow> string" where
  "bounded_line_preview content starts offset =
     (let line_index = line_for_offset starts offset - 1;
          start = starts ! line_index;
          stop = (if line_index + 1 < length starts then starts ! (line_index + 1) - 1
                  else length content);
          stop = (if 0 < stop \<and> stop - 1 < length content \<and> content ! (stop - 1) = CHR 0x0D
                  then stop - 1 else stop)
      in take_chars MAX_TOOL_ERROR_LINE_PREVIEW_CHARS (take (stop - start) (drop start content)))"

definition match_candidates ::
    "(string \<Rightarrow> string \<Rightarrow> (nat \<times> nat) list) \<Rightarrow> string \<Rightarrow> string \<Rightarrow> (nat \<times> string) list" where
  "match_candidates find_iter content pattern =
     (let starts = line_starts content
      in map (\<lambda>(start, stop). (line_for_offset starts start,
                               bounded_line_preview content starts start))
           (take MAX_TOOL_ERROR_LINE_CANDIDATES (find_iter pattern content)))"

section \<open>The distance of a pattern from a line\<close>

record search_stats =
  st_patterns :: nat
  st_pattern_lines_scanned :: nat
  st_work_cells :: nat
  st_exhausted :: bool
  st_lines_scanned :: nat
  st_qualifying_candidates :: nat
  st_retained_peak :: nat

definition default_stats :: search_stats where
  "default_stats =
     \<lparr>st_patterns = 0, st_pattern_lines_scanned = 0, st_work_cells = 0, st_exhausted = False,
      st_lines_scanned = 0, st_qualifying_candidates = 0, st_retained_peak = 0\<rparr>"

definition MIN_NO_MATCH_SIMILARITY_PERCENT :: nat where "MIN_NO_MATCH_SIMILARITY_PERCENT = 75"
definition MIN_SUGGESTION_PATTERN_CHARS :: nat where "MIN_SUGGESTION_PATTERN_CHARS = 8"
definition MAX_SUGGESTION_PATTERNS :: nat where "MAX_SUGGESTION_PATTERNS = 8"
definition MAX_SUGGESTION_PATTERN_LINES_SCANNED :: nat where
  "MAX_SUGGESTION_PATTERN_LINES_SCANNED = 64"
definition MAX_SUGGESTION_FILE_LINES_SCANNED :: nat where
  "MAX_SUGGESTION_FILE_LINES_SCANNED = 4096"
definition MAX_SUGGESTION_WORK_CELLS :: nat where "MAX_SUGGESTION_WORK_CELLS = 250000"

text \<open>One cell of the row under construction, and the row of one pattern character.\<close>

definition set_cell :: "'a \<Rightarrow> 'a list \<Rightarrow> nat list \<Rightarrow> nat \<Rightarrow> nat list \<Rightarrow> nat list" where
  "set_cell pattern_char txt previous j current =
     current[j + 1 := min (min (previous ! (j + 1) + 1) (current ! j + 1))
       (previous ! j + (if pattern_char \<noteq> txt ! j then 1 else 0))]"

definition fill_row :: "'a \<Rightarrow> nat \<Rightarrow> 'a list \<Rightarrow> nat list \<Rightarrow> nat list \<Rightarrow> nat list" where
  "fill_row pattern_char pattern_index txt previous current =
     fold (set_cell pattern_char txt previous) [0..<length txt] (current[0 := pattern_index + 1])"

text \<open>The loop over the pattern; after each row the two rows are swapped.\<close>

fun edit_rows :: "nat \<Rightarrow> 'a list \<Rightarrow> 'a list \<Rightarrow> nat list \<Rightarrow> nat list \<Rightarrow> nat list" where
  "edit_rows i [] txt previous current = previous"
| "edit_rows i (c # cs) txt previous current =
     edit_rows (i + 1) cs txt (fill_row c i txt previous current) previous"

definition substring_edit_distance ::
    "'a list \<Rightarrow> 'a list \<Rightarrow> search_stats \<Rightarrow> nat option \<times> search_stats" where
  "substring_edit_distance pattern txt stats =
     (let cells = saturating_mul_u64 (length pattern) (length txt);
          next_work = min (st_work_cells stats + cells) u64_max
      in if MAX_SUGGESTION_WORK_CELLS < next_work then (None, stats\<lparr>st_exhausted := True\<rparr>)
         else (Some (Min (set (edit_rows 0 pattern txt (replicate (length txt + 1) 0)
                 (replicate (length txt + 1) 0)))),
               stats\<lparr>st_work_cells := next_work\<rparr>))"

section \<open>Suggestions\<close>

record suggestion_pattern =
  sp_chars :: "string list"
  sp_ordinal :: nat

record similar_line =
  sl_line :: nat
  sl_preview :: string
  sl_edits :: nat
  sl_pattern_len :: nat

text \<open>\<open>sort_by\<close> is stable: an element goes behind those that are not greater.\<close>

fun insert_by :: "('a \<Rightarrow> 'a \<Rightarrow> ordering) \<Rightarrow> 'a \<Rightarrow> 'a list \<Rightarrow> 'a list" where
  "insert_by ord x [] = [x]"
| "insert_by ord x (y # ys) = (if ord x y = Greater then y # insert_by ord x ys else x # y # ys)"

definition sort_by :: "('a \<Rightarrow> 'a \<Rightarrow> ordering) \<Rightarrow> 'a list \<Rightarrow> 'a list" where
  "sort_by ord xs = foldr (insert_by ord) xs []"

text \<open>\<open>str::trim_end_matches(c)\<close>.\<close>

definition trim_end_char :: "char \<Rightarrow> string \<Rightarrow> string" where
  "trim_end_char c s = rev (dropWhile (\<lambda>d. d = c) (rev s))"

definition pattern_order :: "suggestion_pattern \<Rightarrow> suggestion_pattern \<Rightarrow> ordering" where
  "pattern_order left right =
     then_ord (cmp (length (sp_chars right)) (length (sp_chars left)))
       (cmp (sp_ordinal left) (sp_ordinal right))"

definition pattern_chars :: "string \<Rightarrow> string list" where
  "pattern_chars line =
     take MAX_TOOL_ERROR_LINE_PREVIEW_CHARS (chars (trim (trim_end_char (CHR 0x0D) line)))"

definition add_pattern ::
    "nat \<times> string \<Rightarrow> suggestion_pattern list \<Rightarrow> suggestion_pattern list" where
  "add_pattern = (\<lambda>(ordinal, line) patterns.
     (let cs = pattern_chars line
      in if length cs < MIN_SUGGESTION_PATTERN_CHARS \<or> list_ex (\<lambda>p. sp_chars p = cs) patterns
         then patterns
         else take MAX_SUGGESTION_PATTERNS
                (sort_by pattern_order (patterns @ [\<lparr>sp_chars = cs, sp_ordinal = ordinal\<rparr>]))))"

definition suggestion_patterns ::
    "string \<Rightarrow> search_stats \<Rightarrow> suggestion_pattern list \<times> search_stats" where
  "suggestion_patterns old stats =
     (let ls = take MAX_SUGGESTION_PATTERN_LINES_SCANNED (split_char (CHR 0x0A) old);
          patterns = fold add_pattern (enumerate 0 ls) []
      in (patterns,
          stats\<lparr>st_pattern_lines_scanned := st_pattern_lines_scanned stats + length ls,
                st_patterns := length patterns\<rparr>))"

definition similar_line_order :: "similar_line \<Rightarrow> similar_line \<Rightarrow> ordering" where
  "similar_line_order left right =
     then_ord (cmp (sl_edits left * sl_pattern_len right) (sl_edits right * sl_pattern_len left))
       (cmp (sl_line left) (sl_line right))"

text \<open>\<open>enumerate().max_by(..)\<close>: the index of a greatest element, the last of several.\<close>

fun max_index_from :: "('a \<Rightarrow> 'a \<Rightarrow> ordering) \<Rightarrow> nat \<Rightarrow> 'a \<Rightarrow> nat \<Rightarrow> 'a list \<Rightarrow> nat" where
  "max_index_from ord best b i [] = best"
| "max_index_from ord best b i (x # xs) =
     (if ord b x = Greater then max_index_from ord best b (i + 1) xs
      else max_index_from ord i x (i + 1) xs)"

definition worst_index :: "similar_line list \<Rightarrow> nat" where
  "worst_index cands = max_index_from similar_line_order 0 (hd cands) 1 (tl cands)"

definition retain_similar_line ::
    "similar_line list \<Rightarrow> similar_line \<Rightarrow> search_stats \<Rightarrow> similar_line list \<times> search_stats" where
  "retain_similar_line cands cand stats =
     (let cands' =
        (if length cands < MAX_TOOL_ERROR_LINE_CANDIDATES then cands @ [cand]
         else let worst = worst_index cands
              in if similar_line_order cand (cands ! worst) = Less then cands[worst := cand]
                 else cands)
      in (cands',
          stats\<lparr>st_qualifying_candidates := st_qualifying_candidates stats + 1,
                st_retained_peak := max (st_retained_peak stats) (length cands')\<rparr>))"

text \<open>
  The loop over the patterns of one line. The outer \<open>None\<close> leaves the loop over the lines, the
  inner one is a line without a score.
\<close>

fun score_line ::
    "nat \<Rightarrow> suggestion_pattern list \<Rightarrow> string list \<Rightarrow> (nat \<times> nat) option \<Rightarrow> search_stats
       \<Rightarrow> (nat \<times> nat) option option \<times> search_stats" where
  "score_line request_chars [] txt best stats = (Some best, stats)"
| "score_line request_chars (p # ps) txt best stats =
     (case substring_edit_distance (sp_chars p) txt stats of
        (None, stats) \<Rightarrow> (None, stats)
      | (Some local_edits, stats) \<Rightarrow>
          (let score = (local_edits + (request_chars - length (sp_chars p)), request_chars);
               better = (case best of None \<Rightarrow> True
                  | Some current \<Rightarrow> cmp (fst score * snd current) (fst current * snd score) = Less)
           in score_line request_chars ps txt (if better then Some score else best) stats))"

text \<open>\<open>split_inclusive('\n')\<close>, and the visible part of a line.\<close>

fun split_inclusive :: "string \<Rightarrow> string list" where
  "split_inclusive [] = []"
| "split_inclusive (c # cs) =
     (if c = CHR 0x0A then [c] # split_inclusive cs
      else (case split_inclusive cs of [] \<Rightarrow> [[c]] | w # ws \<Rightarrow> (c # w) # ws))"

definition strip_char :: "char \<Rightarrow> string \<Rightarrow> string" where
  "strip_char c s = (case strip_suffix s [c] of Some t \<Rightarrow> t | None \<Rightarrow> s)"

definition line_preview_text :: "string \<Rightarrow> string" where
  "line_preview_text line =
     take_chars MAX_TOOL_ERROR_LINE_PREVIEW_CHARS (strip_char (CHR 0x0D) (strip_char (CHR 0x0A) line))"

definition similar_enough :: "nat \<Rightarrow> nat \<Rightarrow> bool" where
  "similar_enough edits pattern_len \<longleftrightarrow>
     edits * 100 \<le> pattern_len * (100 - MIN_NO_MATCH_SIMILARITY_PERCENT)"

fun search_lines ::
    "suggestion_pattern list \<Rightarrow> nat \<Rightarrow> (nat \<times> string) list \<Rightarrow> similar_line list \<Rightarrow> search_stats
       \<Rightarrow> similar_line list \<times> search_stats" where
  "search_lines patterns request_chars [] cands stats = (cands, stats)"
| "search_lines patterns request_chars ((line_index, line) # ls) cands stats =
     (let stats = stats\<lparr>st_lines_scanned := st_lines_scanned stats + 1\<rparr>;
          preview = line_preview_text line;
          txt = chars (trim preview)
      in if txt = [] then search_lines patterns request_chars ls cands stats
         else case score_line request_chars patterns txt None stats of
             (None, stats) \<Rightarrow> (cands, stats)
           | (Some None, stats) \<Rightarrow> search_lines patterns request_chars ls cands stats
           | (Some (Some (edits, pattern_len)), stats) \<Rightarrow>
               (if similar_enough edits pattern_len
                then (case retain_similar_line cands
                        \<lparr>sl_line = line_index + 1, sl_preview = preview, sl_edits = edits,
                         sl_pattern_len = pattern_len\<rparr> stats of
                        (cands, stats) \<Rightarrow> search_lines patterns request_chars ls cands stats)
                else search_lines patterns request_chars ls cands stats))"

definition no_match_candidates_with_stats ::
    "string \<Rightarrow> string \<Rightarrow> (nat \<times> string) list \<times> search_stats" where
  "no_match_candidates_with_stats content old =
     (case suggestion_patterns old default_stats of (patterns, stats) \<Rightarrow>
        (if patterns = [] then ([], stats)
         else let request_chars = sum_list (map (\<lambda>p. length (sp_chars p)) patterns);
                  ls = enumerate 0 (take MAX_SUGGESTION_FILE_LINES_SCANNED (split_inclusive content))
              in case search_lines patterns request_chars ls [] stats of
                   (cands, stats) \<Rightarrow>
                     (map (\<lambda>c. (sl_line c, sl_preview c))
                        (take MAX_TOOL_ERROR_LINE_CANDIDATES (sort_by similar_line_order cands)),
                      stats)))"

definition no_match_candidates :: "string \<Rightarrow> string \<Rightarrow> (nat \<times> string) list" where
  "no_match_candidates content old = fst (no_match_candidates_with_stats content old)"

section \<open>The edit\<close>

definition replace_all_flag :: "json \<Rightarrow> bool" where
  "replace_all_flag input =
     (case Option.bind (jget ''replace_all'' input) as_bool of Some b \<Rightarrow> b | None \<Rightarrow> False)"

definition add_line_candidates :: "tool_error \<Rightarrow> (nat \<times> string) list \<Rightarrow> tool_error" where
  "add_line_candidates = foldl (\<lambda>e (line, preview). with_line_candidate e line preview)"

definition match_not_found :: "string \<Rightarrow> string \<Rightarrow> tool_error" where
  "match_not_found content old =
     add_line_candidates
       (with_strategy (precondition ''edit_match_not_found'' ''Edit match was not found'') ReviseInput)
       (no_match_candidates content old)"

definition match_ambiguous :: "nat \<Rightarrow> (nat \<times> string) list \<Rightarrow> tool_error" where
  "match_ambiguous found cands =
     add_line_candidates
       (with_details
         (with_strategy (precondition ''edit_ambiguous'' ''Edit match is ambiguous'') ReviseInput)
         (JObj [(''match_count'', JInt (int found))]))
       cands"

definition validate_edit_match ::
    "(string \<Rightarrow> string) \<Rightarrow> (string \<Rightarrow> string \<Rightarrow> (nat \<times> nat) list) \<Rightarrow> json \<Rightarrow> string
       \<Rightarrow> tool_error + unit" where
  "validate_edit_match esc find_iter input content =
     (case get_str ''old_string'' input of
        None \<Rightarrow> Inl (caller ''invalid_arguments'' ''Tool arguments are invalid'')
      | Some old \<Rightarrow>
          (let pattern = newline_tolerant_pattern esc old;
               found = length (find_iter pattern content)
           in if found = 0 then Inl (match_not_found content old)
              else if 1 < found \<and> \<not> replace_all_flag input
              then Inl (match_ambiguous found (match_candidates find_iter content pattern))
              else Inr ()))"

text \<open>\<open>replacement_for_file\<close>: in a file with CRLF lines a bare LF of the new text becomes CRLF.\<close>

fun crlf_chars :: "string list \<Rightarrow> string" where
  "crlf_chars [] = []"
| "crlf_chars (ch # cs) =
     (if ch = [CHR 0x0D] \<and> cs \<noteq> [] \<and> hd cs = [CHR 0x0A] then
        [CHR 0x0D, CHR 0x0A] @ crlf_chars (tl cs)
      else if ch = [CHR 0x0A] then [CHR 0x0D, CHR 0x0A] @ crlf_chars cs
      else ch @ crlf_chars cs)"

definition replacement_for_file :: "string \<Rightarrow> string \<Rightarrow> string" where
  "replacement_for_file txt content =
     (if \<not> contains content [CHR 0x0D, CHR 0x0A] then txt else crlf_chars (chars txt))"

fun replace_from :: "nat \<Rightarrow> (nat \<times> nat) list \<Rightarrow> string \<Rightarrow> string \<Rightarrow> bool \<Rightarrow> string" where
  "replace_from cursor [] content replacement every = drop cursor content"
| "replace_from cursor ((start, stop) # ms) content replacement every =
     take (start - cursor) (drop cursor content) @ replacement
     @ (if every then replace_from stop ms content replacement every
        else drop stop content)"

definition replace_matches ::
    "(string \<Rightarrow> string \<Rightarrow> (nat \<times> nat) list) \<Rightarrow> string \<Rightarrow> string \<Rightarrow> string \<Rightarrow> bool \<Rightarrow> string" where
  "replace_matches find_iter pattern content replacement every =
     replace_from 0 (find_iter pattern content) content replacement every"

text \<open>The part of \<open>execute\<close> between the reading of the file and its writing.\<close>

definition edit_content ::
    "(string \<Rightarrow> string) \<Rightarrow> (string \<Rightarrow> string \<Rightarrow> (nat \<times> nat) list) \<Rightarrow> string \<Rightarrow> string \<Rightarrow> string
       \<Rightarrow> bool \<Rightarrow> string \<Rightarrow> string + string" where
  "edit_content esc find_iter path old new every content =
     (let pattern = newline_tolerant_pattern esc old;
          found = length (find_iter pattern content)
      in if found = 0 then Inl (''edit: `old_string` not found in '' @ path)
         else if 1 < found \<and> \<not> every
         then Inl (''edit: `old_string` occurs '' @ show_nat found @ '' times in '' @ path
                   @ ''; make it unique or set replace_all'')
         else Inr (replace_matches find_iter pattern content (replacement_for_file new content)
                     every))"

section \<open>Approval and execution\<close>

text \<open>
  \<open>PreparedEditPrecondition\<close>: what is left of the preflight is the digest of the content it
  accepted. A file is its bytes, or the text of the failure to resolve or read it.
\<close>

definition precondition_changed :: tool_error where
  "precondition_changed =
     with_strategy (tool_error_new TeConflict ''edit_precondition_changed''
       ''Edit precondition changed after approval'') ReviseInput"

definition read_current ::
    "(string \<Rightarrow> string) \<Rightarrow> string \<Rightarrow> string + string \<Rightarrow> tool_error + string" where
  "read_current sha content_digest contents =
     (case contents of
        Inl e \<Rightarrow> Inl precondition_changed
      | Inr bytes \<Rightarrow>
          (if sha bytes \<noteq> content_digest then Inl precondition_changed
           else if valid_utf8 bytes then Inr bytes else Inl precondition_changed))"

text \<open>
  \<open>execute\<close>, under a precondition (\<open>Some\<close> digest) or without one. \<open>first\<close> is what the first read
  of the file gives, \<open>again\<close> the read of the second check, \<open>write_error\<close> the outcome of the write. The
  result is an error of the call or an output (\<open>None\<close> is the panic of the truncation), with what was
  written.
\<close>

record edit_env =
  ev_esc :: "string \<Rightarrow> string"
  ev_find_iter :: "string \<Rightarrow> string \<Rightarrow> (nat \<times> nat) list"
  ev_sha :: "string \<Rightarrow> string"
  ev_diff :: "string \<Rightarrow> string \<Rightarrow> string \<Rightarrow> string"
  ev_format :: "string option"
  ev_caps :: output_caps

definition finish_edit :: "edit_env \<Rightarrow> string \<Rightarrow> string \<Rightarrow> string \<Rightarrow> tool_output option" where
  "finish_edit env path content updated =
     (let fmt_note = (case ev_format env of Some fmt \<Rightarrow> '' (formatted with '' @ fmt @ '')''
            | None \<Rightarrow> [])
      in map_option output_ok
           (truncate_output (''edited '' @ path @ fmt_note @ line_feed @ ev_diff env path content updated)
             (ev_caps env)))"

definition write_edit ::
    "edit_env \<Rightarrow> string \<Rightarrow> string \<Rightarrow> string \<Rightarrow> string option
       \<Rightarrow> (string + tool_output option) \<times> string option" where
  "write_edit env path content updated write_error =
     (case write_error of
        Some e \<Rightarrow> (Inr (Some (output_error (''edit: '' @ path @ '': '' @ e))), None)
      | None \<Rightarrow> (Inr (finish_edit env path content updated), Some updated))"

definition execute_content ::
    "edit_env \<Rightarrow> string option \<Rightarrow> string \<Rightarrow> string \<Rightarrow> string \<Rightarrow> bool \<Rightarrow> string \<Rightarrow> string + string
       \<Rightarrow> string option \<Rightarrow> (string + tool_output option) \<times> string option" where
  "execute_content env digest path old new every content again write_error =
     (case edit_content (ev_esc env) (ev_find_iter env) path old new every content of
        Inl msg \<Rightarrow> (Inr (Some (output_error msg)), None)
      | Inr updated \<Rightarrow>
          (case digest of
             None \<Rightarrow> write_edit env path content updated write_error
           | Some d \<Rightarrow>
               (case read_current (ev_sha env) d again of
                  Inl e \<Rightarrow> (Inr (Some (output_from_error e)), None)
                | Inr _ \<Rightarrow> write_edit env path content updated write_error)))"

definition execute_edit ::
    "edit_env \<Rightarrow> string option \<Rightarrow> json \<Rightarrow> string + string \<Rightarrow> string + string \<Rightarrow> string option
       \<Rightarrow> (string + tool_output option) \<times> string option" where
  "execute_edit env digest input first again write_error =
     (case (case digest of None \<Rightarrow> Inr None
            | Some d \<Rightarrow> try_bind (read_current (ev_sha env) d first) (\<lambda>content. Inr (Some content))) of
        Inl e \<Rightarrow> (Inr (Some (output_from_error e)), None)
      | Inr prepared \<Rightarrow>
     (case get_str ''path'' input of
        None \<Rightarrow> (Inl ''edit: `path` is required'', None)
      | Some path \<Rightarrow>
     (case get_str ''old_string'' input of
        None \<Rightarrow> (Inl ''edit: `old_string` is required'', None)
      | Some old \<Rightarrow>
     (case get_str ''new_string'' input of
        None \<Rightarrow> (Inl ''edit: `new_string` is required'', None)
      | Some new \<Rightarrow>
     (case (case prepared of Some content \<Rightarrow> Inr content | None \<Rightarrow> first) of
        Inl e \<Rightarrow> (Inr (Some (output_error (''edit: '' @ path @ '': '' @ e))), None)
      | Inr content \<Rightarrow>
          execute_content env digest path old new (replace_all_flag input) content again
            write_error)))))"

text \<open>The preflight accepts a content and keeps its digest.\<close>

definition preflight_edit :: "edit_env \<Rightarrow> json \<Rightarrow> string \<Rightarrow> tool_error + string" where
  "preflight_edit env input content =
     try_bind (validate_edit_match (ev_esc env) (ev_find_iter env) input content) (\<lambda>_.
       Inr (ev_sha env content))"

end
