(* ===== verification/EditSafety.thy ===== *)
theory EditSafety
  imports Edit
begin

text \<open>
  What an edit does to a file: which texts count as occurrences, that exactly they are replaced,
  that the line endings of the file are kept, and that only a content that was approved is
  changed. The \<open>regex\<close> crate is assumed to do what it documents for the patterns built here.
\<close>

section \<open>Characters of valid texts\<close>

lemma scan_char_shape:
  assumes "fst (scan_char (c # cs))"
  shows "\<not> is_cont c" "list_all is_cont (take (snd (scan_char (c # cs)) - 1) cs)"
    "snd (scan_char (c # cs)) \<le> length (c # cs)"
    "scan_char (take (snd (scan_char (c # cs))) (c # cs)) = scan_char (c # cs)"
proof -
  obtain n where n: "scan_char (c # cs) = (True, n)" using assms by (cases "scan_char (c # cs)") simp
  have one: "128 \<le> byte x \<and> byte x < 192" if "second_ok b (byte x)" for b x
    using that by (auto simp: second_ok_def split: if_splits)
  have cont: "cont_byte (byte x) \<longleftrightarrow> is_cont x" for x by (auto simp: cont_byte_def is_cont_def)
  have zero: "\<not> second_ok b 0" "\<not> cont_byte 0" for b by (auto simp: second_ok_def cont_byte_def)
  have "\<not> is_cont c \<and> list_all is_cont (take (n - 1) cs) \<and> n \<le> length (c # cs)
      \<and> scan_char (take n (c # cs)) = (True, n)"
  proof (cases cs)
    case Nil
    then show ?thesis using n zero
      by (auto simp: scan_char_def Let_def byte_at_def utf8_width_def is_cont_def split: if_splits)
  next
    case c1: (Cons x xs)
    show ?thesis
    proof (cases xs)
      case Nil
      then show ?thesis using n zero one c1
        by (auto simp: scan_char_def Let_def byte_at_def utf8_width_def is_cont_def split: if_splits)
    next
      case c2: (Cons y ys)
      show ?thesis
      proof (cases ys)
        case Nil
        then show ?thesis using n zero one c1 c2 cont
          by (auto simp: scan_char_def Let_def byte_at_def utf8_width_def is_cont_def split: if_splits)
      next
        case (Cons z zs)
        then show ?thesis using n zero one c1 c2 cont
          by (auto simp: scan_char_def Let_def byte_at_def utf8_width_def is_cont_def numeral_nat split: if_splits)
      qed
    qed
  qed
  then show "\<not> is_cont c" "list_all is_cont (take (snd (scan_char (c # cs)) - 1) cs)"
    "snd (scan_char (c # cs)) \<le> length (c # cs)"
    "scan_char (take (snd (scan_char (c # cs))) (c # cs)) = scan_char (c # cs)"
    by (simp_all add: n)
qed

lemma valid_head: "valid_utf8 (c # cs) \<Longrightarrow> \<not> is_cont c"
  unfolding valid_utf8.simps using scan_char_shape(1) by blast

lemma takeWhile_prefix:
  "list_all P xs \<Longrightarrow> ys = [] \<or> \<not> P (hd ys) \<Longrightarrow> takeWhile P (xs @ ys) = xs \<and> dropWhile P (xs @ ys) = ys"
  by (induction xs) (cases ys, auto)

lemma valid_chars: "valid_utf8 s \<Longrightarrow> ch \<in> set (chars s) \<Longrightarrow> valid_utf8 ch \<and> one_char ch"
proof (induction s rule: valid_utf8.induct)
  case (2 c cs)
  define n where "n = snd (scan_char (c # cs))"
  have ok: "fst (scan_char (c # cs))" "valid_utf8 (drop n (c # cs))"
    using 2(2) unfolding n_def by simp_all
  note shape = scan_char_shape [OF ok(1), folded n_def]
  have pos: "0 < n" by (simp add: n_def)
  then have drop: "drop n (c # cs) = drop (n - 1) cs" by (simp add: drop_Cons')
  have rest: "drop (n - 1) cs = [] \<or> \<not> is_cont (hd (drop (n - 1) cs))"
    using ok(2) valid_head unfolding drop by (cases "drop (n - 1) cs") auto
  have "takeWhile is_cont cs = take (n - 1) cs \<and> dropWhile is_cont cs = drop (n - 1) cs"
    using takeWhile_prefix [OF shape(2) rest] by simp
  then have chars: "chars (c # cs) = take n (c # cs) # chars (drop n (c # cs))"
    using pos by (simp add: drop take_Cons')
  have "valid_utf8 (take n (c # cs))"
  proof -
    have "take n (c # cs) = c # take (n - 1) cs" using pos by (simp add: take_Cons')
    moreover have "drop n (take n (c # cs)) = []" by simp
    ultimately show ?thesis using shape(4) ok(1) n_def by (metis valid_utf8.simps)
  qed
  then show ?case
    using 2(1) 2(3) ok(2) chars_one_char [of ch "c # cs"] unfolding chars n_def by auto
qed simp

section \<open>The patterns and what they match\<close>

text \<open>
  A pattern is a sequence of atoms: a quoted character, CRLF, or a line feed with an optional
  carriage return before it. \<open>match_len\<close> is how many bytes the atoms match at the front of a text,
  \<open>scan\<close> the successive leftmost matches that do not overlap.
\<close>

datatype atom = Lit string | Crlf | Newline

fun atom_text :: "(string \<Rightarrow> string) \<Rightarrow> atom \<Rightarrow> string" where
  "atom_text esc (Lit ch) = esc ch"
| "atom_text esc Crlf = [CHR 0x5C, CHR ''r'', CHR 0x5C, CHR ''n'']"
| "atom_text esc Newline = [CHR 0x5C, CHR ''r'', CHR ''?'', CHR 0x5C, CHR ''n'']"

fun atom_len :: "atom \<Rightarrow> string \<Rightarrow> nat option" where
  "atom_len (Lit ch) s = (if starts_with s ch then Some (length ch) else None)"
| "atom_len Crlf s = (if starts_with s [CHR 0x0D, CHR 0x0A] then Some 2 else None)"
| "atom_len Newline s =
     (if starts_with s [CHR 0x0D, CHR 0x0A] then Some 2
      else if starts_with s [CHR 0x0A] then Some 1 else None)"

fun match_len :: "atom list \<Rightarrow> string \<Rightarrow> nat option" where
  "match_len [] s = Some 0"
| "match_len (a # ats) s =
     (case atom_len a s of None \<Rightarrow> None
      | Some n \<Rightarrow> (case match_len ats (drop n s) of None \<Rightarrow> None | Some m \<Rightarrow> Some (n + m)))"

function scan :: "atom list \<Rightarrow> nat \<Rightarrow> string \<Rightarrow> (nat \<times> nat) list" where
  "scan ats i s =
     (case match_len ats s of
        Some n \<Rightarrow> (if 0 < n \<and> s \<noteq> [] then (i, i + n) # scan ats (i + n) (drop n s) else [])
      | None \<Rightarrow> (if s = [] then [] else scan ats (i + 1) (tl s)))"
  by pat_completeness auto
termination
  by (relation "measure (\<lambda>(_, _, s). length s)") auto

declare scan.simps [simp del]

definition full_char :: "string \<Rightarrow> bool" where
  "full_char ch \<longleftrightarrow> ch \<noteq> [] \<and> valid_utf8 ch \<and> one_char ch"

text \<open>What the code relies on of the \<open>regex\<close> crate.\<close>

definition regex_crate ::
    "(string \<Rightarrow> string) \<Rightarrow> (string \<Rightarrow> string \<Rightarrow> (nat \<times> nat) list) \<Rightarrow> bool" where
  "regex_crate esc find_iter \<longleftrightarrow>
     (\<forall>ats s. ats \<noteq> [] \<longrightarrow> (\<forall>ch. Lit ch \<in> set ats \<longrightarrow> full_char ch) \<longrightarrow> valid_utf8 s \<longrightarrow>
        find_iter (concat (map (atom_text esc) ats)) s = scan ats 0 s)"

fun atoms :: "string list \<Rightarrow> atom list" where
  "atoms [] = []"
| "atoms (ch # cs) =
     (if ch = [CHR 0x0D] \<and> cs \<noteq> [] \<and> hd cs = [CHR 0x0A] then Crlf # atoms (tl cs)
      else if ch = [CHR 0x0A] then Newline # atoms cs
      else Lit ch # atoms cs)"

lemma pattern_atoms: "newline_pattern esc cs = concat (map (atom_text esc) (atoms cs))"
  by (induction esc cs rule: newline_pattern.induct) auto

lemma atoms_lits: "Lit ch \<in> set (atoms cs) \<Longrightarrow> ch \<in> set cs"
  by (induction cs rule: atoms.induct) (auto split: if_splits dest: list.set_sel(2))

lemma atoms_nonempty: "cs \<noteq> [] \<Longrightarrow> atoms cs \<noteq> []"
  by (cases cs) auto

lemma find_matches:
  assumes "regex_crate esc find_iter" "valid_utf8 old" "old \<noteq> []" "valid_utf8 content"
  shows "find_iter (newline_tolerant_pattern esc old) content = scan (atoms (chars old)) 0 content"
proof -
  have "full_char ch" if "Lit ch \<in> set (atoms (chars old))" for ch
    using atoms_lits [OF that] valid_chars [OF assms(2)] chars_nonempty by (auto simp: full_char_def)
  moreover have "atoms (chars old) \<noteq> []" using assms(3) by (intro atoms_nonempty) (cases old; simp)
  ultimately show ?thesis
    using assms(1,4) by (simp add: regex_crate_def newline_tolerant_pattern_def pattern_atoms)
qed

section \<open>Occurrences\<close>

text \<open>\<open>occurs_as old m\<close>: \<open>m\<close> is \<open>old\<close>, with a carriage return before some of its bare line feeds.\<close>

inductive occurs_as :: "string \<Rightarrow> string \<Rightarrow> bool" where
  done_: "occurs_as [] []"
| crlf: "occurs_as t m \<Longrightarrow> occurs_as (CHR 0x0D # CHR 0x0A # t) (CHR 0x0D # CHR 0x0A # m)"
| lf: "occurs_as t m \<Longrightarrow> occurs_as (CHR 0x0A # t) (CHR 0x0A # m)"
| widened: "occurs_as t m \<Longrightarrow> occurs_as (CHR 0x0A # t) (CHR 0x0D # CHR 0x0A # m)"
| same: "occurs_as t m \<Longrightarrow> c \<noteq> CHR 0x0A \<Longrightarrow> \<not> (c = CHR 0x0D \<and> starts_with t [CHR 0x0A]) \<Longrightarrow>
    occurs_as (c # t) (c # m)"

inductive_cases occurs_NilE: "occurs_as [] m"
inductive_cases occurs_ConsE: "occurs_as (c # t) m"

lemma occurs_Nil: "occurs_as [] m \<longleftrightarrow> m = []"
  by (auto elim: occurs_NilE intro: occurs_as.intros)

lemma occurs_crlf:
  "occurs_as (CHR 0x0D # CHR 0x0A # t) m \<longleftrightarrow> (\<exists>m'. m = CHR 0x0D # CHR 0x0A # m' \<and> occurs_as t m')"
  by (auto simp: starts_with_def elim: occurs_ConsE intro: occurs_as.intros)

lemma occurs_lf:
  "occurs_as (CHR 0x0A # t) m \<longleftrightarrow>
     (\<exists>m'. occurs_as t m' \<and> (m = CHR 0x0A # m' \<or> m = CHR 0x0D # CHR 0x0A # m'))"
  by (auto elim: occurs_ConsE intro: occurs_as.intros)

lemma occurs_same:
  "c \<noteq> CHR 0x0A \<Longrightarrow> \<not> (c = CHR 0x0D \<and> starts_with t [CHR 0x0A]) \<Longrightarrow>
   occurs_as (c # t) m \<longleftrightarrow> (\<exists>m'. m = c # m' \<and> occurs_as t m')"
  by (auto elim!: occurs_ConsE intro: occurs_as.intros)

lemma occurs_plain:
  "list_all (\<lambda>c. c \<noteq> CHR 0x0A \<and> c \<noteq> CHR 0x0D) ch \<Longrightarrow>
   occurs_as (ch @ t) m \<longleftrightarrow> (\<exists>m'. m = ch @ m' \<and> occurs_as t m')"
proof (induction ch arbitrary: m)
  case (Cons c cs)
  then show ?case using occurs_same [of c "cs @ t"] by auto
qed simp

lemma full_char_cases:
  assumes "full_char ch"
  obtains "ch = [CHR 0x0A]" | "ch = [CHR 0x0D]" | "list_all (\<lambda>c. c \<noteq> CHR 0x0A \<and> c \<noteq> CHR 0x0D) ch"
proof -
  obtain c cs where ch: "ch = c # cs" "list_all is_cont cs" "valid_utf8 (c # cs)"
    using assms by (cases ch) (auto simp: full_char_def one_char_def)
  have cont: "x \<noteq> CHR 0x0A \<and> x \<noteq> CHR 0x0D" if "is_cont x" for x using that by (auto simp: is_cont_def byte_def)
  show thesis
  proof (cases "c = CHR 0x0A \<or> c = CHR 0x0D")
    case True
    then have "scan_char (c # cs) = (True, 1)" by (auto simp: scan_char_def utf8_width_def byte_def)
    then have "valid_utf8 cs" using ch(3) by simp
    then have "cs = []" using ch(2) valid_head by (cases cs) auto
    then show thesis using True ch(1) that by auto
  next
    case False
    then show thesis using that(3) ch cont by (auto simp: list_all_iff)
  qed
qed

definition matches_at :: "string \<Rightarrow> string \<Rightarrow> nat \<Rightarrow> bool" where
  "matches_at old s n \<longleftrightarrow> (\<exists>m r. s = m @ r \<and> length m = n \<and> occurs_as old m)"

lemma matches_front:
  "(\<exists>m r. s = m @ r \<and> length m = n \<and> (\<exists>m'. m = y @ m' \<and> occurs_as t m')) \<longleftrightarrow>
   (\<exists>k. starts_with s y \<and> n = length y + k \<and> matches_at t (drop (length y) s) k)"
proof
  assume "\<exists>m r. s = m @ r \<and> length m = n \<and> (\<exists>m'. m = y @ m' \<and> occurs_as t m')"
  then obtain m' r where m: "s = y @ m' @ r" "n = length y + length m'" "occurs_as t m'" by auto
  have "starts_with s y" "drop (length y) s = m' @ r" unfolding m(1) by simp_all
  with m(2,3) show "\<exists>k. starts_with s y \<and> n = length y + k \<and> matches_at t (drop (length y) s) k"
    unfolding matches_at_def by blast
next
  assume "\<exists>k. starts_with s y \<and> n = length y + k \<and> matches_at t (drop (length y) s) k"
  then obtain m' r where "starts_with s y" "drop (length y) s = m' @ r" "n = length y + length m'" "occurs_as t m'"
    unfolding matches_at_def by blast
  then have "s = (y @ m') @ r" by (auto simp: starts_with_iff)
  then show "\<exists>m r. s = m @ r \<and> length m = n \<and> (\<exists>m'. m = y @ m' \<and> occurs_as t m')"
    using \<open>n = _\<close> \<open>occurs_as t m'\<close>
    by (intro exI [of "\<lambda>m. \<exists>r. _ m r" "y @ m'"] exI [of _ r]) auto
qed

lemma matches_one:
  assumes "\<And>m. occurs_as u m \<longleftrightarrow> (\<exists>m'. m = y @ m' \<and> occurs_as t m')"
  shows "matches_at u s n \<longleftrightarrow>
    (\<exists>k. starts_with s y \<and> n = length y + k \<and> matches_at t (drop (length y) s) k)"
  unfolding matches_at_def [of u] assms by (rule matches_front)

lemma matches_two:
  assumes "\<And>m. occurs_as u m \<longleftrightarrow> (\<exists>m'. m = y @ m' \<and> occurs_as t m') \<or> (\<exists>m'. m = z @ m' \<and> occurs_as t m')"
  shows "matches_at u s n \<longleftrightarrow>
    (\<exists>k. starts_with s y \<and> n = length y + k \<and> matches_at t (drop (length y) s) k)
    \<or> (\<exists>k. starts_with s z \<and> n = length z + k \<and> matches_at t (drop (length z) s) k)"
  unfolding matches_at_def [of u] assms matches_front [symmetric] by blast

lemma match_len_occurs:
  "\<forall>ch \<in> set cs. full_char ch \<Longrightarrow> match_len (atoms cs) s = Some n \<longleftrightarrow> matches_at (concat cs) s n"
proof (induction cs arbitrary: s n rule: atoms.induct)
  case 1
  show ?case by (auto simp: matches_at_def occurs_Nil)
next
  case (2 ch cs)
  have full: "full_char ch" "\<forall>ch \<in> set cs. full_char ch" using "2.prems" by auto
  show ?case
  proof (cases "ch = [CHR 0x0D] \<and> cs \<noteq> [] \<and> hd cs = [CHR 0x0A]")
    case True
    then obtain ds where ds: "cs = [CHR 0x0A] # ds" by (cases cs) auto
    have IH: "match_len (atoms ds) u = Some k \<longleftrightarrow> matches_at (concat ds) u k" for u k
      using "2.IH"(1) [OF True] full ds by simp
    show ?thesis
      using True matches_one [of "[CHR 0x0D, CHR 0x0A] @ concat ds" "[CHR 0x0D, CHR 0x0A]"]
      by (auto simp: ds IH [symmetric] occurs_crlf numeral_2_eq_2 split: option.splits)
  next
    case no_crlf: False
    show ?thesis
    proof (cases "ch = [CHR 0x0A]")
      case True
      have IH: "match_len (atoms cs) u = Some k \<longleftrightarrow> matches_at (concat cs) u k" for u k
        using "2.IH"(2) [OF no_crlf True] full by simp
      have "occurs_as (CHR 0x0A # concat cs) m \<longleftrightarrow>
          (\<exists>m'. m = [CHR 0x0D, CHR 0x0A] @ m' \<and> occurs_as (concat cs) m')
          \<or> (\<exists>m'. m = [CHR 0x0A] @ m' \<and> occurs_as (concat cs) m')" for m
        by (auto simp: occurs_lf)
      from matches_two [OF this] show ?thesis
        using True by (cases s) (auto simp: IH [symmetric] occurs_lf starts_with_def numeral_2_eq_2 split: option.splits)
    next
      case False
      have IH: "match_len (atoms cs) u = Some k \<longleftrightarrow> matches_at (concat cs) u k" for u k
        using "2.IH"(3) [OF no_crlf False] full by simp
      have occurs: "occurs_as (ch @ concat cs) m \<longleftrightarrow> (\<exists>m'. m = ch @ m' \<and> occurs_as (concat cs) m')" for m
        using full(1)
      proof (cases rule: full_char_cases)
        case 2
        have "\<not> starts_with (concat cs) [CHR 0x0A]"
        proof
          assume lf: "starts_with (concat cs) [CHR 0x0A]"
          then obtain d ds where ds: "cs = d # ds" by (cases cs) (auto simp: starts_with_def)
          then have "full_char d" using full(2) by simp
          then have "d = [CHR 0x0A]"
          proof (cases rule: full_char_cases)
            case 3
            then show ?thesis using lf \<open>full_char d\<close> ds by (cases d) (auto simp: starts_with_def full_char_def)
          qed (use lf ds in \<open>auto simp: starts_with_def\<close>)
          then show False using no_crlf 2 ds by simp
        qed
        then show ?thesis using 2 occurs_same [of "CHR 0x0D" "concat cs"] by simp
      qed (use False occurs_plain in auto)
      have atoms: "atoms (ch # cs) = Lit ch # atoms cs" using no_crlf False by auto
      show ?thesis
        unfolding atoms using matches_one [of "ch @ concat cs" ch] occurs
        by (auto simp: IH [symmetric] split: option.splits)
    qed
  qed
qed

section \<open>The pieces of a text\<close>

text \<open>\<open>weave ps ms\<close> has the pieces of \<open>ps\<close> with those of \<open>ms\<close> between them.\<close>

fun weave :: "string list \<Rightarrow> string list \<Rightarrow> string" where
  "weave (p # ps) (m # ms) = p @ m @ weave ps ms"
| "weave (p # ps) [] = p"
| "weave [] ms = []"

fun spans :: "nat \<Rightarrow> string list \<Rightarrow> string list \<Rightarrow> (nat \<times> nat) list" where
  "spans i (p # ps) (m # ms) =
     (i + length p, i + length p + length m) # spans (i + length p + length m) ps ms"
| "spans i ps ms = []"

text \<open>No part of the text is an occurrence.\<close>

definition free_of :: "string \<Rightarrow> string \<Rightarrow> bool" where
  "free_of old p \<longleftrightarrow> (\<forall>a m b. p = a @ m @ b \<longrightarrow> \<not> occurs_as old m)"

lemma free_of_Nil: "old \<noteq> [] \<Longrightarrow> free_of old []"
  by (cases old) (auto simp: free_of_def elim: occurs_ConsE)

lemma free_of_Cons:
  "free_of old (c # p) \<longleftrightarrow> free_of old p \<and> (\<forall>m b. c # p = m @ b \<longrightarrow> \<not> occurs_as old m)"
proof
  assume "free_of old (c # p)"
  then show "free_of old p \<and> (\<forall>m b. c # p = m @ b \<longrightarrow> \<not> occurs_as old m)"
    unfolding free_of_def by (metis append_Cons append_Nil)
next
  assume "free_of old p \<and> (\<forall>m b. c # p = m @ b \<longrightarrow> \<not> occurs_as old m)"
  then show "free_of old (c # p)"
    unfolding free_of_def by (metis append_eq_Cons_conv)
qed

lemma occurs_nonempty: "occurs_as old m \<Longrightarrow> old \<noteq> [] \<Longrightarrow> m \<noteq> []"
  by (cases rule: occurs_as.cases) auto

lemma scan_pieces:
  assumes "\<forall>ch \<in> set cs. full_char ch" "cs \<noteq> []"
  defines "old \<equiv> concat cs"
  shows "\<exists>ps ms. s = weave ps ms \<and> length ps = Suc (length ms) \<and> list_all (occurs_as old) ms
    \<and> list_all (free_of old) ps \<and> scan (atoms cs) i s = spans i ps ms"
proof (induction "length s" arbitrary: i s rule: less_induct)
  case less
  have old: "old \<noteq> []" using assms(1,2) unfolding old_def by (cases cs) (auto simp: full_char_def)
  note len = match_len_occurs [OF assms(1), folded old_def]
  show ?case
  proof (cases "match_len (atoms cs) s")
    case None
    show ?thesis
    proof (cases s)
      case Nil
      then show ?thesis
        using None free_of_Nil [OF old]
        by (intro exI [of _ "[[]]"] exI [of "\<lambda>ms. _ [[]] ms" "[]"]) (simp add: scan.simps)
    next
      case (Cons c t)
      then obtain ps ms where t: "t = weave ps ms" "length ps = Suc (length ms)" "list_all (occurs_as old) ms"
        "list_all (free_of old) ps" "scan (atoms cs) (i + 1) t = spans (i + 1) ps ms"
        using less [of t "i + 1"] by auto
      obtain p ps' where ps: "ps = p # ps'" using t(2) by (cases ps) auto
      obtain r where r: "t = p @ r" using t(1) ps by (cases ms) auto
      have "\<not> occurs_as old m" if "c # p = m @ b" for m b
      proof
        assume "occurs_as old m"
        then have "matches_at old s (length m)"
          unfolding matches_at_def Cons r using that by (metis append.assoc append_Cons)
        then show False using len [of s "length m"] None by auto
      qed
      then have "free_of old (c # p)" using t(4) ps by (simp add: free_of_Cons)
      moreover have "spans (i + 1) ps ms = spans i ((c # p) # ps') ms" unfolding ps by (cases ms) auto
      moreover have "s = weave ((c # p) # ps') ms" unfolding Cons t(1) ps by (cases ms) auto
      moreover have "scan (atoms cs) i s = scan (atoms cs) (i + 1) t"
        using None Cons by (subst scan.simps) simp
      ultimately show ?thesis
        using t ps by (intro exI [of "\<lambda>ps. \<exists>ms. _ ps ms" "(c # p) # ps'"] exI [of _ ms]) simp
    qed
  next
    case (Some n)
    then obtain m r where m: "s = m @ r" "length m = n" "occurs_as old m"
      using len by (auto simp: matches_at_def)
    then have n: "0 < n" "s \<noteq> []" using occurs_nonempty [OF m(3) old] by auto
    then obtain ps ms where t: "r = weave ps ms" "length ps = Suc (length ms)" "list_all (occurs_as old) ms"
        "list_all (free_of old) ps" "scan (atoms cs) (i + n) r = spans (i + n) ps ms"
      using less [of r "i + n"] m by auto
    have "scan (atoms cs) i s = (i, i + n) # scan (atoms cs) (i + n) r"
      using Some n m by (subst scan.simps) simp
    then show ?thesis
      using t m free_of_Nil [OF old]
      by (intro exI [of "\<lambda>ps. \<exists>ms. _ ps ms" "[] # ps"] exI [of _ "m # ms"]) simp
  qed
qed

lemma length_spans: "length ps = Suc (length ms) \<Longrightarrow> length (spans i ps ms) = length ms"
  by (induction i ps ms rule: spans.induct) auto

lemma replace_from_spans:
  "length ps = Suc (length ms) \<Longrightarrow>
   replace_from (length before) (spans (length before) ps ms) (before @ weave ps ms) r True =
     weave ps (replicate (length ms) r)"
proof (induction ps ms arbitrary: before rule: weave.induct)
  case (1 p ps m ms)
  then show ?case using "1.IH" [of "before @ p @ m"] by (simp add: add.assoc)
qed auto

lemma replace_from_one:
  "replace_from 0 (spans 0 ps [m]) (weave ps [m]) r e = weave ps [r]" if two: "length ps = 2"
proof -
  obtain p q where "ps = [p, q]" using two by (cases ps; cases "tl ps") auto
  then show ?thesis by simp
qed

section \<open>A regular-expression engine for these patterns\<close>

text \<open>The assumption on the \<open>regex\<close> crate can hold: here is a quoting function and an engine for the
  patterns that are built from it.\<close>

definition regex_meta :: string where
  "regex_meta = CHR 0x5C # ''.+*?()|[]{}^$#&-~''"

definition quote_char :: "string \<Rightarrow> string" where
  "quote_char ch = (case ch of [c] \<Rightarrow> (if c \<in> set regex_meta then [CHR 0x5C, c] else [c]) | _ \<Rightarrow> ch)"

function parse_regex :: "string \<Rightarrow> atom list" where
  "parse_regex [] = []"
| "parse_regex (c # s) =
     (if starts_with (c # s) (atom_text id Newline) then Newline # parse_regex (drop 4 s)
      else if starts_with (c # s) (atom_text id Crlf) then Crlf # parse_regex (drop 3 s)
      else if c = CHR 0x5C \<and> s \<noteq> [] then Lit [hd s] # parse_regex (tl s)
      else Lit [c] # parse_regex s)"
  by pat_completeness auto
termination
  by (relation "measure length") auto

definition run_regex :: "string \<Rightarrow> string \<Rightarrow> (nat \<times> nat) list" where
  "run_regex pattern s = scan (parse_regex pattern) 0 s"

fun atom_bytes :: "atom \<Rightarrow> atom list" where
  "atom_bytes (Lit ch) = map (\<lambda>c. Lit [c]) ch"
| "atom_bytes a = [a]"

lemma multi_byte:
  assumes "full_char (c # d # ds)"
  shows "128 \<le> byte c" "\<forall>x \<in> set (d # ds). 128 \<le> byte x"
proof -
  have cont: "list_all is_cont (d # ds)" "valid_utf8 (c # d # ds)"
    using assms by (auto simp: full_char_def one_char_def)
  show "128 \<le> byte c"
  proof (rule ccontr)
    assume "\<not> 128 \<le> byte c"
    then have "scan_char (c # d # ds) = (True, 1)" by (simp add: scan_char_def utf8_width_def Let_def)
    then have "valid_utf8 (d # ds)" using cont(2) by simp
    then show False using valid_head cont(1) by (auto simp: list_all_iff)
  qed
  show "\<forall>x \<in> set (d # ds). 128 \<le> byte x" using cont(1) by (auto simp: list_all_iff is_cont_def)
qed

lemma parse_high: "\<forall>x \<in> set ch. 128 \<le> byte x \<Longrightarrow> parse_regex (ch @ s) = map (\<lambda>c. Lit [c]) ch @ parse_regex s"
proof (induction ch)
  case (Cons c ch)
  then have "c \<noteq> CHR 0x5C" by (auto simp: byte_def)
  then show ?case using Cons by (simp add: starts_with_def)
qed simp

lemma parse_atom:
  assumes "\<And>ch. a = Lit ch \<Longrightarrow> full_char ch"
  shows "parse_regex (atom_text quote_char a @ s) = atom_bytes a @ parse_regex s"
proof (cases a)
  case (Lit ch)
  then have full: "full_char ch" using assms by simp
  then obtain c cs where ch: "ch = c # cs" by (cases ch) (auto simp: full_char_def)
  show ?thesis
  proof (cases cs)
    case Nil
    have "CHR ''r'' \<notin> set regex_meta" by (simp add: regex_meta_def)
    moreover have "CHR 0x5C \<in> set regex_meta" by (simp add: regex_meta_def)
    ultimately show ?thesis using Lit ch Nil by (auto simp: quote_char_def starts_with_def)
  next
    case (Cons d ds)
    then show ?thesis
      using multi_byte [of c d ds] full ch parse_high [of ch s] Lit by (simp add: quote_char_def)
  qed
qed (simp_all add: starts_with_def)

lemma parse_atoms:
  "\<forall>ch. Lit ch \<in> set ats \<longrightarrow> full_char ch \<Longrightarrow>
   parse_regex (concat (map (atom_text quote_char) ats)) = concat (map atom_bytes ats)"
  by (induction ats) (auto simp: parse_atom)

lemma match_len_append:
  "match_len (a @ b) s = (case match_len a s of None \<Rightarrow> None
     | Some n \<Rightarrow> (case match_len b (drop n s) of None \<Rightarrow> None | Some m \<Rightarrow> Some (n + m)))"
  by (induction a arbitrary: s) (auto split: option.splits simp: add.commute add.left_commute)

lemma match_bytes: "match_len (map (\<lambda>c. Lit [c]) ch) s = (if starts_with s ch then Some (length ch) else None)"
proof (induction ch arbitrary: s)
  case (Cons c ch)
  then show ?case by (cases s) (auto simp: starts_with_def)
qed simp

lemma match_atom_bytes: "match_len (atom_bytes a) s = atom_len a s"
  by (cases a) (auto simp: match_bytes)

lemma match_all_bytes: "match_len (concat (map atom_bytes ats)) s = match_len ats s"
  by (induction ats arbitrary: s) (simp_all add: match_len_append match_atom_bytes split: option.split)

lemma scan_cong: "(\<And>s. match_len a s = match_len b s) \<Longrightarrow> scan a i s = scan b i s"
proof (induction "length s" arbitrary: i s rule: less_induct)
  case less
  have "scan a j u = scan b j u" if "length u < length s" for j u using less that by simp
  then show ?case by (subst (1 2) scan.simps) (auto simp: less.prems split: option.splits)
qed

lemma run_regex_ok: "regex_crate quote_char run_regex"
  unfolding regex_crate_def run_regex_def
  by (auto simp: parse_atoms intro!: scan_cong match_all_bytes)

lemma edit_pieces:
  assumes "regex_crate esc find_iter" and "valid_utf8 old" and "old \<noteq> []" and "valid_utf8 content"
  shows "\<exists>ps ms. content = weave ps ms \<and> length ps = Suc (length ms)
    \<and> list_all (occurs_as old) ms \<and> list_all (free_of old) ps
    \<and> (if ms = [] \<or> (1 < length ms \<and> \<not> every)
       then \<exists>msg. edit_content esc find_iter path old new every content = Inl msg
       else edit_content esc find_iter path old new every content =
              Inr (weave ps (replicate (length ms) (replacement_for_file new content))))"
proof -
  have full: "\<forall>ch \<in> set (chars old). full_char ch"
    using valid_chars [OF assms(2)] chars_nonempty by (auto simp: full_char_def)
  have "chars old \<noteq> []" using assms(3) by (cases old) simp_all
  from scan_pieces [OF full this, of content 0] obtain ps ms where pm:
    "content = weave ps ms" "length ps = Suc (length ms)" "list_all (occurs_as old) ms"
    "list_all (free_of old) ps" "scan (atoms (chars old)) 0 content = spans 0 ps ms" by auto
  have found: "find_iter (newline_tolerant_pattern esc old) content = spans 0 ps ms"
    using find_matches [OF assms] pm(5) by simp
  note count = length_spans [OF pm(2), of 0]
  have some: "spans 0 ps ms = [] \<longleftrightarrow> ms = []" using count by (metis length_0_conv)
  have "if ms = [] \<or> (1 < length ms \<and> \<not> every)
       then \<exists>msg. edit_content esc find_iter path old new every content = Inl msg
       else edit_content esc find_iter path old new every content =
              Inr (weave ps (replicate (length ms) (replacement_for_file new content)))"
  proof (cases "ms = [] \<or> (1 < length ms \<and> \<not> every)")
    case True
    then show ?thesis by (auto simp: edit_content_def Let_def found count)
  next
    case False
    then have ok: "edit_content esc find_iter path old new every content =
        Inr (replace_from 0 (spans 0 ps ms) content (replacement_for_file new content) every)"
      by (auto simp: edit_content_def Let_def found count some replace_matches_def)
    show ?thesis
    proof (cases every)
      case True
      then show ?thesis
        using ok False replace_from_spans [OF pm(2), of "[]"] pm(1) by simp
    next
      case one: False
      then obtain m where "ms = [m]" using False by (cases ms; cases "tl ms") auto
      then show ?thesis using ok one replace_from_one [of ps m] pm(1,2) by simp
    qed
  qed
  with pm show ?thesis by blast
qed

section \<open>Line endings\<close>

text \<open>Every line feed has a carriage return before it; the flag tells whether the text before ends
  with one.\<close>

fun crlf_only :: "bool \<Rightarrow> string \<Rightarrow> bool" where
  "crlf_only b [] \<longleftrightarrow> True"
| "crlf_only b (c # s) \<longleftrightarrow> (c = CHR 0x0A \<longrightarrow> b) \<and> crlf_only (c = CHR 0x0D) s"

lemma crlf_only_append:
  "crlf_only b (s @ t) \<longleftrightarrow> crlf_only b s \<and> crlf_only (if s = [] then b else last s = CHR 0x0D) t"
  by (induction b s rule: crlf_only.induct) auto

lemma crlf_only_mono: "crlf_only False t \<Longrightarrow> crlf_only b t"
  by (cases t) auto

lemma crlf_only_chars: "\<forall>ch \<in> set cs. full_char ch \<Longrightarrow> crlf_only False (crlf_chars cs)"
proof (induction cs rule: crlf_chars.induct)
  case (2 ch cs)
  show ?case
  proof (cases "ch = [CHR 0x0D] \<and> cs \<noteq> [] \<and> hd cs = [CHR 0x0A]")
    case True
    then have "\<forall>ch \<in> set (tl cs). full_char ch" using "2.prems" by (auto dest: list.set_sel(2))
    then show ?thesis using "2.IH"(1) [OF True] True crlf_only_mono by simp
  next
    case no_crlf: False
    have full: "full_char ch" "\<forall>ch \<in> set cs. full_char ch" using "2.prems" by auto
    show ?thesis
    proof (cases "ch = [CHR 0x0A]")
      case True
      then show ?thesis using "2.IH"(2) [OF no_crlf True full(2)] crlf_only_mono by simp
    next
      case False
      then have "CHR 0x0A \<notin> set ch" using full(1) by (auto simp: list_all_iff elim!: full_char_cases)
      then have "crlf_only False ch" by (induction ch) (auto intro: crlf_only_mono)
      then show ?thesis
        using False no_crlf "2.IH"(3) [OF no_crlf False full(2)] crlf_only_mono
        by (auto simp: crlf_only_append)
    qed
  qed
qed simp

lemma occurs_last: "occurs_as old m \<Longrightarrow> old \<noteq> [] \<Longrightarrow> last m = last old"
  by (induction rule: occurs_as.induct) (auto simp: occurs_Nil elim: occurs_NilE dest: occurs_nonempty)

lemma weave_crlf:
  assumes "crlf_only False r"
  shows "length ps = Suc (length ms) \<Longrightarrow> crlf_only b (weave ps ms) \<Longrightarrow>
    list_all (\<lambda>m. m \<noteq> [] \<and> last m \<noteq> CHR 0x0D) ms \<Longrightarrow>
    crlf_only b (weave ps (replicate (length ms) r))"
proof (induction ps ms arbitrary: b rule: weave.induct)
  case (1 p ps m ms)
  have "crlf_only False (weave ps ms)" using "1.prems" by (auto simp: crlf_only_append split: if_splits)
  then have "crlf_only False (weave ps (replicate (length ms) r))" using "1.IH" "1.prems" by simp
  then show ?case
    using "1.prems"(2) assms by (auto simp: crlf_only_append intro: crlf_only_mono)
qed auto

section \<open>Properties\<close>

text \<open>C17: An edit replaces exactly the occurrences of the old text. The content falls apart into
  occurrences and pieces without an occurrence in them; without an occurrence the edit fails, with
  several it fails unless all were asked for, and otherwise the new text, with the line endings of
  the file, stands in the place of each occurrence and everything else is as it was. An
  occurrence is the old text itself, up to a carriage return before a bare line feed.\<close>

theorem edit_replaces_exactly:
  assumes "regex_crate esc find_iter" and "valid_utf8 old" and "old \<noteq> []" and "valid_utf8 content"
  shows "\<exists>ps ms. content = weave ps ms \<and> length ps = Suc (length ms)
    \<and> list_all (occurs_as old) ms \<and> list_all (free_of old) ps
    \<and> (if ms = [] \<or> (1 < length ms \<and> \<not> every)
       then \<exists>msg. edit_content esc find_iter path old new every content = Inl msg
       else edit_content esc find_iter path old new every content =
              Inr (weave ps (replicate (length ms) (replacement_for_file new content))))"
  by (rule edit_pieces [OF assms])

theorem edit_replaces_exactly_witness:
  "\<exists>ps ms. ''a.b'' = weave ps ms \<and> length ps = Suc (length ms) \<and> list_all (occurs_as ''.'') ms
    \<and> list_all (free_of ''.'') ps
    \<and> (if ms = [] \<or> (1 < length ms \<and> \<not> False)
       then \<exists>msg. edit_content quote_char run_regex ''f'' ''.'' ''+'' False ''a.b'' = Inl msg
       else edit_content quote_char run_regex ''f'' ''.'' ''+'' False ''a.b'' =
              Inr (weave ps (replicate (length ms) (replacement_for_file ''+'' ''a.b''))))"
  by (rule edit_replaces_exactly)
    (simp_all add: run_regex_ok scan_char_def utf8_width_def byte_def)

text \<open>C34: A file with CRLF line endings keeps them. When every line feed of the content has a
  carriage return before it, so it is in the edited content, whatever the new text has, unless the
  old text ends between the two characters of a line ending.\<close>

theorem crlf_preserved:
  assumes "regex_crate esc find_iter" and "valid_utf8 old" and "old \<noteq> []" and "valid_utf8 content"
    and "valid_utf8 new" and "last old \<noteq> CHR 0x0D" and "contains content [CHR 0x0D, CHR 0x0A]"
    and "crlf_only False content"
    and "edit_content esc find_iter path old new every content = Inr updated"
  shows "crlf_only False updated"
proof -
  obtain ps ms where pieces: "content = weave ps ms" "length ps = Suc (length ms)"
    "list_all (occurs_as old) ms"
    "if ms = [] \<or> (1 < length ms \<and> \<not> every)
       then \<exists>msg. edit_content esc find_iter path old new every content = Inl msg
       else edit_content esc find_iter path old new every content =
              Inr (weave ps (replicate (length ms) (replacement_for_file new content)))"
    using edit_pieces [OF assms(1-4), of every path new] by blast
  have "updated = weave ps (replicate (length ms) (replacement_for_file new content))"
  proof (cases "ms = [] \<or> (1 < length ms \<and> \<not> every)")
    case True
    then show ?thesis using pieces(4) unfolding if_P [OF True] assms(9) by blast
  next
    case False
    then show ?thesis using pieces(4) unfolding if_not_P [OF False] assms(9) by blast
  qed
  note pm = pieces(1-3) this
  have "\<forall>ch \<in> set (chars new). full_char ch"
    using valid_chars [OF assms(5)] chars_nonempty by (auto simp: full_char_def)
  then have "crlf_only False (replacement_for_file new content)"
    using assms(7) by (simp add: replacement_for_file_def crlf_only_chars)
  moreover have "list_all (\<lambda>m. m \<noteq> [] \<and> last m \<noteq> CHR 0x0D) ms"
    using pm(3) occurs_last [OF _ assms(3)] occurs_nonempty [OF _ assms(3)] assms(6)
    by (auto simp: list_all_iff)
  moreover have "crlf_only False (weave ps ms)" using assms(8) unfolding pm(1) .
  ultimately show ?thesis unfolding pm(4) by (intro weave_crlf pm(2))
qed

theorem crlf_preserved_witness:
  "crlf_only False (case edit_content quote_char run_regex ''f'' ''b'' [CHR ''x'', CHR 0x0A] True
       [CHR ''a'', CHR 0x0D, CHR 0x0A, CHR ''b''] of Inr updated \<Rightarrow> updated | Inl msg \<Rightarrow> [CHR 0x0A])"
proof -
  let ?content = "[CHR ''a'', CHR 0x0D, CHR 0x0A, CHR ''b'']"
  have valid: "valid_utf8 ?content" "valid_utf8 ''b''" "valid_utf8 [CHR ''x'', CHR 0x0A]"
    by (simp_all add: scan_char_def utf8_width_def byte_def)
  have "find_iter = run_regex \<Longrightarrow> edit_content quote_char find_iter ''f'' ''b'' [CHR ''x'', CHR 0x0A] True ?content =
      Inr [CHR ''a'', CHR 0x0D, CHR 0x0A, CHR ''x'', CHR 0x0D, CHR 0x0A]" for find_iter
    using find_matches [OF run_regex_ok valid(2) _ valid(1)]
    by (simp add: edit_content_def replace_matches_def scan.simps starts_with_def
        replacement_for_file_def is_cont_def byte_def Let_def)
  then have run: "edit_content quote_char run_regex ''f'' ''b'' [CHR ''x'', CHR 0x0A] True ?content =
      Inr [CHR ''a'', CHR 0x0D, CHR 0x0A, CHR ''x'', CHR 0x0D, CHR 0x0A]" by simp
  show ?thesis
    unfolding run sum.case
    by (rule crlf_preserved [OF run_regex_ok valid(2) _ valid(1) valid(3) _ _ _ run])
      (simp_all add: starts_with_def)
qed

text \<open>C18: What is written is what was approved. When the preflight accepted a content, the execution
  writes the edit of that content if both reads of the file still find it and the write succeeds,
  and in every other case it writes nothing, whatever others put into the file in between. It
  never fails on a content that the preflight accepted. (The digest is taken to have no
  collisions.)\<close>

theorem edit_applies_approved:
  assumes "\<forall>a b. ev_sha env a = ev_sha env b \<longrightarrow> a = b" and "valid_utf8 approved"
    and "preflight_edit env input approved = Inr digest"
    and "get_str ''path'' input = Some path" and "get_str ''new_string'' input = Some new"
  shows "\<exists>old updated. get_str ''old_string'' input = Some old
    \<and> edit_content (ev_esc env) (ev_find_iter env) path old new (replace_all_flag input) approved = Inr updated
    \<and> snd (execute_edit env (Some digest) input first again write_error) =
        (if first = Inr approved \<and> again = Inr approved \<and> write_error = None then Some updated else None)"
proof -
  obtain old where old: "get_str ''old_string'' input = Some old"
    using assms(3) by (auto simp: preflight_edit_def validate_edit_match_def split: option.splits)
  have digest: "digest = ev_sha env approved"
    and accepted: "validate_edit_match (ev_esc env) (ev_find_iter env) input approved = Inr ()"
    using assms(3) by (auto simp: preflight_edit_def try_bind_Inr)
  have "length (ev_find_iter env (newline_tolerant_pattern (ev_esc env) old) approved) \<noteq> 0
      \<and> (1 < length (ev_find_iter env (newline_tolerant_pattern (ev_esc env) old) approved) \<longrightarrow> replace_all_flag input)"
    using accepted by (auto simp: validate_edit_match_def old Let_def split: if_splits)
  then obtain updated where updated: "edit_content (ev_esc env) (ev_find_iter env) path old new
      (replace_all_flag input) approved = Inr updated"
    by (auto simp: edit_content_def Let_def)
  have read: "read_current (ev_sha env) digest f =
      (if f = Inr approved then Inr approved else Inl precondition_changed)" for f
    using assms(1,2) by (auto simp: read_current_def digest split: sum.splits)
  have "snd (execute_edit env (Some digest) input first again write_error) =
      (if first = Inr approved \<and> again = Inr approved \<and> write_error = None then Some updated else None)"
    by (auto simp: execute_edit_def read assms(4,5) old execute_content_def updated write_edit_def
        split: option.splits)
  with old updated show ?thesis by blast
qed

definition sample_env :: edit_env where
  "sample_env = \<lparr>ev_esc = quote_char, ev_find_iter = run_regex, ev_sha = id,
     ev_diff = (\<lambda>path before after. after), ev_format = None, ev_caps = default_caps\<rparr>"

definition sample_edit :: json where
  "sample_edit = JObj [(''new_string'', JStr ''x''), (''old_string'', JStr ''b''), (''path'', JStr ''f'')]"

theorem edit_applies_approved_witness:
  "\<exists>old updated. get_str ''old_string'' sample_edit = Some old
    \<and> edit_content quote_char run_regex ''f'' old ''x'' False ''ab'' = Inr updated
    \<and> snd (execute_edit sample_env (Some ''ab'') sample_edit (Inr ''ab'') (Inr ''ab'') None) = Some updated"
proof -
  have "run_regex (newline_tolerant_pattern quote_char ''b'') ''ab'' = [(1, 2)]"
    using find_matches [OF run_regex_ok, of "''b''" "''ab''"]
    by (simp add: scan_char_def utf8_width_def byte_def is_cont_def scan.simps starts_with_def)
  then have "preflight_edit sample_env sample_edit ''ab'' = Inr ''ab''"
    by (simp add: preflight_edit_def validate_edit_match_def sample_env_def sample_edit_def)
  then show ?thesis
    using edit_applies_approved [of sample_env "''ab''" sample_edit "''ab''" "''f''" "''x''" "Inr ''ab''" "Inr ''ab''" None]
    by (simp add: sample_env_def sample_edit_def replace_all_flag_def scan_char_def utf8_width_def byte_def)
qed

text \<open>The matches do not overlap, so an old text that occurs twice in overlapping places counts as
  unique, and the first of them is replaced.\<close>

lemma overlapping_occurrences_unnoticed:
  "edit_content quote_char run_regex ''f'' ''aa'' ''b'' False ''aaa'' = Inr ''ba''"
proof -
  have "run_regex (newline_tolerant_pattern quote_char ''aa'') ''aaa'' = [(0, 2)]"
    using find_matches [OF run_regex_ok, of "''aa''" "''aaa''"]
    by (simp add: scan_char_def utf8_width_def byte_def is_cont_def scan.simps starts_with_def)
  then show ?thesis
    by (simp add: edit_content_def replace_matches_def replacement_for_file_def starts_with_def Let_def)
qed

end
