(* ===== verification/EditDistance.thy ===== *)
theory EditDistance
  imports Edit
begin

text \<open>
  The table of \<open>substring_edit_distance\<close> computes what it is named after: the least number of
  single-character edits from the pattern to some contiguous part of the text.
\<close>

section \<open>Editing one list into another\<close>

text \<open>\<open>edits n p t\<close>: \<open>n\<close> substitutions, deletions and insertions turn \<open>p\<close> into \<open>t\<close>.\<close>

inductive edits :: "nat \<Rightarrow> 'a list \<Rightarrow> 'a list \<Rightarrow> bool" where
  none: "edits 0 [] []"
| keep: "edits n p t \<Longrightarrow> edits n (x # p) (x # t)"
| subst: "edits n p t \<Longrightarrow> edits (Suc n) (x # p) (y # t)"
| delete: "edits n p t \<Longrightarrow> edits (Suc n) (x # p) t"
| insert: "edits n p t \<Longrightarrow> edits (Suc n) p (y # t)"

inductive_cases edits_NilE: "edits n [] t"
inductive_cases edits_Nil2E: "edits n p []"

lemma edits_append: "edits n p t \<Longrightarrow> edits m q u \<Longrightarrow> edits (n + m) (p @ q) (t @ u)"
  by (induction rule: edits.induct) (auto intro: edits.intros)

lemma edits_rev: "edits n p t \<Longrightarrow> edits n (rev p) (rev t)"
proof (induction rule: edits.induct)
  case (keep n p t x)
  then show ?case using edits_append [OF keep.IH edits.keep [OF edits.none, of x]] by simp
next
  case (subst n p t x y)
  then show ?case using edits_append [OF subst.IH edits.subst [OF edits.none, of x y]] by simp
next
  case (delete n p t x)
  then show ?case using edits_append [OF delete.IH edits.delete [OF edits.none, of x]] by simp
next
  case (insert n p t y)
  then show ?case using edits_append [OF insert.IH edits.insert [OF edits.none, of y]] by simp
qed (simp add: edits.none)

lemma edits_to_Nil: "edits n p [] \<longleftrightarrow> n = length p"
proof
  show "edits n p [] \<Longrightarrow> n = length p"
    by (induction n p "[] :: 'a list" rule: edits.induct) simp_all
  show "n = length p \<Longrightarrow> edits n p []"
    by (induction p arbitrary: n) (auto intro: edits.intros)
qed

lemma edits_from_Nil_0: "edits 0 [] t \<longleftrightarrow> t = []"
  by (auto elim: edits_NilE intro: edits.none)

text \<open>The last edit, read from the right.\<close>

lemma edits_snoc:
  assumes "edits n (p @ [x]) (t @ [y])"
  shows "(\<exists>m. n = Suc m \<and> edits m p (t @ [y])) \<or> (\<exists>m. n = Suc m \<and> edits m (p @ [x]) t)
    \<or> (\<exists>m. n = m + (if x \<noteq> y then 1 else 0) \<and> edits m p t) \<or> (\<exists>m. n = Suc m \<and> edits m p t)"
proof -
  have unrev: "edits m (rev q) (rev u) \<Longrightarrow> edits m q u" for m q u
    using edits_rev [of m "rev q" "rev u"] by simp
  have "edits n (x # rev p) (y # rev t)" using edits_rev [OF assms] by simp
  then show ?thesis
  proof cases
    case keep
    then show ?thesis using unrev by auto
  next
    case (subst m)
    then show ?thesis using unrev by auto
  next
    case (delete m)
    then have "edits m p (t @ [y])" using unrev [of m p "t @ [y]"] by simp
    then show ?thesis using delete by auto
  next
    case (insert m)
    then have "edits m (p @ [x]) t" using unrev [of m "p @ [x]" t] by simp
    then show ?thesis using insert by auto
  qed
qed

section \<open>The table\<close>

text \<open>The numbers of edits from a prefix of the pattern to a part of the text that ends at \<open>j\<close>.\<close>

definition ends_at :: "'a list \<Rightarrow> 'a list \<Rightarrow> nat \<Rightarrow> nat \<Rightarrow> nat set" where
  "ends_at p t i j = {n. \<exists>k \<le> j. edits n (take i p) (drop k (take j t))}"

definition least_of :: "nat set \<Rightarrow> nat \<Rightarrow> bool" where
  "least_of S d \<longleftrightarrow> d \<in> S \<and> (\<forall>n \<in> S. d \<le> n)"

lemma least_first_row: "least_of (ends_at p t 0 j) 0"
  by (auto simp: least_of_def ends_at_def edits_from_Nil_0 intro!: exI [of _ j])

lemma least_first_column: "i \<le> length p \<Longrightarrow> least_of (ends_at p t i 0) i"
  by (auto simp: least_of_def ends_at_def edits_to_Nil min_def)

lemma ends_at_up: "n \<in> ends_at p t i j \<Longrightarrow> i < length p \<Longrightarrow> Suc n \<in> ends_at p t (Suc i) j"
  using edits_append [OF _ edits.delete [OF edits.none]]
  by (fastforce simp: ends_at_def take_Suc_conv_app_nth)

lemma drop_take_Suc: "k \<le> j \<Longrightarrow> j < length t \<Longrightarrow> drop k (take (Suc j) t) = drop k (take j t) @ [t ! j]"
  by (simp add: take_Suc_conv_app_nth)

lemma ends_at_left: "n \<in> ends_at p t i j \<Longrightarrow> j < length t \<Longrightarrow> Suc n \<in> ends_at p t i (Suc j)"
proof -
  assume n: "n \<in> ends_at p t i j" and j: "j < length t"
  then obtain k where k: "k \<le> j" "edits n (take i p) (drop k (take j t))" by (auto simp: ends_at_def)
  then have "edits (Suc n) (take i p) (drop k (take (Suc j) t))"
    using edits_append [OF k(2) edits.insert [OF edits.none, of "t ! j"]] j by (simp add: drop_take_Suc)
  then show ?thesis using k(1) by (auto simp: ends_at_def intro!: exI [of _ k])
qed

lemma ends_at_diagonal:
  assumes "n \<in> ends_at p t i j" "i < length p" "j < length t"
  shows "n + (if p ! i \<noteq> t ! j then 1 else 0) \<in> ends_at p t (Suc i) (Suc j)"
proof -
  obtain k where k: "k \<le> j" "edits n (take i p) (drop k (take j t))" using assms(1) by (auto simp: ends_at_def)
  have "edits (if p ! i \<noteq> t ! j then 1 else 0) [p ! i] [t ! j]" by (auto intro: edits.intros)
  then have "edits (n + (if p ! i \<noteq> t ! j then 1 else 0)) (take (Suc i) p) (drop k (take (Suc j) t))"
    using edits_append [OF k(2)] k(1) assms(2,3) by (simp add: drop_take_Suc take_Suc_conv_app_nth)
  then show ?thesis using k(1) by (auto simp: ends_at_def intro!: exI [of _ k])
qed

lemma ends_at_cases:
  assumes "n \<in> ends_at p t (Suc i) (Suc j)" "i < length p" "j < length t"
  shows "(\<exists>m \<in> ends_at p t i (Suc j). m < n) \<or> (\<exists>m \<in> ends_at p t (Suc i) j. m < n)
    \<or> (\<exists>m \<in> ends_at p t i j. m + (if p ! i \<noteq> t ! j then 1 else 0) \<le> n)"
proof -
  obtain k where k: "k \<le> Suc j" "edits n (take (Suc i) p) (drop k (take (Suc j) t))"
    using assms(1) by (auto simp: ends_at_def)
  show ?thesis
  proof (cases "k = Suc j")
    case True
    then have "n = Suc i" using k(2) assms(2) by (simp add: edits_to_Nil)
    moreover have "i \<in> ends_at p t i (Suc j)"
      using assms(2) by (auto simp: ends_at_def edits_to_Nil intro!: exI [of _ "Suc j"])
    ultimately show ?thesis by auto
  next
    case False
    then have kj: "k \<le> j" using k(1) by simp
    have "edits n (take i p @ [p ! i]) (drop k (take j t) @ [t ! j])"
      using k(2) assms(2,3) kj by (simp add: drop_take_Suc take_Suc_conv_app_nth)
    note last = edits_snoc [OF this]
    consider
        m where "n = Suc m" "edits m (take i p) (drop k (take j t) @ [t ! j])"
      | m where "n = Suc m" "edits m (take i p @ [p ! i]) (drop k (take j t))"
      | m where "m + (if p ! i \<noteq> t ! j then 1 else 0) \<le> n" "edits m (take i p) (drop k (take j t))"
      using last
    proof (elim disjE exE conjE)
      fix m assume n: "n = m + (if p ! i \<noteq> t ! j then 1 else 0)" and m: "edits m (take i p) (drop k (take j t))"
      show thesis by (rule that(3) [OF _ m]) (simp only: n order_refl)
    next
      fix m assume n: "n = Suc m" and m: "edits m (take i p) (drop k (take j t))"
      show thesis by (rule that(3) [OF _ m]) (simp add: n)
    qed (use that in blast)+
    then show ?thesis
    proof cases
      case (1 m)
      then have "m \<in> ends_at p t i (Suc j)"
        using kj assms(3) by (auto simp: ends_at_def drop_take_Suc intro!: exI [of _ k])
      with 1 show ?thesis by auto
    next
      case (2 m)
      then have "m \<in> ends_at p t (Suc i) j"
        using kj assms(2) by (auto simp: ends_at_def take_Suc_conv_app_nth)
      with 2 show ?thesis by auto
    next
      case (3 m)
      then show ?thesis using kj by (auto simp: ends_at_def)
    qed
  qed
qed

lemma least_cell:
  assumes "i < length p" "j < length t"
    and "least_of (ends_at p t i (Suc j)) a" "least_of (ends_at p t (Suc i) j) b"
    and "least_of (ends_at p t i j) c"
  shows "least_of (ends_at p t (Suc i) (Suc j))
    (min (min (a + 1) (b + 1)) (c + (if p ! i \<noteq> t ! j then 1 else 0)))"
  unfolding least_of_def
proof
  show "min (min (a + 1) (b + 1)) (c + (if p ! i \<noteq> t ! j then 1 else 0)) \<in> ends_at p t (Suc i) (Suc j)"
    using assms ends_at_up [of a p t i "Suc j"] ends_at_left [of b p t "Suc i" j] ends_at_diagonal [of c p t i j]
    by (simp add: least_of_def min_def)
  show "\<forall>n \<in> ends_at p t (Suc i) (Suc j). min (min (a + 1) (b + 1)) (c + (if p ! i \<noteq> t ! j then 1 else 0)) \<le> n"
  proof
    fix n assume "n \<in> ends_at p t (Suc i) (Suc j)"
    from ends_at_cases [OF this assms(1,2)]
    show "min (min (a + 1) (b + 1)) (c + (if p ! i \<noteq> t ! j then 1 else 0)) \<le> n"
    proof (elim disjE bexE)
      fix m assume "m \<in> ends_at p t i (Suc j)" "m < n"
      then have "a + 1 \<le> n" using assms(3) by (fastforce simp: least_of_def)
      then show ?thesis by simp
    next
      fix m assume "m \<in> ends_at p t (Suc i) j" "m < n"
      then have "b + 1 \<le> n" using assms(4) by (fastforce simp: least_of_def)
      then show ?thesis by simp
    next
      fix m assume "m \<in> ends_at p t i j" "m + (if p ! i \<noteq> t ! j then 1 else 0) \<le> n"
      moreover have "c \<le> m" using calculation(1) assms(5) by (simp add: least_of_def)
      ultimately have "c + (if p ! i \<noteq> t ! j then 1 else 0) \<le> n" by linarith
      then show ?thesis by simp
    qed
  qed
qed

section \<open>The loops\<close>

definition row_ok :: "'a list \<Rightarrow> 'a list \<Rightarrow> nat \<Rightarrow> nat list \<Rightarrow> bool" where
  "row_ok p t i row \<longleftrightarrow>
     length row = length t + 1 \<and> (\<forall>j \<le> length t. least_of (ends_at p t i j) (row ! j))"

lemma fill_cells:
  assumes "row_ok p t i previous" "length current = length t + 1" "i < length p"
    and "least_of (ends_at p t (Suc i) 0) (current ! 0)" "k \<le> length t"
  defines "row \<equiv> fold (set_cell (p ! i) t previous) [0..<k] current"
  shows "length row = length t + 1 \<and> (\<forall>j \<le> k. least_of (ends_at p t (Suc i) j) (row ! j))"
  using assms(5) unfolding row_def
proof (induction k)
  case (Suc k)
  define sofar where "sofar = fold (set_cell (p ! i) t previous) [0..<k] current"
  define cell where "cell = min (min (previous ! (k + 1) + 1) (sofar ! k + 1))
      (previous ! k + (if p ! i \<noteq> t ! k then 1 else 0))"
  have IH: "length sofar = length t + 1" "\<And>j. j \<le> k \<Longrightarrow> least_of (ends_at p t (Suc i) j) (sofar ! j)"
    using Suc by (auto simp: sofar_def)
  have new: "least_of (ends_at p t (Suc i) (Suc k)) cell"
    unfolding cell_def using assms(1,3) Suc.prems IH(2) by (intro least_cell) (auto simp: row_ok_def)
  have "fold (set_cell (p ! i) t previous) [0..<Suc k] current = sofar[k + 1 := cell]"
    by (simp add: set_cell_def cell_def sofar_def [symmetric])
  then show ?case
    using IH new Suc.prems by (auto simp: nth_list_update le_Suc_eq)
qed (use assms in auto)

lemma fill_row_ok:
  assumes "row_ok p t i previous" "length current = length t + 1" "i < length p"
  shows "row_ok p t (Suc i) (fill_row (p ! i) i t previous current)"
proof -
  have "least_of (ends_at p t (Suc i) 0) (current[0 := i + 1] ! 0)"
    using least_first_column [of "Suc i" p t] assms(2,3) by simp
  then show ?thesis
    using fill_cells [OF assms(1) _ assms(3), of "current[0 := i + 1]" "length t"] assms(2)
    by (simp add: row_ok_def fill_row_def)
qed

lemma edit_rows_ok:
  "row_ok p t i previous \<Longrightarrow> length current = length t + 1 \<Longrightarrow> i + length cs = length p \<Longrightarrow>
   cs = drop i p \<Longrightarrow> row_ok p t (length p) (edit_rows i cs t previous current)"
proof (induction cs arbitrary: i previous current)
  case (Cons c cs)
  have less: "i < length p" using Cons.prems(4) by (metis drop_all list.distinct(1) not_le)
  from less have c: "c = p ! i" "cs = drop (Suc i) p"
    using Cons.prems(4) Cons_nth_drop_Suc [of i p] by (metis list.inject)+
  have row: "row_ok p t (Suc i) (fill_row (p ! i) i t previous current)"
    by (rule fill_row_ok [OF Cons.prems(1,2) less])
  have "length previous = length t + 1" using Cons.prems(1) by (simp add: row_ok_def)
  from Cons.IH [OF row this _ c(2)] show ?case using Cons.prems(3) by (simp add: c(1))
qed simp

lemma final_row:
  "row_ok p t (length p) (edit_rows 0 p t (replicate (length t + 1) 0) (replicate (length t + 1) 0))"
  by (rule edit_rows_ok) (auto simp: row_ok_def least_first_row simp del: replicate_Suc)

section \<open>The distance\<close>

text \<open>The least number of edits from the pattern to a part of the text.\<close>

definition part_edits :: "'a list \<Rightarrow> 'a list \<Rightarrow> nat set" where
  "part_edits p t = {n. \<exists>before part after. t = before @ part @ after \<and> edits n p part}"

lemma part_edits_ends: "part_edits p t = (\<Union>j \<le> length t. ends_at p t (length p) j)"
proof safe
  fix n assume "n \<in> part_edits p t"
  then obtain before part after where "t = before @ part @ after" "edits n p part"
    by (auto simp: part_edits_def)
  then show "n \<in> (\<Union>j \<le> length t. ends_at p t (length p) j)"
    by (intro UN_I [of "length before + length part"]) (auto simp: ends_at_def intro!: exI [of _ "length before"])
next
  fix n j assume "n \<in> ends_at p t (length p) j" "j \<le> length t"
  then obtain k where "edits n p (drop k (take j t))" "k \<le> j" by (auto simp: ends_at_def)
  moreover have "t = take k (take j t) @ drop k (take j t) @ drop j t"
    by (metis append.assoc append_take_drop_id)
  ultimately show "n \<in> part_edits p t" unfolding part_edits_def by blast
qed

lemma edit_rows_least:
  "least_of (part_edits p t)
     (Min (set (edit_rows 0 p t (replicate (length t + 1) 0) (replicate (length t + 1) 0))))"
proof -
  define row where "row = edit_rows 0 p t (replicate (length t + 1) 0) (replicate (length t + 1) 0)"
  have row: "length row = length t + 1" "\<And>j. j \<le> length t \<Longrightarrow> least_of (ends_at p t (length p) j) (row ! j)"
    using final_row [of p t] by (auto simp: row_ok_def row_def)
  then have ne: "set row \<noteq> {}" by auto
  then have "Min (set row) \<in> set row" by simp
  then obtain j where j: "j \<le> length t" "row ! j = Min (set row)"
    using row(1) by (auto simp: in_set_conv_nth less_Suc_eq_le)
  have "Min (set row) \<in> part_edits p t"
    using row(2) [OF j(1)] j by (auto simp: part_edits_ends least_of_def)
  moreover have "Min (set row) \<le> n" if mem: "n \<in> part_edits p t" for n
  proof -
    obtain i where i: "i \<le> length t" "n \<in> ends_at p t (length p) i" using mem by (auto simp: part_edits_ends)
    then have "row ! i \<le> n" using row(2) by (auto simp: least_of_def)
    moreover have "Min (set row) \<le> row ! i" using i(1) row(1) by simp
    ultimately show ?thesis by simp
  qed
  ultimately show ?thesis by (simp add: least_of_def row_def)
qed

section \<open>Properties\<close>

text \<open>C20: The distance the suggestions are ranked by is the least number of substitutions,
  deletions and insertions of single characters that turn the pattern into some contiguous part of
  the line: one part is exactly as near, and none is nearer. It is computed exactly when the cells
  it needs fit what is left of the budget of 250000, and they are then charged; otherwise nothing
  is charged and the search is marked as exhausted.\<close>

theorem distance_is_least:
  "case substring_edit_distance pattern txt stats of
     (None, stats') \<Rightarrow>
       250000 < st_work_cells stats + length pattern * length txt \<and> stats' = stats\<lparr>st_exhausted := True\<rparr>
   | (Some d, stats') \<Rightarrow>
       st_work_cells stats + length pattern * length txt \<le> 250000
       \<and> stats' = stats\<lparr>st_work_cells := st_work_cells stats + length pattern * length txt\<rparr>
       \<and> (\<exists>before part after. txt = before @ part @ after \<and> edits d pattern part)
       \<and> (\<forall>n before part after. txt = before @ part @ after \<and> edits n pattern part \<longrightarrow> d \<le> n)"
proof -
  let ?cells = "st_work_cells stats + length pattern * length txt"
  let ?work = "min (st_work_cells stats + saturating_mul_u64 (length pattern) (length txt)) u64_max"
  let ?d = "Min (set (edit_rows 0 pattern txt (replicate (length txt + 1) 0) (replicate (length txt + 1) 0)))"
  show ?thesis
  proof (cases "?cells \<le> 250000")
    case True
    then have "saturating_mul_u64 (length pattern) (length txt) = length pattern * length txt"
      by (simp add: saturating_mul_u64_def u64_max_def)
    then have "substring_edit_distance pattern txt stats = (Some ?d, stats\<lparr>st_work_cells := ?cells\<rparr>)"
      using True by (simp add: substring_edit_distance_def MAX_SUGGESTION_WORK_CELLS_def Let_def u64_max_def)
    moreover have "(\<exists>before part after. txt = before @ part @ after \<and> edits ?d pattern part)
        \<and> (\<forall>n before part after. txt = before @ part @ after \<and> edits n pattern part \<longrightarrow> ?d \<le> n)"
      using edit_rows_least [of pattern "txt"] unfolding least_of_def part_edits_def by blast
    ultimately show ?thesis using True by simp
  next
    case False
    then have "250000 < ?work" by (simp add: saturating_mul_u64_def u64_max_def min_def)
    then have "substring_edit_distance pattern txt stats = (None, stats\<lparr>st_exhausted := True\<rparr>)"
      by (simp add: substring_edit_distance_def MAX_SUGGESTION_WORK_CELLS_def Let_def)
    then show ?thesis using False by simp
  qed
qed

lemma sample_rows: "edit_rows 0 ''ab'' ''xac'' [0, 0, 0, 0] [0, 0, 0, 0] = [2, 2, 1, 1]"
  by (simp add: fill_row_def set_cell_def)

theorem distance_is_least_witness:
  "\<exists>before part after. ''xac'' = before @ part @ after \<and> edits 1 ''ab'' part"
proof -
  have zeros: "replicate (length ''xac'' + 1) 0 = [0, 0, 0, 0 :: nat]" by simp
  have cells: "min (st_work_cells default_stats + saturating_mul_u64 (length ''ab'') (length ''xac'')) u64_max = 6"
    by (simp add: default_stats_def saturating_mul_u64_def u64_max_def)
  have "substring_edit_distance ''ab'' ''xac'' default_stats = (Some 1, default_stats\<lparr>st_work_cells := 6\<rparr>)"
    unfolding substring_edit_distance_def Let_def cells zeros sample_rows
    by (simp add: MAX_SUGGESTION_WORK_CELLS_def)
  then show ?thesis using distance_is_least [of default_stats "''ab''" "''xac''"] by simp
qed

end
