(* ===== verification/EditSuggestions.thy ===== *)
theory EditSuggestions
  imports EditDistance "HOL-Library.Multiset"
begin

text \<open>
  The suggestions for a text that was not found: the search keeps five lines at a time, and ends
  with the five best of all the lines that are similar enough.
\<close>

section \<open>The specification\<close>

definition nearest :: "'a list \<Rightarrow> 'a list \<Rightarrow> nat" where
  "nearest p t = (LEAST n. n \<in> part_edits p t)"

definition line_score :: "suggestion_pattern list \<Rightarrow> nat \<Rightarrow> string list \<Rightarrow> nat" where
  "line_score patterns request_chars txt =
     Min ((\<lambda>p. nearest (sp_chars p) txt + (request_chars - length (sp_chars p))) ` set patterns)"

definition similar_lines ::
    "suggestion_pattern list \<Rightarrow> nat \<Rightarrow> (nat \<times> string) list \<Rightarrow> similar_line list" where
  "similar_lines patterns request_chars ls =
     map (\<lambda>(i, line). \<lparr>sl_line = i + 1, sl_preview = line_preview_text line,
            sl_edits = line_score patterns request_chars (chars (trim (line_preview_text line))),
            sl_pattern_len = request_chars\<rparr>)
       (filter (\<lambda>(i, line). chars (trim (line_preview_text line)) \<noteq> []
            \<and> similar_enough (line_score patterns request_chars (chars (trim (line_preview_text line))))
                request_chars) ls)"

definition line_key :: "similar_line \<Rightarrow> nat \<times> nat" where
  "line_key c = (sl_edits c, sl_line c)"

section \<open>The score of a line\<close>

lemma least_nearest: "least_of (part_edits p t) d \<Longrightarrow> d = nearest p t"
  unfolding nearest_def least_of_def by (metis LeastI Least_le le_antisym)

lemma distance_cases:
  obtains (exhausted) "substring_edit_distance p t stats = (None, stats\<lparr>st_exhausted := True\<rparr>)"
    | (found) w where "substring_edit_distance p t stats = (Some (nearest p t), stats\<lparr>st_work_cells := w\<rparr>)"
proof -
  let ?work = "min (st_work_cells stats + saturating_mul_u64 (length p) (length t)) u64_max"
  show thesis
  proof (cases "MAX_SUGGESTION_WORK_CELLS < ?work")
    case True
    then show thesis using exhausted by (simp only: substring_edit_distance_def Let_def if_True)
  next
    case False
    then show thesis
      using found [of ?work] least_nearest [OF edit_rows_least, of p t]
      by (simp only: substring_edit_distance_def Let_def if_False)
  qed
qed

abbreviation pattern_score :: "nat \<Rightarrow> string list \<Rightarrow> suggestion_pattern \<Rightarrow> nat" where
  "pattern_score request_chars t p \<equiv> nearest (sp_chars p) t + (request_chars - length (sp_chars p))"

lemma score_line_best:
  assumes "0 < r"
  shows "case score_line r ps t best stats of
      (None, stats') \<Rightarrow> st_exhausted stats'
    | (Some b, stats') \<Rightarrow> st_exhausted stats' = st_exhausted stats
        \<and> (\<forall>e. best = Some (e, r) \<longrightarrow> b = Some (Min (insert e (pattern_score r t ` set ps)), r))
        \<and> (best = None \<longrightarrow> ps \<noteq> [] \<longrightarrow> b = Some (Min (pattern_score r t ` set ps), r))"
proof (induction ps arbitrary: best stats)
  case (Cons p ps)
  show ?case
  proof (cases rule: distance_cases [of "sp_chars p" t stats])
    case exhausted
    then show ?thesis by simp
  next
    case (found w)
    let ?s = "pattern_score r t p"
    let ?stats = "stats\<lparr>st_work_cells := w\<rparr>"
    define best' where "best' = (if (case best of None \<Rightarrow> True
        | Some current \<Rightarrow> cmp (fst (?s, r) * snd current) (fst current * snd (?s, r)) = Less) then Some (?s, r) else best)"
    have step: "score_line r (p # ps) t best stats = score_line r ps t best' ?stats"
      using found by (simp add: best'_def Let_def)
    have old: "best' = Some (min e ?s, r)" if "best = Some (e, r)" for e
      using that assms by (auto simp: best'_def min_def)
    have fresh: "best' = Some (?s, r)" if "best = None" using that by (simp add: best'_def)
    have min_in: "Min (insert (min e ?s) (pattern_score r t ` set ps)) =
        Min (insert e (insert ?s (pattern_score r t ` set ps)))" for e
      by (cases "set ps = {}") (simp_all add: ac_simps)
    show ?thesis
      using Cons.IH [where best = best' and stats = ?stats] unfolding step
      by (auto split: option.splits prod.splits simp: old fresh min_in simp del: Min_insert)
  qed
qed simp

lemma score_line_spec:
  assumes "0 < r" "ps \<noteq> []"
  shows "score_line r ps t None stats = (None, s) \<Longrightarrow> st_exhausted s"
    and "score_line r ps t None stats = (Some b, s) \<Longrightarrow>
      b = Some (line_score ps r t, r) \<and> st_exhausted s = st_exhausted stats"
  using score_line_best [OF assms(1), where ps = ps and t = t and best = None and stats = stats] assms(2) by (auto simp: line_score_def)

section \<open>Keeping the best\<close>

lemma order_key:
  assumes "0 < r" "sl_pattern_len x = r" "sl_pattern_len y = r"
  shows "similar_line_order x y = Less \<longleftrightarrow> line_key x < line_key y"
    and "similar_line_order x y = Greater \<longleftrightarrow> line_key y < line_key x"
proof -
  have "similar_line_order x y = then_ord (cmp (sl_edits x) (sl_edits y)) (cmp (sl_line x) (sl_line y))"
    using assms by (simp add: similar_line_order_def cmp_def)
  then show "similar_line_order x y = Less \<longleftrightarrow> line_key x < line_key y"
    and "similar_line_order x y = Greater \<longleftrightarrow> line_key y < line_key x"
    by (cases "sl_edits x" "sl_edits y" rule: linorder_cases; auto simp: cmp_def less_prod_def line_key_def)+
qed

lemma insert_by_key:
  "0 < r \<Longrightarrow> sl_pattern_len x = r \<Longrightarrow> list_all (\<lambda>c. sl_pattern_len c = r) cs \<Longrightarrow>
   insert_by similar_line_order x cs = insort_key line_key x cs"
  by (induction cs) (auto simp: order_key)

lemma sort_by_key:
  "0 < r \<Longrightarrow> list_all (\<lambda>c. sl_pattern_len c = r) cs \<Longrightarrow>
   sort_by similar_line_order cs = sort_key line_key cs"
proof (induction cs)
  case (Cons c cs)
  then have "list_all (\<lambda>c. sl_pattern_len c = r) (sort_key line_key cs)"
    by (auto simp: list_all_iff)
  with Cons show ?case
    using insert_by_key [of r c "sort_key line_key cs"] by (simp add: sort_by_def)
qed (simp add: sort_by_def)

lemma max_index:
  assumes "0 < r"
  shows "list_all (\<lambda>c. sl_pattern_len c = r) (pre @ xs) \<Longrightarrow> best < length pre \<Longrightarrow>
    \<forall>c \<in> set pre. line_key c \<le> line_key (pre ! best) \<Longrightarrow>
    m = max_index_from similar_line_order best (pre ! best) (length pre) xs \<Longrightarrow>
    m < length (pre @ xs) \<and> (\<forall>c \<in> set (pre @ xs). line_key c \<le> line_key ((pre @ xs) ! m))"
proof (induction xs arbitrary: pre best)
  case Nil
  then show ?case by simp
next
  case (Cons x xs)
  have len: "sl_pattern_len (pre ! best) = r" "sl_pattern_len x = r"
    using Cons.prems(1,2) by (auto simp: list_all_iff)
  show ?case
  proof (cases "similar_line_order (pre ! best) x = Greater")
    case True
    then have "line_key x < line_key (pre ! best)" using order_key(2) [OF assms len] by simp
    then show ?thesis
      using Cons.IH [of "pre @ [x]" best] Cons.prems True by (simp add: nth_append less_imp_le)
  next
    case False
    then have "line_key (pre ! best) \<le> line_key x" using order_key(2) [OF assms len] by (simp add: not_less)
    then have "\<forall>c \<in> set (pre @ [x]). line_key c \<le> line_key x"
      using Cons.prems(3) by (auto intro: order_trans)
    then show ?thesis
      using Cons.IH [of "pre @ [x]" "length pre"] Cons.prems False by simp
  qed
qed

lemma worst_index_max:
  assumes "0 < r" "list_all (\<lambda>c. sl_pattern_len c = r) cands" "cands \<noteq> []"
  shows "worst_index cands < length cands"
    and "c \<in> set cands \<Longrightarrow> line_key c \<le> line_key (cands ! worst_index cands)"
  using max_index [OF assms(1), of "[hd cands]" "tl cands" 0 "worst_index cands"] assms(2,3)
  by (simp_all add: worst_index_def)

text \<open>The first \<open>n\<close> of the sorted list, when one more element arrives.\<close>

definition best_five :: "similar_line list \<Rightarrow> similar_line list" where
  "best_five xs = take MAX_TOOL_ERROR_LINE_CANDIDATES (sort_key line_key xs)"

lemma take_insort: "take n (insort_key f x (take n S)) = take n (insort_key f x S)"
proof (induction S arbitrary: n)
  case (Cons y ys)
  then show ?case by (cases n) (auto simp: take_Cons' min_def)
qed simp

lemma insort_full:
  assumes "sorted (map f A)" "A \<noteq> []" "f x \<noteq> f (last A)"
  shows "mset (take (length A) (insort_key f x A)) =
    (if f x < f (last A) then add_mset x (mset A - {#last A#}) else mset A)"
proof (cases "f x < f (last A)")
  case True
  obtain B b where A: "A = B @ [b]" using assms(2) by (cases A rule: rev_cases) auto
  have "insort_key f x (B @ [b]) = insort_key f x B @ [b]"
    using True unfolding A by (induction B) auto
  then show ?thesis using True by (simp add: A)
next
  case False
  then have last: "f (last A) < f x" using assms(3) by simp
  have "f y \<le> f (last A)" if "y \<in> set A" for y
    using assms(1,2) that by (cases A rule: rev_cases) (auto simp: sorted_append)
  with last have "\<forall>y \<in> set A. f y < f x" by fastforce
  then have "insort_key f x A = A @ [x]" by (induction A) auto
  then show ?thesis using False by simp
qed

lemma sort_snoc:
  assumes "inj_on f (set (xs @ [x]))"
  shows "sort_key f (xs @ [x]) = insort_key f x (sort_key f xs)"
  by (rule sort_key_inj_key_eq) (use assms in \<open>auto simp: sorted_insort_key\<close>)

lemma retain_top:
  assumes "0 < r" "list_all (\<lambda>c. sl_pattern_len c = r) (cands @ [x])"
    and "mset cands = mset (best_five xs)" "inj_on line_key (set (xs @ [x]))" "x \<notin> set xs"
  shows "mset (fst (retain_similar_line cands x stats)) = mset (best_five (xs @ [x]))"
proof -
  let ?S = "sort_key line_key xs"
  have snoc: "sort_key line_key (xs @ [x]) = insort_key line_key x ?S" by (rule sort_snoc [OF assms(4)])
  have len: "length cands = length (best_five xs)" using assms(3) by (rule mset_eq_length)
  show ?thesis
  proof (cases "length cands < MAX_TOOL_ERROR_LINE_CANDIDATES")
    case True
    then have "length xs < MAX_TOOL_ERROR_LINE_CANDIDATES" "best_five xs = ?S"
      using len by (auto simp: best_five_def)
    then show ?thesis using True assms(3) snoc by (simp add: retain_similar_line_def best_five_def Let_def)
  next
    case False
    then have five: "length (best_five xs) = MAX_TOOL_ERROR_LINE_CANDIDATES" "best_five xs \<noteq> []"
      using len by (simp add: best_five_def) (use False len in \<open>auto simp: tool_error_limits\<close>)
    then have ne: "cands \<noteq> []" using len by auto
    have new: "best_five (xs @ [x]) = take (length (best_five xs)) (insort_key line_key x (best_five xs))"
      unfolding five by (simp only: best_five_def snoc take_insort)
    have sorted: "sorted (map line_key (best_five xs))" by (simp add: best_five_def take_map [symmetric] sorted_wrt_take)
    let ?w = "cands ! worst_index cands"
    have w: "worst_index cands < length cands" "\<And>c. c \<in> set cands \<Longrightarrow> line_key c \<le> line_key ?w"
      using worst_index_max [OF assms(1) _ ne] assms(2) by simp_all
    have same: "set cands = set (best_five xs)" using assms(3) by (rule mset_eq_setD)
    have sub: "set (best_five xs) \<subseteq> set xs" by (auto simp: best_five_def dest: in_set_takeD)
    have "line_key (last (best_five xs)) \<le> line_key ?w" using w(2) same five(2) by simp
    moreover have "line_key ?w \<le> line_key (last (best_five xs))"
    proof -
      have "?w \<in> set (best_five xs)" using w(1) same nth_mem by blast
      then show ?thesis using sorted five(2) by (cases "best_five xs" rule: rev_cases) (auto simp: sorted_append)
    qed
    ultimately have "line_key ?w = line_key (last (best_five xs))" by simp
    moreover have "?w \<in> set (xs @ [x])" "last (best_five xs) \<in> set (xs @ [x])"
      using sub same w(1) nth_mem [OF w(1)] last_in_set [OF five(2)] by auto
    ultimately have worst: "?w = last (best_five xs)" using inj_onD [OF assms(4)] by blast
    have "line_key x \<noteq> line_key (last (best_five xs))"
      using assms(4,5) sub last_in_set [OF five(2)] by (auto dest!: inj_onD)
    then have full: "mset (best_five (xs @ [x])) = (if line_key x < line_key ?w
        then add_mset x (mset cands - {#?w#}) else mset cands)"
      unfolding new worst assms(3) by (rule insort_full [OF sorted five(2)])
    have "sl_pattern_len x = r" "sl_pattern_len ?w = r"
      using assms(2) w(1) by (auto simp: list_all_iff)
    then have "similar_line_order x ?w = Less \<longleftrightarrow> line_key x < line_key ?w"
      using order_key(1) [OF assms(1)] by simp
    then show ?thesis
      using False full w(1) by (simp add: retain_similar_line_def Let_def mset_update)
  qed
qed

section \<open>The search\<close>

lemma similar_lines_len: "list_all (\<lambda>c. sl_pattern_len c = r) (similar_lines ps r ls)"
  by (auto simp: similar_lines_def list_all_iff)

lemma similar_lines_append: "similar_lines ps r (xs @ ys) = similar_lines ps r xs @ similar_lines ps r ys"
  by (simp add: similar_lines_def)

lemma similar_lines_index: "c \<in> set (similar_lines ps r ls) \<Longrightarrow> \<exists>i \<in> fst ` set ls. sl_line c = i + 1"
  by (force simp: similar_lines_def)

lemma similar_lines_inj: "distinct (map fst ls) \<Longrightarrow> inj_on line_key (set (similar_lines ps r ls))"
proof (induction ls rule: rev_induct)
  case (snoc x xs)
  have "sl_line c \<noteq> sl_line d \<and> sl_line d \<noteq> sl_line c"
    if "c \<in> set (similar_lines ps r xs)" "d \<in> set (similar_lines ps r [x])" for c d
    using that snoc.prems by (force dest!: similar_lines_index)
  moreover have "c = d" if "c \<in> set (similar_lines ps r [x])" "d \<in> set (similar_lines ps r [x])" for c d
    using that by (auto simp: similar_lines_def split: if_splits prod.splits)
  ultimately show ?case
    using snoc by (auto simp: similar_lines_append inj_on_def line_key_def)
qed (simp add: similar_lines_def)

lemma retain_exhausted: "st_exhausted (snd (retain_similar_line cands c stats)) = st_exhausted stats"
  by (simp add: retain_similar_line_def Let_def)

lemma search_lines_top:
  assumes "0 < r" "ps \<noteq> []"
  shows "search_lines ps r ls cands stats = (cands', stats') \<Longrightarrow> \<not> st_exhausted stats' \<Longrightarrow>
    distinct (map fst (seen @ ls)) \<Longrightarrow> list_all (\<lambda>c. sl_pattern_len c = r) cands \<Longrightarrow>
    mset cands = mset (best_five (similar_lines ps r seen)) \<Longrightarrow>
    mset cands' = mset (best_five (similar_lines ps r (seen @ ls)))"
proof (induction ls arbitrary: cands stats seen)
  case (Cons l ls)
  obtain i line where l: "l = (i, line)" by (cases l)
  let ?stats = "stats\<lparr>st_lines_scanned := st_lines_scanned stats + 1\<rparr>"
  let ?preview = "line_preview_text line"
  let ?t = "chars (trim ?preview)"
  have skip: ?case if "search_lines ps r ls cands s = (cands', stats')" "similar_lines ps r [l] = []" for s
  proof -
    have "similar_lines ps r (seen @ [l]) = similar_lines ps r seen"
      using that(2) by (simp add: similar_lines_append)
    then show ?thesis using Cons.IH [of cands s "seen @ [l]"] that(1) Cons.prems(2-5) by simp
  qed
  show ?case
  proof (cases "?t = []")
    case True
    then show ?thesis
      using Cons.prems(1) by (intro skip) (auto simp: l similar_lines_def Let_def)
  next
    case False
    obtain b s where score: "score_line r ps ?t None ?stats = (b, s)" by (cases "score_line r ps ?t None ?stats")
    show ?thesis
    proof (cases b)
      case None
      then have "st_exhausted s" using score_line_spec(1) [OF assms] score by simp
      then show ?thesis using Cons.prems(1,2) score None False by (simp add: l Let_def)
    next
      case (Some b')
      then have b': "b' = Some (line_score ps r ?t, r)"
        using score_line_spec(2) [OF assms] score by simp
      show ?thesis
      proof (cases "similar_enough (line_score ps r ?t) r")
        case no: False
        then show ?thesis
          using Cons.prems(1) score Some b' False by (intro skip) (auto simp: l similar_lines_def Let_def)
      next
        case yes: True
        let ?c = "\<lparr>sl_line = i + 1, sl_preview = ?preview, sl_edits = line_score ps r ?t, sl_pattern_len = r\<rparr>"
        obtain cs s' where ret: "retain_similar_line cands ?c s = (cs, s')"
          by (cases "retain_similar_line cands ?c s")
        have next_lines: "similar_lines ps r (seen @ [l]) = similar_lines ps r seen @ [?c]"
          using yes False by (simp add: l similar_lines_append) (simp add: similar_lines_def)
        have "distinct (map fst (seen @ [l]))" using Cons.prems(3) by simp
        then have inj: "inj_on line_key (set (similar_lines ps r seen @ [?c]))"
          unfolding next_lines [symmetric] by (rule similar_lines_inj)
        have fresh: "?c \<notin> set (similar_lines ps r seen)"
          using Cons.prems(3) by (force simp: l dest!: similar_lines_index)
        have "mset cs = mset (best_five (similar_lines ps r (seen @ [l])))"
          using retain_top [OF assms(1) _ Cons.prems(5) inj fresh, of s] ret Cons.prems(4) next_lines by simp
        moreover have "list_all (\<lambda>c. sl_pattern_len c = r) cs"
          using calculation similar_lines_len [of r ps "seen @ [l]"]
          by (auto simp: list_all_iff best_five_def dest!: mset_eq_setD in_set_takeD)
        moreover have "search_lines ps r ls cs s' = (cands', stats')"
          using Cons.prems(1) score Some b' False yes ret by (simp add: l Let_def)
        ultimately show ?thesis using Cons.IH [of cs s' "seen @ [l]"] Cons.prems(2,3) by simp
      qed
    qed
  qed
qed simp

section \<open>The patterns\<close>

lemma set_insert_by: "set (insert_by ord x xs) = insert x (set xs)"
  by (induction xs) auto

lemma set_sort_by: "set (sort_by ord xs) = set xs"
  by (induction xs) (auto simp: sort_by_def set_insert_by)

lemma add_pattern_long:
  "\<forall>p \<in> set ps. 8 \<le> length (sp_chars p) \<Longrightarrow> p \<in> set (add_pattern l ps) \<Longrightarrow> 8 \<le> length (sp_chars p)"
  by (auto simp: add_pattern_def Let_def set_sort_by MIN_SUGGESTION_PATTERN_CHARS_def
      split: if_splits prod.splits dest!: in_set_takeD)

lemma patterns_long:
  "p \<in> set (fst (suggestion_patterns old stats)) \<Longrightarrow> 8 \<le> length (sp_chars p)"
proof -
  have "\<forall>p \<in> set ps. 8 \<le> length (sp_chars p) \<Longrightarrow>
      \<forall>p \<in> set (fold add_pattern ls ps). 8 \<le> length (sp_chars p)" for ls ps
    by (induction ls arbitrary: ps) (simp, simp, metis add_pattern_long)
  from this [of "[]"] show "p \<in> set (fst (suggestion_patterns old stats)) \<Longrightarrow> ?thesis"
    by (simp add: suggestion_patterns_def Let_def)
qed

section \<open>Properties\<close>

definition request_size :: "suggestion_pattern list \<Rightarrow> nat" where
  "request_size ps = sum_list (map (\<lambda>p. length (sp_chars p)) ps)"

text \<open>C19: The suggestions are the best there are. Unless the budget of the search runs out, the lines
  suggested for a text that was not found are the first five of all similar lines of the scanned
  part of the file, sorted by their distance and then by their number, although the search never
  keeps more than five; the distance of a line is that of the nearest pattern, with the characters
  of the other patterns counted as missing.\<close>

theorem suggestions_are_best:
  "\<not> st_exhausted (snd (no_match_candidates_with_stats content old)) \<longrightarrow>
   no_match_candidates content old =
     (let ps = fst (suggestion_patterns old default_stats);
          ls = enumerate 0 (take 4096 (split_inclusive content))
      in if ps = [] then []
         else map (\<lambda>c. (sl_line c, sl_preview c))
                (take 5 (sort_key line_key (similar_lines ps (request_size ps) ls))))"
proof
  assume ok: "\<not> st_exhausted (snd (no_match_candidates_with_stats content old))"
  obtain ps s where ps: "suggestion_patterns old default_stats = (ps, s)"
    by (cases "suggestion_patterns old default_stats")
  let ?ls = "enumerate 0 (take 4096 (split_inclusive content))"
  let ?r = "request_size ps"
  obtain cands s' where search: "search_lines ps ?r ?ls [] s = (cands, s')"
    by (cases "search_lines ps ?r ?ls [] s")
  show "no_match_candidates content old = (let ps = fst (suggestion_patterns old default_stats); ls = ?ls
      in if ps = [] then []
         else map (\<lambda>c. (sl_line c, sl_preview c)) (take 5 (sort_key line_key (similar_lines ps (request_size ps) ls))))"
  proof (cases "ps = []")
    case True
    then show ?thesis by (simp add: no_match_candidates_def no_match_candidates_with_stats_def ps)
  next
    case False
    then obtain q qs where q: "ps = q # qs" by (cases ps) auto
    then have "8 \<le> length (sp_chars q)" using patterns_long [of q old default_stats] ps by simp
    then have "0 < length (sp_chars q)" by linarith
    then have r: "0 < ?r" by (simp add: request_size_def q del: length_greater_0_conv)
    have run: "no_match_candidates_with_stats content old =
        (map (\<lambda>c. (sl_line c, sl_preview c)) (take 5 (sort_by similar_line_order cands)), s')"
      using False search by (simp add: no_match_candidates_with_stats_def ps request_size_def [symmetric]
          MAX_SUGGESTION_FILE_LINES_SCANNED_def tool_error_limits Let_def)
    let ?all = "similar_lines ps ?r ?ls"
    have "\<not> st_exhausted s'" using ok run by simp
    then have cands: "mset cands = mset (best_five ?all)"
      using search_lines_top [OF r False search, of "[]"] by (simp add: similar_lines_def best_five_def)
    have sub: "set (best_five ?all) \<subseteq> set ?all" by (auto simp: best_five_def dest: in_set_takeD)
    have "list_all (\<lambda>c. sl_pattern_len c = ?r) cands"
      using sub similar_lines_len [of ?r ps ?ls] mset_eq_setD [OF cands] by (auto simp: list_all_iff)
    then have "sort_by similar_line_order cands = sort_key line_key cands" by (rule sort_by_key [OF r])
    also have "\<dots> = best_five ?all"
    proof (rule sort_key_inj_key_eq [OF cands])
      have "inj_on line_key (set ?all)" by (rule similar_lines_inj) simp
      then show "inj_on line_key (set cands)"
        using mset_eq_setD [OF cands] sub by (auto intro: inj_on_subset)
      show "sorted (map line_key (best_five ?all))" by (simp add: best_five_def take_map [symmetric] sorted_wrt_take)
    qed
    finally show ?thesis
      using False run by (simp add: no_match_candidates_def ps best_five_def tool_error_limits Let_def)
  qed
qed

lemma sample_table:
  "edit_rows 0 (map (\<lambda>c. [c]) ''abcdefgh'') (map (\<lambda>c. [c]) ''abcdefgx'') (replicate 9 0) (replicate 9 0)
     = [8, 7, 6, 5, 4, 3, 2, 1, 1]"
  by (simp add: fill_row_def set_cell_def numeral_nat)

lemma sample_patterns:
  "suggestion_patterns ''abcdefgh'' default_stats =
     ([\<lparr>sp_chars = map (\<lambda>c. [c]) ''abcdefgh'', sp_ordinal = 0\<rparr>],
      default_stats\<lparr>st_pattern_lines_scanned := 1, st_patterns := 1\<rparr>)"
  by (simp add: suggestion_patterns_def MAX_SUGGESTION_PATTERN_LINES_SCANNED_def add_pattern_def
      pattern_chars_def trim_end_char_def trim_eval is_cont_def MIN_SUGGESTION_PATTERN_CHARS_def
      sort_by_def tool_error_limits MAX_SUGGESTION_PATTERNS_def default_stats_def Let_def)

lemma sample_preview: "line_preview_text ''abcdefgx'' = ''abcdefgx''"
  by (simp add: line_preview_text_def strip_char_def strip_suffix_def ends_with_def take_chars_def
      is_cont_def byte_def tool_error_limits)

lemma sample_search:
  "\<not> st_exhausted (snd (no_match_candidates_with_stats ''abcdefgx'' ''abcdefgh''))"
proof -
  have "chars (trim ''abcdefgx'') = map (\<lambda>c. [c]) ''abcdefgx''" by (simp add: trim_eval is_cont_def)
  moreover have "substring_edit_distance (map (\<lambda>c. [c]) ''abcdefgh'') (map (\<lambda>c. [c]) ''abcdefgx'') s =
      (Some 1, s\<lparr>st_work_cells := 64\<rparr>)" if "st_work_cells s = 0" for s
  proof -
    have cells: "min (st_work_cells s + saturating_mul_u64 (length (map (\<lambda>c. [c]) ''abcdefgh''))
        (length (map (\<lambda>c. [c]) ''abcdefgx''))) u64_max = 64"
      using that by (simp add: saturating_mul_u64_def u64_max_def)
    have zeros: "replicate (length (map (\<lambda>c. [c]) ''abcdefgx'') + 1) 0 = replicate 9 (0 :: nat)"
      by (rule arg_cong [where f = "\<lambda>n. replicate n 0"]) simp
    show ?thesis
      unfolding substring_edit_distance_def Let_def cells zeros sample_table
      by (simp add: MAX_SUGGESTION_WORK_CELLS_def)
  qed
  ultimately show ?thesis
    using sample_patterns sample_preview
    by (simp add: no_match_candidates_with_stats_def default_stats_def MAX_SUGGESTION_FILE_LINES_SCANNED_def
        retain_similar_line_def Let_def)
qed

theorem suggestions_are_best_witness:
  "no_match_candidates ''abcdefgx'' ''abcdefgh'' =
     (let ps = fst (suggestion_patterns ''abcdefgh'' default_stats)
      in map (\<lambda>c. (sl_line c, sl_preview c))
           (take 5 (sort_key line_key (similar_lines ps (request_size ps) [(0, ''abcdefgx'')]))))"
  using suggestions_are_best [of "''abcdefgx''" "''abcdefgh''"] sample_search by (simp add: sample_patterns)

end
