(* ===== verification/Spec2Isabelle.thy ===== *)
theory Spec2Isabelle
  imports Policy Approval Permission Budget Ledger Delegation RegistryUpdate LearningSafety StreamSafety ContextSafety TranslateSafety TranslateRequests EditSafety EditSuggestions
begin

text \<open>
  A verification development for the control plane in \<open>crates/core\<close>: the daemon that runs coding
  agents in its own process against the user's model providers, and everything they leave behind
  (conversations, delegated runs, approvals, agent definitions, learned knowledge).

  \<^bold>\<open>The program.\<close> A session's turn is a loop: the runner asks the \<^emph>\<open>context manager\<close>
  for the next request, sends it through the \<^emph>\<open>router\<close> (which translates between provider protocols
  and parses the streamed answer), and executes the tool calls of the answer. Each call passes the
  \<^emph>\<open>permission gate\<close>, which may park it as an \<^emph>\<open>approval\<close> until a client answers. Messages are appended
  to the \<^emph>\<open>ledger\<close>, which is what survives a restart. An agent may hand work to others through the
  \<^emph>\<open>delegation runtime\<close>, whose runs share an \<^emph>\<open>iteration budget\<close> and the registry of background slots.
  What an agent learns goes through a durable \<^emph>\<open>learning queue\<close> into its \<^emph>\<open>knowledge bundle\<close>, and the
  definitions of the agents themselves are replaced on disk by \<^emph>\<open>registry transactions\<close>.

  \<^bold>\<open>Theories and the code they model.\<close> Paths are under \<open>crates/core/src\<close>.

  \<^item> \<open>Base\<close> is the prelude: strings, lists, the 64-bit bounds, trimming. \<open>Json\<close> has the values of
    \<open>serde_json\<close>. \<open>Interfaces\<close> has the contracts as locales: \<open>strict_codec\<close> and \<open>lenient_codec\<close> (the
    text conversions of enumerations), \<open>machine\<close> (initial states, steps, an invariant: every reachable
    state satisfies it) \<open>absorbing\<close> (a machine with observations that never change once final), \<open>normaliser\<close> and \<open>partial_normaliser\<close>
    (cleaning functions whose results are their fixed points). Each is
    interpreted where the operations are defined: the enumerations of \<open>Domain\<close>, the approval hub, the
    iteration budget, the background registry, the ledger, the delegation runtime, the learning system, the
    tool errors.
  \<^item> \<open>Domain\<close>: the persisted enumerations of \<open>domain.rs\<close>. \<open>Policy\<close>: \<open>policy.rs\<close>.
  \<^item> \<open>Approval\<close>: \<open>approval.rs\<close>, the hub of parked approvals and the table \<open>pending_approvals\<close>.
    \<open>Permission\<close>: \<open>harness/native/permission.rs\<close>, the whole of \<open>evaluate\<close> with its early decisions, its
    parking, its three ways to wake and the remembering of answers.
  \<^item> \<open>Budget\<close>: \<open>harness/native/iteration_budget.rs\<close> and \<open>background.rs\<close>, as step relations over the
    atomic accesses and the lock sections.
  \<^item> \<open>RunStore\<close>: the table of agent runs of \<open>store.rs\<close>. \<open>Delegation\<close>: \<open>delegation.rs\<close>.
  \<^item> \<open>Ledger\<close>: \<open>harness/native/ledger.rs\<close> with its two tables. \<open>Context\<close>: \<open>harness/native/context_manager\<close>
    (token accounting, truncation, bounding of tool results, compaction); \<open>ContextSafety\<close> has its
    properties.
  \<^item> \<open>Transaction\<close>: \<open>agents/transaction.rs\<close> over an explicit file system in which every change may fail or
    be the last one before a power cut. \<open>TransactionSafety\<close> has a small program logic for it,
    \<open>CrashAtomicity\<close> the recovery argument, \<open>RegistryUpdate\<close> the theorems on a whole update.
  \<^item> \<open>LearningQueue\<close>: \<open>agents/learning_queue.rs\<close>. \<open>Knowledge\<close>: what an event does to a bundle
    (\<open>agents/knowledge.rs\<close>, \<open>agents/okf.rs\<close>, the planning in \<open>learning_queue.rs\<close>, the budget of
    \<open>harness/native/memory.rs\<close>). \<open>LearningSystem\<close>: workers, callers, deletions and restarts as one step
    relation. \<open>KnowledgeSafety\<close> and \<open>LearningSafety\<close> have the properties, the latter also
    \<open>learning.rs\<close> and \<open>deliver_through\<close>.
  \<^item> \<open>Streams\<close>: \<open>llm_router/sse.rs\<close> and \<open>aws_stream.rs\<close>; \<open>StreamSafety\<close> has their properties.
    \<open>Translate\<close>: \<open>llm_router/translate/mod.rs\<close> and the stream pump of \<open>client.rs\<close>;
    \<open>TranslateSafety\<close> (streams) and \<open>TranslateRequests\<close> (requests) have the properties.
  \<^item> \<open>ToolErrors\<close>: the error half of \<open>harness/native/tool_contract.rs\<close>. \<open>ToolOutput\<close>: the outputs of tools and
    their truncation (\<open>harness/native/tools/mod.rs\<close>). \<open>Edit\<close>: \<open>harness/native/tools/edit.rs\<close>; \<open>EditDistance\<close>
    (the table of the edit distance), \<open>EditSuggestions\<close> (the search for similar lines) and \<open>EditSafety\<close> (what
    an edit does to a file) have the properties.

  \<^bold>\<open>How the model corresponds to the code.\<close> A struct is a record with the same fields and an enum a
  datatype with the same constructors. A Rust \<open>String\<close> is the \<open>string\<close> of its UTF-8 bytes, so that lengths and
  slices are those of the code. Errors are values: \<open>Result\<close> is a sum with the error on the left, \<open>Option\<close> is
  \<open>option\<close>, and a panic is \<open>None\<close> where the code can panic. Methods that mutate return the new state.
  Tables are lists of rows in insertion order, and a query is the filter and the sort its SQL text states.
  Integers are \<open>nat\<close> or \<open>int\<close> with the saturation or the bound of the code written out where it matters.
  Where several tasks run at once, one step of the relation is one lock section, one SQL statement or
  transaction, or one atomic access, and the theorems hold for every interleaving.

  \<^bold>\<open>What the lemmas show.\<close>

  \<^item> \<^emph>\<open>Registry\<close>: an update is atomic under any failures, power cuts and interrupted recoveries, and durable
    once reported; two lemmas exhibit the two places where recovery does less than its comments say.
  \<^item> \<^emph>\<open>Delegation\<close>: limits on depth, fan-out, cycles and retries hold in every reachable state; finished runs
    never change; cancelling reaches the whole subtree; the walk to the root ends.
  \<^item> \<^emph>\<open>Learning\<close>: events of an agent are first applied in order, never after its deletion; replays
    converge; bundles stay well formed and memories within the budget; synchronous delivery ends.
  \<^item> \<^emph>\<open>Permission and approval\<close>: Plan mode is read only, store failures never change a verdict, no parked row
    outlives its check, each approval is answered at most once.
  \<^item> \<^emph>\<open>Ledger and context\<close>: a restart loads exactly what was in memory, repaired histories are well paired,
    compaction is all or nothing and survives a restart, tool results are bounded optimally.
  \<^item> \<^emph>\<open>Streams and translation\<close>: the parsers do not depend on how the bytes are cut and never panic;
    translated streams are well formed and carry the content of the original; translated requests keep
    calls and answers adjacent, and a history survives the round trip.
  \<^item> \<^emph>\<open>Tools\<close>: an edit replaces exactly the occurrences of its text, keeps line endings, and writes only over the
    content that was approved; the suggestions for a text that was not found are the best there are;
    tool errors survive their public form, which is bounded and shows no path outside the workspace.

  \<^bold>\<open>Bounds and fuel.\<close> \<open>deliver_loop\<close> takes a number of polls; as many as there are undelivered events
  are enough (\<open>deliver_through_ends\<close>). \<open>ancestors_walk\<close> loops as the code does, \<open>None\<close> being a walk that never
  ends, and the invariant shows that it ends (\<open>tree_walk_terminates\<close>); the recursive query for descendants
  takes as many levels as there are rows, which is every level an acyclic table can have. All other
  recursions terminate by a measure. The 64-bit bounds are hypotheses only where the code adds without
  saturation.

  \<^bold>\<open>Parameters.\<close> What is not in the repository is an argument: the JSON printer and parser (\<open>pr\<close>, \<open>pa\<close>; the
  round trip \<open>pa (pr v) = Some v\<close> is a named hypothesis, which the witnesses instantiate), the hash of
  \<open>registry_generation\<close> and the digest of an edited file, the regular-expression engine (\<open>regex_crate\<close> states
  what is relied on, and a concrete engine satisfies it), clocks, fresh identifiers, the answers of a provider and of the user.

  \<^bold>\<open>Not modelled.\<close>

  \<^item> The turn runner (\<open>harness/native/runner.rs\<close>), the HTTP handlers (\<open>api\<close>), the daemon, the command line, the
    gateways and the scheduler: they sequence network and process effects around the components above,
    and what they decide is in those components.
  \<^item> The plugin host (\<open>plugins\<close>): it runs WebAssembly components in a third-party engine. The provider
    clients other than the translated pump, and OAuth: HTTP protocols of services outside the repository.
  \<^item> YAML parsing of agent definitions and knowledge documents, which rests on a third-party parser; the
    staged swap of a bundle's directory (the bundle is replaced in one step); the editor operations on
    bundles that do not come from learning events.
  \<^item> The remaining accessors of \<open>store.rs\<close>: plain reads and writes of tables no modelled component uses.
  \<^item> The front ends under \<open>apps\<close> and the remote client \<open>crates/control\<close>: other languages, and rendering.
\<close>

end
